(* ===== verification/Prelude.thy ===== *)
theory Prelude
  imports Main "HOL-Library.Sublist" "HOL-Library.AList"
begin

text \<open>
  Shared vocabulary of the development: decimal rendering of counters
  (strconv.Itoa), Go's 64-bit int arithmetic with its wrap-around, the
  association-list form of Go maps, optional pointers, and the collections of
  simplification rules the component theories use.
\<close>

section \<open>Collections\<close>

named_theorems state_simps \<open>lookup and update rules of the execution state\<close>
named_theorems ckpt_simps \<open>rules of the checkpoint queue\<close>
named_theorems susp_simps \<open>rules of the suspension accounting\<close>

section \<open>Go scalars\<close>

text \<open>Go's \<^verbatim>\<open>int\<close> on a 64-bit platform: arithmetic wraps modulo two to the 64.\<close>

definition wrap64 :: "int \<Rightarrow> int" where
  "wrap64 x = (x + 2 ^ 63) mod 2 ^ 64 - 2 ^ 63"

definition int64 :: "int \<Rightarrow> bool" where
  "int64 x \<longleftrightarrow> - (2 ^ 63) \<le> x \<and> x < 2 ^ 63"

lemma wrap64_id [simp]: "int64 x \<Longrightarrow> wrap64 x = x"
  by (simp add: wrap64_def int64_def)

lemma int64_wrap64 [simp, intro]: "int64 (wrap64 x)"
proof -
  have "0 \<le> (x + 2 ^ 63) mod 2 ^ 64" "(x + 2 ^ 63) mod 2 ^ 64 < (2 ^ 64 :: int)"
    by simp_all
  then show ?thesis
    by (simp add: int64_def wrap64_def)
qed

definition maxInt32 :: int where
  "maxInt32 = 2147483647"

text \<open>Go's truncated integer division and the ceiling of a quotient by a positive number.\<close>

definition ceil_div :: "int \<Rightarrow> int \<Rightarrow> int" where
  "ceil_div a b = - ((- a) div b)"

lemma ceil_div_bounds:
  assumes "0 < b"
  shows "a \<le> b * ceil_div a b" "b * ceil_div a b < a + b"
proof -
  have e: "- a = b * ((- a) div b) + (- a) mod b"
    by simp
  have m: "0 \<le> (- a) mod b" "(- a) mod b < b"
    using assms by simp_all
  have c: "b * ceil_div a b = - (b * ((- a) div b))"
    by (simp add: ceil_div_def)
  show "a \<le> b * ceil_div a b"
    using e m c by linarith
  show "b * ceil_div a b < a + b"
    using e m c by linarith
qed

lemma ceil_div_nonneg: "0 \<le> a \<Longrightarrow> 0 < b \<Longrightarrow> 0 \<le> ceil_div a b"
  by (simp add: ceil_div_def div_nonpos_pos_le0)

lemma ceil_div_pos: "0 < a \<Longrightarrow> 0 < b \<Longrightarrow> 0 < ceil_div a b"
  by (simp add: ceil_div_def div_neg_pos_less0)

section \<open>Decimal rendering\<close>

definition digit_char :: "nat \<Rightarrow> char" where
  "digit_char d = char_of (48 + d)"

definition char_digit :: "char \<Rightarrow> nat" where
  "char_digit c = of_char c - 48"

lemma char_digit_digit_char [simp]: "d < 10 \<Longrightarrow> char_digit (digit_char d) = d"
  by (simp add: char_digit_def digit_char_def)

fun itoa :: "nat \<Rightarrow> string" where
  "itoa n = (if n < 10 then [digit_char n] else itoa (n div 10) @ [digit_char (n mod 10)])"

declare itoa.simps [simp del]

fun atoi_acc :: "nat \<Rightarrow> string \<Rightarrow> nat" where
  "atoi_acc acc [] = acc"
| "atoi_acc acc (c # cs) = atoi_acc (10 * acc + char_digit c) cs"

lemma atoi_acc_append: "atoi_acc acc (xs @ ys) = atoi_acc (atoi_acc acc xs) ys"
  by (induction xs arbitrary: acc) simp_all

lemma atoi_acc_itoa: "atoi_acc 0 (itoa n) = n"
proof (induction n rule: itoa.induct)
  case (1 n)
  show ?case
  proof (cases "n < 10")
    case True
    then show ?thesis by (simp add: itoa.simps [of n])
  next
    case False
    then have "atoi_acc 0 (itoa (n div 10)) = n div 10"
      using 1 by simp
    then show ?thesis
      using False by (simp add: itoa.simps [of n] atoi_acc_append)
  qed
qed

lemma itoa_eq_iff [simp]: "itoa m = itoa n \<longleftrightarrow> m = n"
  by (metis atoi_acc_itoa)

lemma itoa_ne_Nil [simp]: "itoa n \<noteq> []"
  by (simp add: itoa.simps [of n])

definition is_digit :: "char \<Rightarrow> bool" where
  "is_digit c \<longleftrightarrow> 48 \<le> (of_char c :: nat) \<and> (of_char c :: nat) \<le> 57"

lemma is_digit_digit_char: "d < 10 \<Longrightarrow> is_digit (digit_char d)"
  by (simp add: is_digit_def digit_char_def)

lemma itoa_digits: "c \<in> set (itoa n) \<Longrightarrow> is_digit c"
proof (induction n rule: itoa.induct)
  case (1 n)
  then show ?case
    by (cases "n < 10") (auto simp: itoa.simps [of n] is_digit_digit_char)
qed

lemma dash_not_digit [simp]: "\<not> is_digit CHR ''-''"
  by (simp add: is_digit_def)

lemma dash_notin_itoa [simp]: "CHR ''-'' \<notin> set (itoa n)"
  using itoa_digits dash_not_digit by blast

section \<open>Options as pointers\<close>

text \<open>\<^verbatim>\<open>aws.ToString\<close>: the value of an optional string pointer, empty when absent.\<close>

definition toString :: "string option \<Rightarrow> string" where
  "toString p = (case p of None \<Rightarrow> '''' | Some s \<Rightarrow> s)"

lemma toString_simps [simp]: "toString None = ''''" "toString (Some s) = s"
  by (simp_all add: toString_def)

section \<open>Separators\<close>

lemma split_at_last_sep:
  assumes "p @ [c] @ x = q @ [c] @ y" and "c \<notin> set x" and "c \<notin> set y"
  shows "p = q \<and> x = y"
  using assms by (auto simp: append_eq_append_conv2 append_eq_Cons_conv Cons_eq_append_conv)

section \<open>Lists\<close>

lemma nth_map_upt_Suc [simp]: "i < n \<Longrightarrow> map (\<lambda>i. f (Suc i)) [0..<n] ! i = f (Suc i)"
  by simp

lemma filter_length_le: "length (filter P xs) \<le> length xs"
  by simp

lemma distinct_map_inj: "inj f \<Longrightarrow> distinct xs \<Longrightarrow> distinct (map f xs)"
  by (simp add: distinct_map inj_on_subset [of f UNIV])

section \<open>Step systems\<close>

text \<open>
  A component whose state changes by guarded actions: an action that is not
  enabled has no successor.  The interface asks for an invariant every action
  keeps; its extension asks for a reflexive and transitive relation every
  action stays within (what never changes back).
\<close>

fun run_steps :: "('a \<Rightarrow> 's \<Rightarrow> 's option) \<Rightarrow> 'a list \<Rightarrow> 's \<Rightarrow> 's option" where
  "run_steps step [] s = Some s"
| "run_steps step (a # as) s = (case step a s of None \<Rightarrow> None | Some s' \<Rightarrow> run_steps step as s')"

lemma run_steps_append:
  "run_steps step (as @ bs) s = (case run_steps step as s of None \<Rightarrow> None | Some t \<Rightarrow> run_steps step bs t)"
  by (induction as arbitrary: s) (auto split: option.split)

locale step_system =
  fixes step :: "'a \<Rightarrow> 's \<Rightarrow> 's option"
    and inv :: "'s \<Rightarrow> bool"
  assumes step_inv: "step a s = Some s' \<Longrightarrow> inv s \<Longrightarrow> inv s'"
begin

lemma run_inv: "run_steps step as s = Some s' \<Longrightarrow> inv s \<Longrightarrow> inv s'"
  by (induction as arbitrary: s) (auto split: option.splits dest: step_inv)

lemma run_inv_prefix:
  "run_steps step (as @ bs) s = Some s' \<Longrightarrow> inv s \<Longrightarrow> \<exists>t. run_steps step as s = Some t \<and> inv t"
  by (auto simp: run_steps_append split: option.splits dest: run_inv)

end

locale monotone_step_system = step_system step inv
  for step :: "'a \<Rightarrow> 's \<Rightarrow> 's option" and inv :: "'s \<Rightarrow> bool" +
  fixes rel :: "'s \<Rightarrow> 's \<Rightarrow> bool"
  assumes rel_refl: "rel s s"
    and rel_trans: "rel s t \<Longrightarrow> rel t u \<Longrightarrow> rel s u"
    and step_rel: "step a s = Some s' \<Longrightarrow> inv s \<Longrightarrow> rel s s'"
begin

lemma run_rel: "run_steps step as s = Some s' \<Longrightarrow> inv s \<Longrightarrow> rel s s'"
proof (induction as arbitrary: s)
  case Nil
  then show ?case by (simp add: rel_refl)
next
  case (Cons a as)
  obtain t where t: "step a s = Some t" "run_steps step as t = Some s'"
    using Cons.prems(1) by (auto split: option.splits)
  show ?case
    by (rule rel_trans [OF step_rel [OF t(1) Cons.prems(2)] Cons.IH [OF t(2) step_inv [OF t(1) Cons.prems(2)]]])
qed

end

end
