(* ===== verification/Wire_Types.thy ===== *)
theory Wire_Types
  imports Prelude
begin

text \<open>
  The data exchanged with the durable execution service: the client types of
  client.go, the invocation payload of internal/wire/wire.go and the engine's
  own operation record of state.go, with the two conversions that build that
  record (operationsFromPayload of invocation.go for the page embedded in the
  invocation, operationFromAPI of checkpoint.go for fetched pages and
  checkpoint responses).  An optional pointer is an option; a Go time is its
  nanosecond count, with the zero time as a value of its own.
\<close>

section \<open>Enumerations\<close>

text \<open>Go string types with named constants; a string that is none of them is kept in the last constructor.\<close>

datatype operationStatus =
    statusStarted | statusPending | statusReady | statusSucceeded | statusFailed
  | statusCancelled | statusTimedOut | statusStopped | statusOther string

fun status_terminal :: "operationStatus \<Rightarrow> bool" where
  "status_terminal statusSucceeded = True"
| "status_terminal statusFailed = True"
| "status_terminal statusCancelled = True"
| "status_terminal statusTimedOut = True"
| "status_terminal statusStopped = True"
| "status_terminal _ = False"

datatype operationType =
    OperationTypeExecution | OperationTypeContext | OperationTypeStep | OperationTypeWait
  | OperationTypeCallback | OperationTypeChainedInvoke | OperationTypeOther string

datatype operationAction =
    OperationActionStart | OperationActionSucceed | OperationActionFail
  | OperationActionRetry | OperationActionCancel | OperationActionOther string

type_synonym time = int

definition zeroTime :: time where
  "zeroTime = -62135596800000000000"

section \<open>Client types\<close>

record errorObject =
  eo_ErrorType :: "string option"
  eo_ErrorMessage :: "string option"
  eo_ErrorData :: "string option"
  eo_StackTrace :: "string list"

record apiStepDetails =
  asd_Attempt :: int
  asd_Result :: "string option"
  asd_Error :: "errorObject option"
  asd_NextAttemptTimestamp :: "time option"

record apiWaitDetails =
  awd_ScheduledEndTimestamp :: "time option"

record apiCallbackDetails =
  acb_CallbackId :: "string option"
  acb_Result :: "string option"
  acb_Error :: "errorObject option"

record apiInvokeDetails =
  aid_Result :: "string option"
  aid_Error :: "errorObject option"

record apiContextDetails =
  acd_Result :: "string option"
  acd_ReplayChildren :: "bool option"
  acd_Error :: "errorObject option"

record apiOperation =
  ao_Id :: "string option"
  ao_Status :: operationStatus
  ao_Type :: operationType
  ao_SubType :: "string option"
  ao_Name :: "string option"
  ao_ParentId :: "string option"
  ao_StartTimestamp :: "time option"
  ao_EndTimestamp :: "time option"
  ao_InputPayload :: "string option"
  ao_StepDetails :: "apiStepDetails option"
  ao_WaitDetails :: "apiWaitDetails option"
  ao_CallbackDetails :: "apiCallbackDetails option"
  ao_ChainedInvokeDetails :: "apiInvokeDetails option"
  ao_ContextDetails :: "apiContextDetails option"

text \<open>
  One state transition of a checkpoint call.  The one-field option structs of
  the client (step, wait, chained invoke, context options) are flattened to
  their fields.
\<close>

record operationUpdate =
  ou_Id :: "string option"
  ou_Type :: operationType
  ou_Action :: operationAction
  ou_SubType :: "string option"
  ou_Name :: "string option"
  ou_ParentId :: "string option"
  ou_Payload :: "string option"
  ou_Error :: "errorObject option"
  ou_NextAttemptDelaySeconds :: "int option"
  ou_WaitSeconds :: "int option"
  ou_CallbackOptions :: "(int \<times> int) option"
  ou_ChainedInvokeOptions :: "(string option \<times> string option) option"
  ou_ReplayChildren :: "bool option"

definition mkUpdate :: "string \<Rightarrow> operationType \<Rightarrow> operationAction \<Rightarrow> operationUpdate" where
  "mkUpdate i ty act =
     \<lparr> ou_Id = Some i, ou_Type = ty, ou_Action = act, ou_SubType = None, ou_Name = None,
       ou_ParentId = None, ou_Payload = None, ou_Error = None,
       ou_NextAttemptDelaySeconds = None, ou_WaitSeconds = None, ou_CallbackOptions = None,
       ou_ChainedInvokeOptions = None, ou_ReplayChildren = None \<rparr>"

lemma mkUpdate_simps [simp]:
  "ou_Id (mkUpdate i ty act) = Some i" "ou_Type (mkUpdate i ty act) = ty"
  "ou_Action (mkUpdate i ty act) = act" "ou_Payload (mkUpdate i ty act) = None"
  "ou_Error (mkUpdate i ty act) = None" "ou_ParentId (mkUpdate i ty act) = None"
  "ou_NextAttemptDelaySeconds (mkUpdate i ty act) = None"
  "ou_WaitSeconds (mkUpdate i ty act) = None" "ou_CallbackOptions (mkUpdate i ty act) = None"
  "ou_ChainedInvokeOptions (mkUpdate i ty act) = None"
  "ou_ReplayChildren (mkUpdate i ty act) = None" "ou_Name (mkUpdate i ty act) = None"
  "ou_SubType (mkUpdate i ty act) = None"
  by (simp_all add: mkUpdate_def)

section \<open>Invocation payload\<close>

text \<open>\<^verbatim>\<open>Timestamp\<close>: a time and whether it was present and parsed.\<close>

record wireTimestamp =
  ts_Time :: time
  ts_Valid :: bool

definition timestamp_ptr :: "wireTimestamp \<Rightarrow> time option" where
  "timestamp_ptr ts = (if ts_Valid ts then Some (ts_Time ts) else None)"

record wireErrorObject =
  weo_ErrorType :: string
  weo_ErrorMessage :: string
  weo_ErrorData :: string
  weo_StackTrace :: "string list"

record wireStepDetails =
  wsd_Attempt :: int
  wsd_Result :: string
  wsd_Error :: "wireErrorObject option"
  wsd_NextAttemptTimestamp :: "wireTimestamp option"

record wireOutcomeDetails =
  wod_Result :: string
  wod_Error :: "wireErrorObject option"

record wireOperation =
  wo_Id :: string
  wo_ParentId :: string
  wo_Status :: operationStatus
  wo_Type :: operationType
  wo_SubType :: string
  wo_Name :: string
  wo_StartTimestamp :: wireTimestamp
  wo_EndTimestamp :: wireTimestamp
  wo_ExecutionDetails :: "string option"
  wo_StepDetails :: "wireStepDetails option"
  wo_WaitDetails :: "wireTimestamp option option"
  wo_ChainedInvokeDetails :: "wireOutcomeDetails option"
  wo_ContextDetails :: "(wireOutcomeDetails \<times> bool) option"
  wo_CallbackDetails :: "(string \<times> wireOutcomeDetails) option"

record initialExecutionState =
  ies_Operations :: "wireOperation list"
  ies_NextMarker :: string

section \<open>The engine's operation record\<close>

text \<open>The recorded failure every details struct carries (errType, errMessage, errData, stackTrace).\<close>

record errorRecord =
  er_errType :: string
  er_message :: string
  er_data :: string
  er_stackTrace :: "string list"

definition noError :: errorRecord where
  "noError = \<lparr> er_errType = '''', er_message = '''', er_data = '''', er_stackTrace = [] \<rparr>"

record stepDetails =
  sd_attempt :: int
  sd_nextAttempt :: time
  sd_result :: string
  sd_record :: errorRecord

record invokeDetails =
  id_result :: string
  id_record :: errorRecord

record contextDetails =
  cd_result :: string
  cd_replayChildren :: bool
  cd_record :: errorRecord

record callbackDetails =
  cb_callbackID :: string
  cb_result :: string
  cb_record :: errorRecord

record operation =
  op_id :: string
  op_parentID :: string
  op_status :: operationStatus
  op_opType :: operationType
  op_subType :: string
  op_name :: string
  op_startTimestamp :: time
  op_endTimestamp :: time
  op_scheduledEnd :: time
  op_step :: "stepDetails option"
  op_invoke :: "invokeDetails option"
  op_childCtx :: "contextDetails option"
  op_callback :: "callbackDetails option"

definition setTimestamps :: "time option \<Rightarrow> time option \<Rightarrow> operation \<Rightarrow> operation" where
  "setTimestamps st en op =
     op \<lparr> op_startTimestamp := (case st of Some t \<Rightarrow> t | None \<Rightarrow> op_startTimestamp op),
          op_endTimestamp := (case en of Some t \<Rightarrow> t | None \<Rightarrow> op_endTimestamp op) \<rparr>"

definition newOperation :: "string \<Rightarrow> string \<Rightarrow> operationStatus \<Rightarrow> operationType \<Rightarrow> string \<Rightarrow> string \<Rightarrow> operation" where
  "newOperation i p st ty sub nm =
     \<lparr> op_id = i, op_parentID = p, op_status = st, op_opType = ty, op_subType = sub, op_name = nm,
       op_startTimestamp = zeroTime, op_endTimestamp = zeroTime, op_scheduledEnd = zeroTime,
       op_step = None, op_invoke = None, op_childCtx = None, op_callback = None \<rparr>"

section \<open>Conversions\<close>

text \<open>Field by field, as both conversions write them; an absent error leaves the recorded failure empty.\<close>

definition record_of_wire :: "wireErrorObject option \<Rightarrow> errorRecord" where
  "record_of_wire e = (case e of None \<Rightarrow> noError
     | Some w \<Rightarrow> \<lparr> er_errType = weo_ErrorType w, er_message = weo_ErrorMessage w,
                  er_data = weo_ErrorData w, er_stackTrace = weo_StackTrace w \<rparr>)"

definition record_of_api :: "errorObject option \<Rightarrow> errorRecord" where
  "record_of_api e = (case e of None \<Rightarrow> noError
     | Some a \<Rightarrow> \<lparr> er_errType = toString (eo_ErrorType a), er_message = toString (eo_ErrorMessage a),
                  er_data = toString (eo_ErrorData a), er_stackTrace = eo_StackTrace a \<rparr>)"

definition operationFromWire :: "wireOperation \<Rightarrow> operation" where
  "operationFromWire w =
    (let op = setTimestamps (timestamp_ptr (wo_StartTimestamp w)) (timestamp_ptr (wo_EndTimestamp w))
                (newOperation (wo_Id w) (wo_ParentId w) (wo_Status w) (wo_Type w) (wo_SubType w) (wo_Name w))
     in op
      \<lparr> op_step := (case wo_StepDetails w of None \<Rightarrow> None
           | Some sd \<Rightarrow> Some \<lparr> sd_attempt = wsd_Attempt sd,
               sd_nextAttempt = (case wsd_NextAttemptTimestamp sd of
                   Some ts \<Rightarrow> if ts_Valid ts then ts_Time ts else zeroTime | None \<Rightarrow> zeroTime),
               sd_result = wsd_Result sd, sd_record = record_of_wire (wsd_Error sd) \<rparr>),
        op_scheduledEnd := (case wo_WaitDetails w of
             Some (Some ts) \<Rightarrow> if ts_Valid ts then ts_Time ts else zeroTime | _ \<Rightarrow> zeroTime),
        op_invoke := (case wo_ChainedInvokeDetails w of None \<Rightarrow> None
           | Some d \<Rightarrow> Some \<lparr> id_result = wod_Result d, id_record = record_of_wire (wod_Error d) \<rparr>),
        op_childCtx := (case wo_ContextDetails w of None \<Rightarrow> None
           | Some (d, rc) \<Rightarrow> Some \<lparr> cd_result = wod_Result d, cd_replayChildren = rc,
                                  cd_record = record_of_wire (wod_Error d) \<rparr>),
        op_callback := (case wo_CallbackDetails w of None \<Rightarrow> None
           | Some (cid, d) \<Rightarrow> Some \<lparr> cb_callbackID = cid, cb_result = wod_Result d,
                                   cb_record = record_of_wire (wod_Error d) \<rparr>) \<rparr>)"

definition operationsFromPayload :: "initialExecutionState \<Rightarrow> operation list" where
  "operationsFromPayload ies = map operationFromWire (ies_Operations ies)"

definition operationFromAPI :: "apiOperation \<Rightarrow> operation" where
  "operationFromAPI a =
    (let op = setTimestamps (ao_StartTimestamp a) (ao_EndTimestamp a)
                (newOperation (toString (ao_Id a)) '''' (ao_Status a) (ao_Type a)
                   (toString (ao_SubType a)) (toString (ao_Name a)))
     in op
      \<lparr> op_step := (case ao_StepDetails a of None \<Rightarrow> None
           | Some sd \<Rightarrow> Some \<lparr> sd_attempt = asd_Attempt sd,
               sd_nextAttempt = (case asd_NextAttemptTimestamp sd of Some t \<Rightarrow> t | None \<Rightarrow> zeroTime),
               sd_result = toString (asd_Result sd), sd_record = record_of_api (asd_Error sd) \<rparr>),
        op_scheduledEnd := (case ao_WaitDetails a of None \<Rightarrow> zeroTime
           | Some wd \<Rightarrow> (case awd_ScheduledEndTimestamp wd of Some t \<Rightarrow> t | None \<Rightarrow> zeroTime)),
        op_invoke := (case ao_ChainedInvokeDetails a of None \<Rightarrow> None
           | Some d \<Rightarrow> Some \<lparr> id_result = toString (aid_Result d), id_record = record_of_api (aid_Error d) \<rparr>),
        op_childCtx := (case ao_ContextDetails a of None \<Rightarrow> None
           | Some d \<Rightarrow> Some \<lparr> cd_result = toString (acd_Result d),
               cd_replayChildren = (acd_ReplayChildren d = Some True),
               cd_record = record_of_api (acd_Error d) \<rparr>),
        op_callback := (case ao_CallbackDetails a of None \<Rightarrow> None
           | Some d \<Rightarrow> Some \<lparr> cb_callbackID = toString (acb_CallbackId d),
               cb_result = toString (acb_Result d), cb_record = record_of_api (acb_Error d) \<rparr>) \<rparr>)"

text \<open>
  The customer event: the input payload of the first operation of the page.
\<close>

definition customerInput :: "initialExecutionState \<Rightarrow> string option" where
  "customerInput ies = (case ies_Operations ies of [] \<Rightarrow> None
     | w # _ \<Rightarrow> (case wo_ExecutionDetails w of None \<Rightarrow> None
        | Some p \<Rightarrow> if p = '''' then None else Some p))"

subsection \<open>The test service's own encoding\<close>

text \<open>durabletest builds the payload's operations from its stored client records.\<close>

definition absentTimestamp :: wireTimestamp where
  "absentTimestamp = \<lparr> ts_Time = zeroTime, ts_Valid = False \<rparr>"

definition toWireErrorObject :: "errorObject option \<Rightarrow> wireErrorObject option" where
  "toWireErrorObject e = (case e of None \<Rightarrow> None
     | Some a \<Rightarrow> Some \<lparr> weo_ErrorType = toString (eo_ErrorType a), weo_ErrorMessage = toString (eo_ErrorMessage a),
                       weo_ErrorData = toString (eo_ErrorData a), weo_StackTrace = eo_StackTrace a \<rparr>)"

definition apiOperationToWire :: "apiOperation \<Rightarrow> wireOperation" where
  "apiOperationToWire a =
     \<lparr> wo_Id = toString (ao_Id a), wo_ParentId = toString (ao_ParentId a),
       wo_Status = ao_Status a, wo_Type = ao_Type a, wo_SubType = toString (ao_SubType a),
       wo_Name = toString (ao_Name a),
       wo_StartTimestamp = absentTimestamp, wo_EndTimestamp = absentTimestamp,
       wo_ExecutionDetails = None,
       wo_StepDetails = (case ao_StepDetails a of None \<Rightarrow> None
          | Some sd \<Rightarrow> Some \<lparr> wsd_Attempt = asd_Attempt sd, wsd_Result = toString (asd_Result sd),
                wsd_Error = toWireErrorObject (asd_Error sd), wsd_NextAttemptTimestamp = None \<rparr>),
       wo_WaitDetails = None,
       wo_ChainedInvokeDetails = (case ao_ChainedInvokeDetails a of None \<Rightarrow> None
          | Some d \<Rightarrow> Some \<lparr> wod_Result = toString (aid_Result d), wod_Error = toWireErrorObject (aid_Error d) \<rparr>),
       wo_ContextDetails = (case ao_ContextDetails a of None \<Rightarrow> None
          | Some d \<Rightarrow> Some (\<lparr> wod_Result = toString (acd_Result d), wod_Error = toWireErrorObject (acd_Error d) \<rparr>,
                          acd_ReplayChildren d = Some True)),
       wo_CallbackDetails = (case ao_CallbackDetails a of None \<Rightarrow> None
          | Some d \<Rightarrow> Some (toString (acb_CallbackId d),
                \<lparr> wod_Result = toString (acb_Result d), wod_Error = toWireErrorObject (acb_Error d) \<rparr>)) \<rparr>"

subsection \<open>The two conversions agree, except for the parent\<close>

lemma record_of_wire_error: "record_of_wire (toWireErrorObject e) = record_of_api e"
  by (cases e) (simp_all add: record_of_wire_def toWireErrorObject_def record_of_api_def)

text \<open>What a record forgets on the way through the test service's payload: the times.\<close>

definition untimed :: "operation \<Rightarrow> operation" where
  "untimed op = op \<lparr> op_startTimestamp := zeroTime, op_endTimestamp := zeroTime, op_scheduledEnd := zeroTime,
      op_step := (case op_step op of None \<Rightarrow> None | Some sd \<Rightarrow> Some (sd \<lparr> sd_nextAttempt := zeroTime \<rparr>)) \<rparr>"

text \<open>What two records of an operation agree on when they differ in times and parents only.\<close>

definition core :: "operation \<Rightarrow> operation" where
  "core op = (untimed op) \<lparr> op_parentID := '''' \<rparr>"

lemma operationFromWire_simps [simp]:
  "op_parentID (operationFromWire w) = wo_ParentId w"
  "op_id (operationFromWire w) = wo_Id w" "op_status (operationFromWire w) = wo_Status w"
  by (simp_all add: operationFromWire_def Let_def setTimestamps_def newOperation_def)

lemma operationFromAPI_simps [simp]:
  "op_parentID (operationFromAPI a) = ''''"
  "op_id (operationFromAPI a) = toString (ao_Id a)" "op_status (operationFromAPI a) = ao_Status a"
  by (simp_all add: operationFromAPI_def Let_def setTimestamps_def newOperation_def)

lemma wire_api_agree:
  "operationFromWire (apiOperationToWire a) =
     (untimed (operationFromAPI a)) \<lparr> op_parentID := toString (ao_ParentId a) \<rparr>"
  by (simp add: operationFromWire_def operationFromAPI_def apiOperationToWire_def untimed_def Let_def
        setTimestamps_def newOperation_def timestamp_ptr_def absentTimestamp_def record_of_wire_error
      split: option.split)

end
