(* ===== verification/Op_Ids.thy ===== *)
theory Op_Ids
  imports Prelude
begin

text \<open>
  The positional operation IDs of ids.go.  A context mints the IDs of its
  operations in program order: a root context "1", "2", ..., a child context
  whose own operation has ID p the IDs "p-1", "p-2", ....  The lemmas show that
  an ID determines the minter that produced it and the position it was
  produced at, so that no two operations of an execution share an ID.
\<close>

section \<open>The minter\<close>

record opIDs =
  ids_prefix :: string
  ids_counter :: nat

definition ids_format :: "opIDs \<Rightarrow> nat \<Rightarrow> string" where
  "ids_format ids n =
     (let s = itoa n in if ids_prefix ids = '''' then s else ids_prefix ids @ ''-'' @ s)"

definition ids_next :: "opIDs \<Rightarrow> string \<times> opIDs" where
  "ids_next ids =
     (let ids' = ids \<lparr> ids_counter := ids_counter ids + 1 \<rparr>
      in (ids_format ids' (ids_counter ids'), ids'))"

definition ids_peek :: "opIDs \<Rightarrow> string" where
  "ids_peek ids = ids_format ids (ids_counter ids + 1)"

definition ids_advance :: "opIDs \<Rightarrow> nat \<Rightarrow> opIDs" where
  "ids_advance ids n = ids \<lparr> ids_counter := ids_counter ids + n \<rparr>"

definition ids_child :: "string \<Rightarrow> opIDs" where
  "ids_child entityID = \<lparr> ids_prefix = entityID, ids_counter = 0 \<rparr>"

definition ids_root :: opIDs where
  "ids_root = \<lparr> ids_prefix = '''', ids_counter = 0 \<rparr>"

fun ids_next_n :: "nat \<Rightarrow> opIDs \<Rightarrow> string list \<times> opIDs" where
  "ids_next_n 0 ids = ([], ids)"
| "ids_next_n (Suc n) ids =
     (let (x, ids') = ids_next ids; (xs, ids'') = ids_next_n n ids' in (x # xs, ids''))"

section \<open>Injectivity\<close>

lemma ids_format_eq_iff:
  "ids_format a m = ids_format b n \<longleftrightarrow> ids_prefix a = ids_prefix b \<and> m = n"
proof
  assume eq: "ids_format a m = ids_format b n"
  have dash: "CHR ''-'' \<in> set (ids_format c k) \<longleftrightarrow> ids_prefix c \<noteq> ''''" for c k
    by (simp add: ids_format_def Let_def)
  show "ids_prefix a = ids_prefix b \<and> m = n"
  proof (cases "ids_prefix a = ''''")
    case True
    then have "ids_prefix b = ''''"
      using eq dash [of a m] dash [of b n] by simp
    then show ?thesis
      using True eq by (simp add: ids_format_def)
  next
    case False
    then have nb: "ids_prefix b \<noteq> ''''"
      using eq dash [of a m] dash [of b n] by simp
    have "ids_prefix a @ [CHR ''-''] @ itoa m = ids_prefix b @ [CHR ''-''] @ itoa n"
      using eq False nb by (simp add: ids_format_def)
    then have "ids_prefix a = ids_prefix b \<and> itoa m = itoa n"
      by (rule split_at_last_sep) simp_all
    then show ?thesis by simp
  qed
qed (simp add: ids_format_def Let_def)

lemma ids_format_ne_Nil [simp]: "ids_format a m \<noteq> []"
  by (simp add: ids_format_def Let_def)

lemma ids_next_simps [simp]:
  "fst (ids_next ids) = ids_format ids (ids_counter ids + 1)"
  "ids_prefix (snd (ids_next ids)) = ids_prefix ids"
  "ids_counter (snd (ids_next ids)) = ids_counter ids + 1"
  by (simp_all add: ids_next_def ids_format_def Let_def)

lemma ids_peek_next: "ids_peek ids = fst (ids_next ids)"
  by (simp add: ids_peek_def)

lemma ids_format_prefix_cong: "ids_prefix a = ids_prefix b \<Longrightarrow> ids_format a n = ids_format b n"
  by (simp add: ids_format_def Let_def)

lemma ids_next_n_char:
  "ids_next_n n ids =
     (map (\<lambda>i. ids_format ids (ids_counter ids + i + 1)) [0..<n], ids_advance ids n)"
proof (induction n arbitrary: ids)
  case 0
  then show ?case by (simp add: ids_advance_def)
next
  case (Suc n)
  have up: "map (\<lambda>i. ids_format ids (ids_counter ids + i + 1)) [0..<Suc n] =
        ids_format ids (ids_counter ids + 1) #
        map (\<lambda>i. ids_format ids (ids_counter ids + 1 + i + 1)) [0..<n]"
    by (simp add: upt_conv_Cons map_Suc_upt [symmetric] del: upt_Suc)
  show ?case
    unfolding ids_next_n.simps up
    by (simp add: Suc.IH Let_def case_prod_beta ids_advance_def ids_next_def ids_format_def)
qed

section \<open>Namespaces\<close>

text \<open>
  The interface of a minter: an ID determines the namespace and the position.
  Everything below about distinctness rests on this law alone.
\<close>

locale id_minter =
  fixes fmt :: "'m \<Rightarrow> nat \<Rightarrow> string"
    and space :: "'m \<Rightarrow> string"
  assumes fmt_eq: "fmt a m = fmt b n \<longleftrightarrow> space a = space b \<and> m = n"
begin

definition minted :: "'m \<Rightarrow> nat set \<Rightarrow> string set" where
  "minted a ns = fmt a ` ns"

lemma minted_disjoint: "space a \<noteq> space b \<or> ns \<inter> ms = {} \<Longrightarrow> minted a ns \<inter> minted b ms = {}"
  by (auto simp: minted_def fmt_eq)

lemma minted_distinct: "distinct ns \<Longrightarrow> distinct (map (fmt a) ns)"
  by (simp add: distinct_map inj_on_def fmt_eq)

end

interpretation ids: id_minter ids_format ids_prefix
  by unfold_locales (rule ids_format_eq_iff)

section \<open>The IDs of batch items\<close>

datatype nestingMode = NestingNormal | NestingFlat

definition flatItemID :: "string \<Rightarrow> nat \<Rightarrow> string" where
  "flatItemID parentID index = ids_format (ids_child parentID) (index + 1)"

definition batchItemIDs :: "opIDs \<Rightarrow> string \<Rightarrow> nestingMode \<Rightarrow> nat \<Rightarrow> string" where
  "batchItemIDs ids i nesting =
     (if nesting = NestingFlat then (\<lambda>index. flatItemID i index)
      else (\<lambda>index. ids_format \<lparr> ids_prefix = ids_prefix ids, ids_counter = 0 \<rparr> (ids_counter ids + 1 + index)))"

text \<open>A maximum concurrency below zero is unlimited: one slot per item.\<close>

definition effectiveConcurrency :: "int \<Rightarrow> nat \<Rightarrow> int" where
  "effectiveConcurrency maxConcurrency totalItems =
     (if maxConcurrency < 0 then int totalItems else maxConcurrency)"

definition batchReplayAdvance :: "nestingMode \<Rightarrow> int \<Rightarrow> nat \<Rightarrow> nat \<Rightarrow> nat" where
  "batchReplayAdvance nesting maxConcurrency totalItems startedItems =
     (if nesting = NestingFlat \<or> startedItems = 0 then 0
      else if effectiveConcurrency maxConcurrency totalItems = 1 then startedItems
      else totalItems)"

lemma batchItemIDs_next_n:
  "fst (ids_next_n n ids) = map (batchItemIDs ids i NestingNormal) [0..<n]"
  by (simp add: ids_next_n_char batchItemIDs_def ids_format_def Let_def)

lemma batchItemIDs_flat: "batchItemIDs ids i NestingFlat = flatItemID i"
  by (simp add: batchItemIDs_def)

lemma ids_next_n_snd [simp]: "snd (ids_next_n n ids) = ids_advance ids n"
  by (simp add: ids_next_n_char)

lemma ids_advance_0 [simp]: "ids_advance ids 0 = ids"
  by (simp add: ids_advance_def)

lemma ids_advance_add: "ids_advance (ids_advance ids m) n = ids_advance ids (m + n)"
  by (simp add: ids_advance_def add.assoc)

section \<open>Trees of contexts\<close>

text \<open>
  A program shape: each operation of a context either opens a child context
  with its own operations or does not.  The IDs an execution of that shape
  claims, in program order.
\<close>

datatype opTree = OpLeaf | OpContext "opTree list"

fun claim_ids :: "opIDs \<Rightarrow> opTree list \<Rightarrow> string list" where
  "claim_ids ids [] = []"
| "claim_ids ids (OpLeaf # ts) = fst (ids_next ids) # claim_ids (snd (ids_next ids)) ts"
| "claim_ids ids (OpContext us # ts) =
     fst (ids_next ids) # claim_ids (ids_child (fst (ids_next ids))) us @ claim_ids (snd (ids_next ids)) ts"

text \<open>
  The position list an ID spells: under the prefix itself or under an ID of the
  same context.
\<close>

inductive below :: "string \<Rightarrow> string \<Rightarrow> bool" where
  below_self: "below p p"
| below_child: "below p q \<Longrightarrow> q \<noteq> '''' \<Longrightarrow> below p (ids_format (ids_child q) n)"

inductive_cases below_cases: "below p q"

lemma ids_next_fst_child:
  "fst (ids_next ids) = ids_format (ids_child (ids_prefix ids)) (ids_counter ids + 1)"
  by (simp add: ids_child_def ids_format_def Let_def)

lemma below_shape:
  "below p q \<Longrightarrow> p \<noteq> '''' \<Longrightarrow> q = p \<or> (\<exists>rest. q = p @ CHR ''-'' # rest)"
  by (induction rule: below.induct) (auto simp: ids_format_def ids_child_def Let_def)

lemma claim_ids_below:
  "x \<in> set (claim_ids ids ts) \<Longrightarrow> \<exists>k > ids_counter ids. below (ids_format (ids_child (ids_prefix ids)) k) x"
proof (induction ids ts rule: claim_ids.induct)
  case (2 ids ts)
  then show ?case
    by (auto simp: ids_next_fst_child simp del: ids_next_simps(1) intro: below_self dest: Suc_lessD)
next
  case (3 ids us ts)
  have here: ?case if "x = fst (ids_next ids)"
    using that by (auto simp: ids_next_fst_child simp del: ids_next_simps(1) intro: below_self)
  have under: ?case if inner: "x \<in> set (claim_ids (ids_child (fst (ids_next ids))) us)"
  proof -
    obtain k where k: "below (ids_format (ids_child (fst (ids_next ids))) k) x"
      using 3(1) [OF inner] by (auto simp: ids_child_def)
    have trans: "below a b \<Longrightarrow> below b c \<Longrightarrow> below a c" for a b c
      by (rotate_tac 1, induction rule: below.induct) (auto intro: below.intros)
    have "below (fst (ids_next ids)) (ids_format (ids_child (fst (ids_next ids))) k)"
      by (rule below_child [OF below_self]) simp
    then have "below (fst (ids_next ids)) x"
      using k trans by blast
    then show ?thesis
      unfolding ids_next_fst_child by (intro exI [of _ "ids_counter ids + 1"]) simp
  qed
  have later: ?case if "x \<in> set (claim_ids (snd (ids_next ids)) ts)"
    using 3(2) [OF that] by (auto dest: Suc_lessD)
  show ?case
    using 3(3) here under later by auto
qed simp

lemma takeWhile_dashless:
  "CHR ''-'' \<notin> set s \<Longrightarrow> r = [] \<or> hd r = CHR ''-'' \<Longrightarrow> takeWhile (\<lambda>c. c \<noteq> CHR ''-'') (s @ r) = s"
  by (induction s) (cases r; auto)+

lemma dashless_head_unique:
  assumes "s @ r = t @ r'" and "CHR ''-'' \<notin> set s" and "CHR ''-'' \<notin> set t"
    and "r = [] \<or> hd r = CHR ''-''" and "r' = [] \<or> hd r' = CHR ''-''"
  shows "s = t"
  using takeWhile_dashless [of s r] takeWhile_dashless [of t r'] assms by simp

lemma below_format_shape:
  assumes "below (ids_format (ids_child p) k) x"
  shows "\<exists>r. x = (if p = '''' then '''' else p @ ''-'') @ itoa k @ r \<and> (r = [] \<or> hd r = CHR ''-'')"
  using below_shape [OF assms] by (auto simp: ids_format_def ids_child_def Let_def)

lemma below_disjoint:
  "below (ids_format (ids_child p) k) x \<Longrightarrow> below (ids_format (ids_child p) k') x \<Longrightarrow> k = k'"
proof -
  assume a: "below (ids_format (ids_child p) k) x" and b: "below (ids_format (ids_child p) k') x"
  obtain r where r: "x = (if p = '''' then '''' else p @ ''-'') @ itoa k @ r" "r = [] \<or> hd r = CHR ''-''"
    using below_format_shape [OF a] by blast
  obtain r' where r': "x = (if p = '''' then '''' else p @ ''-'') @ itoa k' @ r'" "r' = [] \<or> hd r' = CHR ''-''"
    using below_format_shape [OF b] by blast
  have "itoa k @ r = itoa k' @ r'"
    using r r' by (simp split: if_splits)
  then have "itoa k = itoa k'"
    using dashless_head_unique r(2) r'(2) dash_notin_itoa by blast
  then show "k = k'" by simp
qed

lemma not_below_longer: "below (ids_format (ids_child p) k) p \<Longrightarrow> p \<noteq> '''' \<Longrightarrow> False"
  using below_format_shape [of p k p] by (auto simp: Let_def)

lemma claim_ids_distinct: "distinct (claim_ids ids ts)"
proof (induction ids ts rule: claim_ids.induct)
  case (2 ids ts)
  have "fst (ids_next ids) \<notin> set (claim_ids (snd (ids_next ids)) ts)"
  proof
    assume "fst (ids_next ids) \<in> set (claim_ids (snd (ids_next ids)) ts)"
    from claim_ids_below [OF this] obtain k where k: "k > ids_counter ids + 1"
      "below (ids_format (ids_child (ids_prefix ids)) k) (fst (ids_next ids))"
      by auto
    then show False
      using below_disjoint [OF k(2), of "ids_counter ids + 1"] below_self
      unfolding ids_next_fst_child by auto
  qed
  then show ?case using 2 by simp
next
  case (3 ids us ts)
  let ?x = "fst (ids_next ids)"
  have x: "?x = ids_format (ids_child (ids_prefix ids)) (ids_counter ids + 1)"
    by (rule ids_next_fst_child)
  have inner: "below ?x y \<and> y \<noteq> ?x" if y: "y \<in> set (claim_ids (ids_child ?x) us)" for y
  proof -
    obtain k where k: "below (ids_format (ids_child ?x) k) y"
      using claim_ids_below [OF y] by (auto simp: ids_child_def)
    have "below ?x (ids_format (ids_child ?x) k)"
      by (rule below_child [OF below_self]) simp
    moreover have trans: "below b c \<Longrightarrow> below a b \<Longrightarrow> below a c" for a b c
      by (induction rule: below.induct) (auto intro: below.intros)
    ultimately show ?thesis
      using k not_below_longer by (metis ids_format_ne_Nil x)
  qed
  have outer: "\<exists>k > ids_counter ids + 1. below (ids_format (ids_child (ids_prefix ids)) k) y"
    if "y \<in> set (claim_ids (snd (ids_next ids)) ts)" for y
    using claim_ids_below [OF that] by auto
  have "?x \<notin> set (claim_ids (snd (ids_next ids)) ts)"
    using outer below_disjoint below_self x by (metis less_irrefl)
  moreover have "set (claim_ids (ids_child ?x) us) \<inter> set (claim_ids (snd (ids_next ids)) ts) = {}"
    using outer inner below_disjoint x by (metis disjoint_iff less_irrefl)
  ultimately show ?case
    using 3 inner by auto
qed simp

section \<open>Properties\<close>

text \<open>C17: No two operations of an execution share an ID: for every tree of operations and nested child contexts,
  the IDs that the root minter and the child minters claim in program order are pairwise distinct.\<close>
theorem operation_ids_unique: "distinct (claim_ids ids_root ts)"
  by (rule claim_ids_distinct)

end
