(* ===== verification/Exec_State.thy ===== *)
theory Exec_State
  imports Wire_Types Op_Ids
begin

text \<open>
  executionState of state.go: the checkpointed operations of the execution by
  wire ID, the number of operations that record each parent, and the sets that
  decide whether an outcome is new to this invocation.  The hash that turns a
  positional ID into a wire ID (the first 16 hexadecimal characters of its MD5
  digest) is library code and stays a parameter.
\<close>

section \<open>State and operations\<close>

record executionState =
  es_operations :: "string \<rightharpoonup> operation"
  es_childCount :: "string \<Rightarrow> nat"
  es_updated :: "string set"
  es_settledAtStart :: "string set"

definition emptyState :: executionState where
  "emptyState = \<lparr> es_operations = Map.empty, es_childCount = (\<lambda>_. 0), es_updated = {}, es_settledAtStart = {} \<rparr>"

definition es_insert :: "operation \<Rightarrow> executionState \<Rightarrow> executionState" where
  "es_insert op s =
     (let s' = (if es_operations s (op_id op) = None \<and> op_parentID op \<noteq> ''''
                then s \<lparr> es_childCount := (es_childCount s)(op_parentID op := es_childCount s (op_parentID op) + 1) \<rparr>
                else s)
      in s' \<lparr> es_operations := (es_operations s')(op_id op \<mapsto> op) \<rparr>)"

definition es_load :: "operation \<Rightarrow> executionState \<Rightarrow> executionState" where
  "es_load op s =
     (let s' = es_insert op s
      in if status_terminal (op_status op)
         then s' \<lparr> es_settledAtStart := insert (op_id op) (es_settledAtStart s') \<rparr> else s')"

definition newExecutionState :: "operation list \<Rightarrow> executionState" where
  "newExecutionState ops = fold es_load ops emptyState"

definition es_merge :: "operation list \<Rightarrow> executionState \<Rightarrow> executionState" where
  "es_merge ops s = fold es_insert ops s"

definition setUpdatedOperationIDs :: "string list \<Rightarrow> executionState \<Rightarrow> executionState" where
  "setUpdatedOperationIDs wireIDs s = s \<lparr> es_updated := set wireIDs \<rparr>"

definition getByWireID :: "executionState \<Rightarrow> string \<Rightarrow> operation option" where
  "getByWireID s wid = es_operations s wid"

definition es_get :: "(string \<Rightarrow> string) \<Rightarrow> executionState \<Rightarrow> string \<Rightarrow> operation option" where
  "es_get hash s pid = es_operations s (hash pid)"

definition hasChildOf :: "(string \<Rightarrow> string) \<Rightarrow> executionState \<Rightarrow> string \<Rightarrow> bool" where
  "hasChildOf hash s pid \<longleftrightarrow> es_childCount s (hash pid) > 0"

definition updatedSinceLastInvocation :: "(string \<Rightarrow> string) \<Rightarrow> executionState \<Rightarrow> string \<Rightarrow> bool" where
  "updatedSinceLastInvocation hash s pid \<longleftrightarrow> hash pid \<in> es_updated s"

definition newOutcome :: "(string \<Rightarrow> string) \<Rightarrow> executionState \<Rightarrow> string \<Rightarrow> bool" where
  "newOutcome hash s pid \<longleftrightarrow> hash pid \<in> es_updated s \<or> hash pid \<notin> es_settledAtStart s"

definition operationResult :: "operation option \<Rightarrow> string" where
  "operationResult po = (case po of None \<Rightarrow> ''''
     | Some op \<Rightarrow>
        (case op_step op of Some d \<Rightarrow> sd_result d | None \<Rightarrow>
        (case op_invoke op of Some d \<Rightarrow> id_result d | None \<Rightarrow>
        (case op_childCtx op of Some d \<Rightarrow> cd_result d | None \<Rightarrow>
        (case op_callback op of Some d \<Rightarrow> cb_result d | None \<Rightarrow> '''')))))"

section \<open>Frame rules\<close>

lemma es_insert_simps [state_simps]:
  "es_operations (es_insert op s) = (es_operations s)(op_id op \<mapsto> op)"
  "es_updated (es_insert op s) = es_updated s"
  "es_settledAtStart (es_insert op s) = es_settledAtStart s"
  by (simp_all add: es_insert_def Let_def)

lemma es_insert_childCount [state_simps]:
  "es_childCount (es_insert op s) p =
     es_childCount s p + (if es_operations s (op_id op) = None \<and> op_parentID op \<noteq> '''' \<and> op_parentID op = p then 1 else 0)"
  by (auto simp: es_insert_def Let_def)

lemma es_load_simps [state_simps]:
  "es_operations (es_load op s) = (es_operations s)(op_id op \<mapsto> op)"
  "es_updated (es_load op s) = es_updated s"
  "es_settledAtStart (es_load op s) =
     (if status_terminal (op_status op) then insert (op_id op) (es_settledAtStart s) else es_settledAtStart s)"
  "es_childCount (es_load op s) = es_childCount (es_insert op s)"
  by (simp_all add: es_load_def Let_def state_simps)

lemma es_merge_simps [state_simps]:
  "es_merge [] s = s"
  "es_merge (op # ops) s = es_merge ops (es_insert op s)"
  by (simp_all add: es_merge_def)

lemma es_merge_append: "es_merge (xs @ ys) s = es_merge ys (es_merge xs s)"
  by (simp add: es_merge_def)

lemma es_merge_frame [state_simps]:
  "es_updated (es_merge ops s) = es_updated s"
  "es_settledAtStart (es_merge ops s) = es_settledAtStart s"
  by (induction ops arbitrary: s) (simp_all add: state_simps)

lemma es_merge_operations:
  "es_operations (es_merge ops s) = es_operations s ++ map_of (rev (map (\<lambda>op. (op_id op, op)) ops))"
proof (induction ops arbitrary: s)
  case Nil
  then show ?case by (simp add: state_simps)
next
  case (Cons op ops)
  show ?case
    unfolding es_merge_simps Cons.IH
    by (rule ext) (auto simp: state_simps map_add_def split: option.split)
qed

lemma es_merge_get:
  "wid \<notin> op_id ` set ops \<Longrightarrow> es_operations (es_merge ops s) wid = es_operations s wid"
  by (induction ops arbitrary: s) (simp_all add: state_simps)

section \<open>The child counts\<close>

text \<open>
  The count of a parent is the number of distinct operations whose record,
  when it was first stored, named that parent.
\<close>

definition counts_exactly :: "executionState \<Rightarrow> (string \<rightharpoonup> string) \<Rightarrow> bool" where
  "counts_exactly s par \<longleftrightarrow> dom par = dom (es_operations s) \<and> finite (dom par) \<and>
     (\<forall>p. p \<noteq> '''' \<longrightarrow> es_childCount s p = card {i. par i = Some p})"

lemma counts_exactly_empty: "counts_exactly emptyState Map.empty"
  by (simp add: counts_exactly_def emptyState_def)

lemma counts_exactly_insert:
  assumes "counts_exactly s par"
  shows "counts_exactly (es_insert op s)
           (if op_id op \<in> dom par then par else par(op_id op \<mapsto> op_parentID op))"
proof (cases "op_id op \<in> dom par")
  case True
  then have known: "es_operations s (op_id op) \<noteq> None"
    using assms by (auto simp: counts_exactly_def)
  have "dom (es_operations (es_insert op s)) = dom par"
    using assms True by (auto simp: counts_exactly_def state_simps)
  then show ?thesis
    using assms True known by (auto simp: counts_exactly_def state_simps)
next
  case False
  let ?par = "par(op_id op \<mapsto> op_parentID op)"
  have new: "es_operations s (op_id op) = None"
    using assms False by (auto simp: counts_exactly_def)
  have fin: "finite {i. par i = Some p}" for p
    by (rule finite_subset [of _ "dom par"]) (use assms in \<open>auto simp: counts_exactly_def\<close>)
  have none: "par (op_id op) = None"
    using False by auto
  have sets: "{i. ?par i = Some p} =
      (if op_parentID op = p then insert (op_id op) {i. par i = Some p} else {i. par i = Some p})" for p
    using none by auto
  have notin: "op_id op \<notin> {i. par i = Some p}" for p
    using none by simp
  have "es_childCount (es_insert op s) p = card {i. ?par i = Some p}" if "p \<noteq> ''''" for p
    using assms that new fin [of p] notin [of p]
    by (simp add: counts_exactly_def state_simps sets del: fun_upd_apply)
  moreover have "dom ?par = dom (es_operations (es_insert op s))" "finite (dom ?par)"
    using assms by (auto simp: counts_exactly_def state_simps)
  ultimately show ?thesis
    using False by (simp add: counts_exactly_def)
qed

lemma counts_exactly_settled [simp]:
  "counts_exactly (s \<lparr> es_settledAtStart := x \<rparr>) par = counts_exactly s par"
  "counts_exactly (s \<lparr> es_updated := x \<rparr>) par = counts_exactly s par"
  by (simp_all add: counts_exactly_def)

lemma counts_exactly_load:
  "counts_exactly s par \<Longrightarrow>
   counts_exactly (es_load op s) (if op_id op \<in> dom par then par else par(op_id op \<mapsto> op_parentID op))"
  using counts_exactly_insert [of s par op] by (cases "op_id op \<in> dom par") (simp_all add: es_load_def Let_def del: domIff)

lemma es_load_childCount_distinct:
  assumes "distinct (map op_id ops)" and "op_id ` set ops \<inter> dom (es_operations s) = {}" and "p \<noteq> ''''"
  shows "es_childCount (fold es_load ops s) p =
           es_childCount s p + length (filter (\<lambda>op. op_parentID op = p) ops)"
  using assms
proof (induction ops arbitrary: s)
  case Nil
  then show ?case by simp
next
  case (Cons op ops)
  have "op_id ` set ops \<inter> dom (es_operations (es_load op s)) = {}"
    using Cons.prems by (auto simp: state_simps)
  then have "es_childCount (fold es_load ops (es_load op s)) p =
      es_childCount (es_load op s) p + length (filter (\<lambda>op. op_parentID op = p) ops)"
    using Cons by simp
  moreover have "es_operations s (op_id op) = None"
    using Cons.prems by auto
  ultimately show ?case
    using Cons.prems by (auto simp: state_simps)
qed

lemma newExecutionState_childCount:
  "distinct (map op_id ops) \<Longrightarrow> p \<noteq> '''' \<Longrightarrow>
   es_childCount (newExecutionState ops) p = length (filter (\<lambda>op. op_parentID op = p) ops)"
  by (simp add: newExecutionState_def es_load_childCount_distinct emptyState_def)

lemma es_load_settled:
  "es_settledAtStart (fold es_load ops s) =
     es_settledAtStart s \<union> op_id ` {op \<in> set ops. status_terminal (op_status op)}"
  by (induction ops arbitrary: s) (auto simp: state_simps)

lemma newExecutionState_settled:
  "es_settledAtStart (newExecutionState ops) = op_id ` {op \<in> set ops. status_terminal (op_status op)}"
  by (simp add: newExecutionState_def es_load_settled emptyState_def)

lemma es_load_updated: "es_updated (fold es_load ops s) = es_updated s"
  by (induction ops arbitrary: s) (simp_all add: state_simps)

lemma es_merge_noparent_childCount:
  "\<forall>op \<in> set ops. op_parentID op = '''' \<Longrightarrow> es_childCount (es_merge ops s) = es_childCount s"
  by (induction ops arbitrary: s) (auto simp: state_simps fun_eq_iff)

lemma es_load_get_distinct:
  assumes "distinct (map op_id ops)" and "op \<in> set ops"
  shows "es_operations (fold es_load ops s) (op_id op) = Some op"
  using assms
proof (induction ops arbitrary: s)
  case (Cons x ops)
  have other: "es_operations (fold es_load ys t) w = es_operations t w"
    if "w \<notin> op_id ` set ys" for ys t w
    using that by (induction ys arbitrary: t) (simp_all add: state_simps)
  show ?case
  proof (cases "op = x")
    case True
    then show ?thesis
      using Cons.prems by (simp add: other state_simps)
  next
    case False
    then show ?thesis using Cons by simp
  qed
qed simp

section \<open>Properties\<close>

text \<open>C27: Whether a context has checkpointed children: for an operation log loaded from the invocation payload (no
  two records with one ID) hasChildOf answers exactly whether some loaded operation records the context's wire ID
  as its parent, and nothing that is merged later from a checkpoint response changes the answer.\<close>
theorem hasChildOf_payload:
  assumes "distinct (map wo_Id (ies_Operations page))" and "hash pid \<noteq> ''''"
  shows "hasChildOf hash (es_merge (map operationFromAPI responses)
            (newExecutionState (operationsFromPayload page))) pid \<longleftrightarrow>
         (\<exists>w \<in> set (ies_Operations page). wo_ParentId w = hash pid)"
proof -
  have "map op_id (operationsFromPayload page) = map wo_Id (ies_Operations page)"
    by (simp add: operationsFromPayload_def comp_def)
  then have "es_childCount (newExecutionState (operationsFromPayload page)) (hash pid) =
      length (filter (\<lambda>op. op_parentID op = hash pid) (operationsFromPayload page))"
    using assms by (intro newExecutionState_childCount) simp_all
  also have "\<dots> = length (filter (\<lambda>w. wo_ParentId w = hash pid) (ies_Operations page))"
    by (simp add: operationsFromPayload_def filter_map comp_def)
  finally show ?thesis
    by (auto simp: hasChildOf_def es_merge_noparent_childCount filter_empty_conv)
qed

definition ex_wireOp :: "string \<Rightarrow> string \<Rightarrow> wireOperation" where
  "ex_wireOp i p = apiOperationToWire
     \<lparr> ao_Id = Some i, ao_Status = statusSucceeded, ao_Type = OperationTypeStep, ao_SubType = None, ao_Name = None,
       ao_ParentId = Some p, ao_StartTimestamp = None, ao_EndTimestamp = None, ao_InputPayload = None,
       ao_StepDetails = None, ao_WaitDetails = None, ao_CallbackDetails = None, ao_ChainedInvokeDetails = None,
       ao_ContextDetails = None \<rparr>"

theorem hasChildOf_payload_witness:
  "hasChildOf (\<lambda>s. s @ ''#'') (es_merge (map operationFromAPI [])
      (newExecutionState (operationsFromPayload
         \<lparr> ies_Operations = [ex_wireOp ''1-1#'' ''1#'', ex_wireOp ''2#'' ''''], ies_NextMarker = '''' \<rparr>))) ''1'' \<and>
   \<not> hasChildOf (\<lambda>s. s @ ''#'') (es_merge (map operationFromAPI [])
      (newExecutionState (operationsFromPayload
         \<lparr> ies_Operations = [ex_wireOp ''1-1#'' ''1#'', ex_wireOp ''2#'' ''''], ies_NextMarker = '''' \<rparr>))) ''2''"
  using hasChildOf_payload [of "\<lparr> ies_Operations = [ex_wireOp ''1-1#'' ''1#'', ex_wireOp ''2#'' ''''], ies_NextMarker = '''' \<rparr>"
      "\<lambda>s. s @ ''#''" "''1''" "[]"]
    hasChildOf_payload [of "\<lparr> ies_Operations = [ex_wireOp ''1-1#'' ''1#'', ex_wireOp ''2#'' ''''], ies_NextMarker = '''' \<rparr>"
      "\<lambda>s. s @ ''#''" "''2''" "[]"]
  by (simp add: ex_wireOp_def apiOperationToWire_def)

text \<open>C29: The two ways a stored operation reaches the engine give the same record, the times aside, except for the
  parent: the payload conversion keeps ParentId, the conversion of fetched pages and checkpoint responses drops it.
  So an operation loaded from a later page never makes its parent count as having a child.\<close>
theorem conversions_agree_but_for_parent:
  "operationFromWire (apiOperationToWire a) =
     (untimed (operationFromAPI a)) \<lparr> op_parentID := toString (ao_ParentId a) \<rparr> \<and>
   op_parentID (operationFromAPI a) = '''' \<and>
   hasChildOf hash (newExecutionState (map operationFromAPI pages)) pid = False"
proof -
  have "es_childCount (fold es_load (map operationFromAPI pages) s) = es_childCount s" for s
    by (induction pages arbitrary: s) (simp_all add: state_simps fun_eq_iff)
  then show ?thesis
    by (simp add: wire_api_agree hasChildOf_def newExecutionState_def emptyState_def)
qed

text \<open>C28: An outcome is new to this invocation exactly when the payload lists the operation as updated or no
  operation with its wire ID was terminal in the loaded log; checkpoint responses merged during the invocation do
  not change the verdict.\<close>
theorem newOutcome_meaning:
  "newOutcome hash (es_merge responses (setUpdatedOperationIDs ids (newExecutionState ops))) pid \<longleftrightarrow>
     hash pid \<in> set ids \<or> filter (\<lambda>op. op_id op = hash pid \<and> status_terminal (op_status op)) ops = []"
  by (force simp: newOutcome_def state_simps setUpdatedOperationIDs_def newExecutionState_settled filter_empty_conv)

end
