(* ===== verification/Go_Errors.thy ===== *)
theory Go_Errors
  imports Wire_Types
begin

text \<open>
  The error values of errors.go, step.go, serdes_failure.go and
  checkpoint_errors.go.  An error is a node with the errors its Unwrap returns
  below it; errors.Is and errors.As are searches of that tree in Go's order
  (the node itself, then what it wraps, first to last).  The theory holds the
  text of each SDK error, the record an error is checkpointed as and the error
  a record is rebuilt to.
\<close>

section \<open>Error values\<close>

datatype completionReason =
    CompletionUnknown | CompletionAllCompleted | CompletionMinSuccessfulReached
  | CompletionFailureToleranceExceeded | CompletionCustomSucceeded | CompletionCustomFailed

definition reason_string :: "completionReason \<Rightarrow> string" where
  "reason_string r = (case r of
      CompletionAllCompleted \<Rightarrow> ''ALL_COMPLETED''
    | CompletionMinSuccessfulReached \<Rightarrow> ''MIN_SUCCESSFUL_REACHED''
    | CompletionFailureToleranceExceeded \<Rightarrow> ''FAILURE_TOLERANCE_EXCEEDED''
    | CompletionCustomSucceeded \<Rightarrow> ''CUSTOM_COMPLETION_SUCCEEDED''
    | CompletionCustomFailed \<Rightarrow> ''CUSTOM_COMPLETION_FAILED''
    | CompletionUnknown \<Rightarrow> ''UNKNOWN'')"

datatype errorScope = ErrorScopeNone | ErrorScopeInvocation | ErrorScopeExecution | ErrorScopeOther string

text \<open>The package-level sentinel errors, each an errors.New value compared by identity.\<close>

datatype sentinel =
    errSuspendExecution | errCheckpointTerminated | ErrCallbackTimedOut | ErrInvokeTimedOut
  | ErrExecutionStopped | ErrExecutionCancelled | ErrRetryableSerdes

text \<open>What replay found at a position, and what the handler now runs there.\<close>

record replayMismatch =
  nd_currentType :: string
  nd_currentSubType :: string
  nd_currentName :: string
  nd_recordedType :: string
  nd_recordedSubType :: string
  nd_recordedName :: string

text \<open>
  One kind per error type.  The record of an operation error holds its
  ErrorType, Message, ErrorData and StackTrace.  KPlain is an error of a type
  the SDK does not declare, with its reflected type name and its text; KAPI and
  KResponse are what classification reads of an AWS SDK error.
\<close>

datatype errKind =
    KPlain string string
  | KSentinel sentinel
  | KErrorWithData string
  | KFlatTrace "string list"
  | KReplayed string string
  | KOperation string errorRecord
  | KStep string int errorRecord
  | KStepInterrupted string string
  | KInvoke string string operationStatus errorRecord
  | KCallback string string errorRecord
  | KCallbackExternal string string errorRecord
  | KCallbackTimeout string string errorRecord bool
  | KCallbackSubmitter string string errorRecord
  | KChildContext string errorRecord
  | KWaitForCondition string int errorRecord
  | KRetry string int errorRecord
  | KCombinator string string
  | KBatch string completionReason string
  | KBatchCompletion string completionReason string
  | KSerdes string string
  | KNonDeterministic string string replayMismatch string string
  | KCheckpoint errorScope bool
  | KClient errorScope
  | KRetryableSerdes
  | KSerdesInvocationEnd string string
  | KAPI string string bool
  | KResponse int

datatype goErr = Err (err_kind: errKind) (err_causes: "goErr list")

definition sentinelErr :: "sentinel \<Rightarrow> goErr" where
  "sentinelErr s = Err (KSentinel s) []"

subsection \<open>errors.Is and errors.As\<close>

fun err_nodes :: "goErr \<Rightarrow> goErr list" where
  "err_nodes (Err k cs) = Err k cs # concat (map err_nodes cs)"

definition errors_As :: "(goErr \<Rightarrow> bool) \<Rightarrow> goErr \<Rightarrow> goErr option" where
  "errors_As P e = find P (err_nodes e)"

text \<open>
  A retryable serdes error matches its sentinel through an Is method of its own.
\<close>

definition errors_Is :: "goErr \<Rightarrow> sentinel \<Rightarrow> bool" where
  "errors_Is e s \<longleftrightarrow>
     list_ex (\<lambda>n. err_kind n = KSentinel s \<or> (s = ErrRetryableSerdes \<and> err_kind n = KRetryableSerdes)) (err_nodes e)"

lemma err_nodes_self [simp]: "e \<in> set (err_nodes e)"
  by (cases e) simp

lemma errors_As_Some: "errors_As P e = Some n \<Longrightarrow> P n \<and> n \<in> set (err_nodes e)"
  by (auto simp: errors_As_def find_Some_iff)

lemma errors_As_None: "errors_As P e = None \<longleftrightarrow> (\<forall>n \<in> set (err_nodes e). \<not> P n)"
  by (auto simp: errors_As_def find_None_iff)

lemma errors_As_self [simp]: "P e \<Longrightarrow> errors_As P e = Some e"
  by (cases e) (simp add: errors_As_def)

lemma errors_As_Err:
  "errors_As P (Err k cs) = (if P (Err k cs) then Some (Err k cs) else find P (concat (map err_nodes cs)))"
  by (simp add: errors_As_def)

lemma errors_Is_sentinel [simp]: "errors_Is (sentinelErr s) t \<longleftrightarrow> s = t"
  by (auto simp: errors_Is_def sentinelErr_def)

section \<open>Error text\<close>

text \<open>
  \<^verbatim>\<open>%q\<close>: strconv.Quote on ASCII text; bytes above 127 are kept, as Quote
  keeps every printable rune.
\<close>

definition hex_digit :: "nat \<Rightarrow> char" where
  "hex_digit d = (if d < 10 then char_of (48 + d) else char_of (87 + d))"

definition quote_char :: "char \<Rightarrow> string" where
  "quote_char c =
    (let n = (of_char c :: nat) in
     if n = 34 then [CHR 0x5C, CHR 0x22] else if n = 92 then [CHR 0x5C, CHR 0x5C]
     else if n = 7 then [CHR 0x5C, CHR ''a''] else if n = 8 then [CHR 0x5C, CHR ''b'']
     else if n = 12 then [CHR 0x5C, CHR ''f''] else if n = 10 then [CHR 0x5C, CHR ''n'']
     else if n = 13 then [CHR 0x5C, CHR ''r''] else if n = 9 then [CHR 0x5C, CHR ''t'']
     else if n = 11 then [CHR 0x5C, CHR ''v'']
     else if n < 32 \<or> n = 127 then [CHR 0x5C, CHR ''x'', hex_digit (n div 16), hex_digit (n mod 16)]
     else [c])"

definition goQuote :: "string \<Rightarrow> string" where
  "goQuote s = [CHR 0x22] @ concat (map quote_char s) @ [CHR 0x22]"

definition int_string :: "int \<Rightarrow> string" where
  "int_string i = (if i < 0 then ''-'' @ itoa (nat (- i)) else itoa (nat i))"

definition causeText :: "string \<Rightarrow> string \<Rightarrow> string option \<Rightarrow> string" where
  "causeText errType message cause =
     (if message = '''' then (case cause of Some t \<Rightarrow> t | None \<Rightarrow> '''')
      else if errType = '''' then message else errType @ '': '' @ message)"

text \<open>\<^verbatim>\<open>%v\<close> of an optional error: its text, or \<^verbatim>\<open><nil>\<close>.\<close>

definition nilText :: "string option \<Rightarrow> string" where
  "nilText t = (case t of Some s \<Rightarrow> s | None \<Rightarrow> ''<nil>'')"

definition recText :: "errorRecord \<Rightarrow> string option \<Rightarrow> string" where
  "recText r cause = causeText (er_errType r) (er_message r) cause"

definition sentinel_text :: "sentinel \<Rightarrow> string" where
  "sentinel_text s = (case s of
      errSuspendExecution \<Rightarrow> ''durable: execution suspended''
    | errCheckpointTerminated \<Rightarrow> ''durable: checkpoint refused: invocation terminated''
    | ErrCallbackTimedOut \<Rightarrow> ''durable: callback timed out''
    | ErrInvokeTimedOut \<Rightarrow> ''durable: invoke timed out''
    | ErrExecutionStopped \<Rightarrow> ''durable: execution stopped''
    | ErrExecutionCancelled \<Rightarrow> ''durable: execution cancelled''
    | ErrRetryableSerdes \<Rightarrow> ''durable: retryable serdes failure'')"

definition batch_failed_prefix :: "string \<Rightarrow> completionReason \<Rightarrow> string" where
  "batch_failed_prefix name r = ''durable: batch '' @ goQuote name @ '' failed: '' @ reason_string r @ '': ''"

definition kind_text :: "errKind \<Rightarrow> string option \<Rightarrow> nat \<Rightarrow> string" where
  "kind_text k cause n = (case k of
      KPlain ty msg \<Rightarrow> msg
    | KSentinel s \<Rightarrow> sentinel_text s
    | KErrorWithData d \<Rightarrow> nilText cause
    | KFlatTrace tr \<Rightarrow> nilText cause
    | KReplayed ty msg \<Rightarrow> (if ty = '''' then msg else ty @ '': '' @ msg)
    | KOperation nm r \<Rightarrow> ''durable: operation '' @ goQuote nm @ '' failed'' @
         (case cause of Some t \<Rightarrow> '': '' @ t | None \<Rightarrow> '''')
    | KStep nm att r \<Rightarrow> ''durable: step '' @ goQuote nm @ '' failed after '' @ int_string att @ '' attempts: '' @ recText r cause
    | KStepInterrupted nm rm \<Rightarrow> (if rm \<noteq> '''' then rm
         else ''durable: step '' @ goQuote nm @ '' interrupted before completing an attempt'')
    | KInvoke nm fid st r \<Rightarrow> ''durable: invoke '' @ goQuote nm @ '' of '' @ goQuote fid @ '' failed: '' @ recText r cause
    | KCallback nm cid r \<Rightarrow> ''durable: callback '' @ goQuote nm @ '' failed: '' @ recText r cause
    | KCallbackExternal nm cid r \<Rightarrow> ''durable: callback '' @ goQuote nm @ '' failed externally: '' @ recText r cause
    | KCallbackTimeout nm cid r hb \<Rightarrow> ''durable: callback '' @ goQuote nm @
         (if hb then '' heartbeat timed out: '' else '' timed out: '') @ recText r cause
    | KCallbackSubmitter nm cid r \<Rightarrow> ''durable: callback '' @ goQuote nm @ '' submitter failed: '' @ recText r cause
    | KChildContext nm r \<Rightarrow> ''durable: child context '' @ goQuote nm @ '' failed: '' @ recText r cause
    | KWaitForCondition nm att r \<Rightarrow> ''durable: wait-for-condition '' @ goQuote nm @ '' failed after '' @ int_string att @ '' attempts: '' @ recText r cause
    | KRetry nm att r \<Rightarrow> ''durable: retry '' @ goQuote nm @ '' failed after '' @ int_string att @ '' attempts: '' @ recText r cause
    | KCombinator nm msg \<Rightarrow> (if msg \<noteq> '''' then msg
         else ''durable: combinator '' @ goQuote nm @ '': all futures failed ('' @ itoa n @ '' errors)'')
    | KBatch nm r rm \<Rightarrow> (if rm \<noteq> '''' then rm
         else batch_failed_prefix nm r @ itoa n @ (if n = 1 then '' item failed'' else '' items failed'') @
              (case cause of Some t \<Rightarrow> '', first: '' @ t | None \<Rightarrow> ''''))
    | KBatchCompletion nm r rm \<Rightarrow> (if rm \<noteq> '''' then rm
         else batch_failed_prefix nm r @ ''a custom completion decision failed the batch with no failed item'')
    | KSerdes oper dir \<Rightarrow> ''durable: serdes '' @ dir @ '' failed for operation '' @ goQuote oper @ '': '' @ nilText cause
    | KNonDeterministic nm sid mm rm detail \<Rightarrow>
        (if rm \<noteq> '''' then rm else if detail \<noteq> '''' then detail
         else ''durable: non-deterministic replay at step '' @ goQuote sid @
              '': the checkpoint recorded operation (type '' @ nd_recordedType mm @
              '', subtype '' @ goQuote (nd_recordedSubType mm) @ '', name '' @ goQuote (nd_recordedName mm) @
              ''), but the handler now runs (type '' @ nd_currentType mm @
              '', subtype '' @ goQuote (nd_currentSubType mm) @ '', name '' @ goQuote (nd_currentName mm) @
              ''). The handler code changed between deployments.'')
    | KCheckpoint sc st \<Rightarrow> (case cause of Some t \<Rightarrow> ''durable: checkpoint: '' @ t | None \<Rightarrow> ''durable: checkpoint error'')
    | KClient sc \<Rightarrow> (case cause of Some t \<Rightarrow> ''durable: execution client: '' @ t | None \<Rightarrow> ''durable: execution client error'')
    | KRetryableSerdes \<Rightarrow> sentinel_text ErrRetryableSerdes @ (case cause of Some t \<Rightarrow> '': '' @ t | None \<Rightarrow> '''')
    | KSerdesInvocationEnd oper dir \<Rightarrow> ''durable: serdes '' @ dir @ '' failed for operation '' @ goQuote oper @ '', ending the invocation: '' @ nilText cause
    | KAPI code msg srv \<Rightarrow> ''api error '' @ code @ '': '' @ msg
    | KResponse st \<Rightarrow> ''http response error StatusCode: '' @ int_string st)"

fun errText :: "goErr \<Rightarrow> string" where
  "errText (Err k []) = kind_text k None 0"
| "errText (Err k (c # cs)) = kind_text k (Some (errText c)) (Suc (length cs))"

section \<open>The recorded type, data and record of an error\<close>

definition sdkWireErrorType :: "errKind \<Rightarrow> string option" where
  "sdkWireErrorType k = (case k of
      KStep _ _ _ \<Rightarrow> Some ''StepError''
    | KStepInterrupted _ _ \<Rightarrow> Some ''StepInterruptedError''
    | KInvoke _ _ _ _ \<Rightarrow> Some ''InvokeError''
    | KCallback _ _ _ \<Rightarrow> Some ''CallbackError''
    | KCallbackExternal _ _ _ \<Rightarrow> Some ''CallbackExternalError''
    | KCallbackTimeout _ _ _ _ \<Rightarrow> Some ''CallbackTimeoutError''
    | KCallbackSubmitter _ _ _ \<Rightarrow> Some ''CallbackSubmitterError''
    | KChildContext _ _ \<Rightarrow> Some ''ChildContextError''
    | KWaitForCondition _ _ _ \<Rightarrow> Some ''WaitForConditionError''
    | KRetry _ _ _ \<Rightarrow> Some ''RetryError''
    | KCombinator _ _ \<Rightarrow> Some ''PromiseCombinatorError''
    | KBatch _ _ _ \<Rightarrow> Some ''BatchError''
    | KBatchCompletion _ _ _ \<Rightarrow> Some ''BatchCompletionError''
    | KOperation _ _ \<Rightarrow> Some ''OperationError''
    | KSerdes _ _ \<Rightarrow> Some ''SerdesError''
    | KNonDeterministic _ _ _ _ _ \<Rightarrow> Some ''NonDeterministicExecutionError''
    | KCheckpoint _ _ \<Rightarrow> Some ''CheckpointError''
    | _ \<Rightarrow> None)"

definition outermostSDKError :: "goErr \<Rightarrow> goErr option" where
  "outermostSDKError e = errors_As (\<lambda>n. sdkWireErrorType (err_kind n) \<noteq> None) e"

fun unwrapErrorData :: "goErr \<Rightarrow> goErr" where
  "unwrapErrorData (Err (KErrorWithData d) (c # cs)) = unwrapErrorData c"
| "unwrapErrorData (Err (KFlatTrace tr) (c # cs)) = unwrapErrorData c"
| "unwrapErrorData e = e"

definition userErrorTypeName :: "errKind \<Rightarrow> string" where
  "userErrorTypeName k = (case k of
      KPlain ty _ \<Rightarrow> (if ty \<in> {'''', ''errorString'', ''wrapError'', ''joinError''} then ''Error'' else ty)
    | KClient _ \<Rightarrow> ''ClientError''
    | KRetryableSerdes \<Rightarrow> ''retryableSerdesError''
    | KSerdesInvocationEnd _ _ \<Rightarrow> ''serdesInvocationEnd''
    | KAPI code _ _ \<Rightarrow> code
    | KResponse _ \<Rightarrow> ''ResponseError''
    | KErrorWithData _ \<Rightarrow> ''errorWithData''
    | KFlatTrace _ \<Rightarrow> ''flatItemTraceError''
    | _ \<Rightarrow> ''Error'')"

definition wireErrorType :: "goErr \<Rightarrow> string" where
  "wireErrorType e = (case outermostSDKError e of
      Some n \<Rightarrow> the (sdkWireErrorType (err_kind n))
    | None \<Rightarrow> (case err_kind (unwrapErrorData e) of
          KReplayed ty _ \<Rightarrow> ty
        | k \<Rightarrow> userErrorTypeName k))"

definition is_rune_start :: "char \<Rightarrow> bool" where
  "is_rune_start c \<longleftrightarrow> \<not> (128 \<le> (of_char c :: nat) \<and> (of_char c :: nat) < 192)"

fun rune_cut :: "string \<Rightarrow> nat \<Rightarrow> nat" where
  "rune_cut s 0 = 0"
| "rune_cut s (Suc n) = (if is_rune_start (s ! Suc n) then Suc n else rune_cut s n)"

definition truncateUTF8 :: "string \<Rightarrow> nat \<Rightarrow> string" where
  "truncateUTF8 s maxBytes = (if length s \<le> maxBytes then s else take (rune_cut s maxBytes) s)"

definition maxErrorDataBytes :: nat where
  "maxErrorDataBytes = 262144"

text \<open>
  The record and the name of the operation error a type converts to; None for
  a type with no operationError method.  The types that keep no cause record
  carry their own text as the message.
\<close>

definition operationErrorOf :: "goErr \<Rightarrow> (string \<times> errorRecord) option" where
  "operationErrorOf e = (case err_kind e of
      KOperation nm r \<Rightarrow> Some (nm, r)
    | KStep nm _ r \<Rightarrow> Some (nm, r)
    | KInvoke nm _ _ r \<Rightarrow> Some (nm, r)
    | KCallback nm _ r \<Rightarrow> Some (nm, r)
    | KCallbackExternal nm _ r \<Rightarrow> Some (nm, r)
    | KCallbackTimeout nm _ r _ \<Rightarrow> Some (nm, r)
    | KCallbackSubmitter nm _ r \<Rightarrow> Some (nm, r)
    | KChildContext nm r \<Rightarrow> Some (nm, r)
    | KWaitForCondition nm _ r \<Rightarrow> Some (nm, r)
    | KRetry nm _ r \<Rightarrow> Some (nm, r)
    | KStepInterrupted nm _ \<Rightarrow> Some (nm, noError \<lparr> er_message := errText e \<rparr>)
    | KCombinator nm _ \<Rightarrow> Some (nm, noError \<lparr> er_message := errText e \<rparr>)
    | KBatch nm _ _ \<Rightarrow> Some (nm, noError \<lparr> er_message := errText e \<rparr>)
    | KBatchCompletion nm _ _ \<Rightarrow> Some (nm, noError \<lparr> er_message := errText e \<rparr>)
    | KNonDeterministic nm _ _ _ _ \<Rightarrow> Some (nm, noError \<lparr> er_message := errText e \<rparr>)
    | _ \<Rightarrow> None)"

definition nodeData :: "goErr \<Rightarrow> string" where
  "nodeData e = (case err_kind e of KErrorWithData d \<Rightarrow> d
     | _ \<Rightarrow> (case operationErrorOf e of Some (_, r) \<Rightarrow> er_data r | None \<Rightarrow> ''''))"

definition errorDataOf :: "goErr \<Rightarrow> string" where
  "errorDataOf e = (case errors_As (\<lambda>n. nodeData n \<noteq> '''') e of
      Some n \<Rightarrow> truncateUTF8 (nodeData n) maxErrorDataBytes | None \<Rightarrow> '''')"

definition recordOf :: "goErr \<Rightarrow> errorRecord" where
  "recordOf e =
     \<lparr> er_errType = wireErrorType e,
       er_message = (case err_kind (unwrapErrorData e) of KReplayed _ m \<Rightarrow> m | _ \<Rightarrow> errText e),
       er_data = errorDataOf e,
       er_stackTrace = (case outermostSDKError e of None \<Rightarrow> []
          | Some n \<Rightarrow> (case operationErrorOf n of Some (_, r) \<Rightarrow> er_stackTrace r | None \<Rightarrow> [])) \<rparr>"

definition withTrace :: "string list \<Rightarrow> errorRecord \<Rightarrow> errorRecord" where
  "withTrace trace r = (if er_stackTrace r = [] then r \<lparr> er_stackTrace := trace \<rparr> else r)"

section \<open>Rebuilding an error from its record\<close>

definition sentinel_list :: "sentinel option \<Rightarrow> goErr list" where
  "sentinel_list s = (case s of None \<Rightarrow> [] | Some x \<Rightarrow> [sentinelErr x])"

definition standIn :: "sentinel option \<Rightarrow> errorRecord \<Rightarrow> goErr" where
  "standIn s r = Err (KReplayed (er_errType r) (er_message r)) (sentinel_list s)"

definition sdkErrorsByWireType :: "string list" where
  "sdkErrorsByWireType =
     [''StepError'', ''StepInterruptedError'', ''InvokeError'', ''CallbackError'', ''CallbackExternalError'',
      ''CallbackTimeoutError'', ''CallbackSubmitterError'', ''ChildContextError'', ''WaitForConditionError'',
      ''RetryError'', ''PromiseCombinatorError'', ''SerdesError'', ''OperationError'', ''BatchError'',
      ''BatchCompletionError'', ''NonDeterministicExecutionError'', ''Callback.Timeout'', ''Callback.Heartbeat'']"

definition lower_char :: "char \<Rightarrow> char" where
  "lower_char c = (let n = (of_char c :: nat) in if 65 \<le> n \<and> n \<le> 90 then char_of (n + 32) else c)"

definition isHeartbeatTimeoutRecord :: "errorRecord \<Rightarrow> bool" where
  "isHeartbeatTimeoutRecord r \<longleftrightarrow>
     er_errType r = ''Callback.Heartbeat'' \<or> sublist ''heartbeat'' (map lower_char (er_message r))"

definition isCallbackTimeoutType :: "string \<Rightarrow> bool" where
  "isCallbackTimeoutType t \<longleftrightarrow> t \<in> {''CallbackTimeoutError'', ''Callback.Timeout'', ''Callback.Heartbeat''}"

definition defaulted :: "string \<Rightarrow> string \<Rightarrow> errorRecord \<Rightarrow> errorRecord" where
  "defaulted ty msg r =
     r \<lparr> er_errType := (if er_errType r = '''' then ty else er_errType r),
         er_message := (if er_message r = '''' then msg else er_message r) \<rparr>"

definition newCallbackExternalError :: "string \<Rightarrow> string \<Rightarrow> errorRecord \<Rightarrow> goErr" where
  "newCallbackExternalError nm cid rec =
     (let r = defaulted ''CallbackExternalError'' ''Callback failed'' rec
      in Err (KCallbackExternal nm cid r) [standIn None r])"

definition newCallbackTimeoutError :: "string \<Rightarrow> string \<Rightarrow> errorRecord \<Rightarrow> goErr" where
  "newCallbackTimeoutError nm cid rec =
     (let r = defaulted ''CallbackTimeoutError'' ''Callback timed out'' rec
      in Err (KCallbackTimeout nm cid r (isHeartbeatTimeoutRecord r)) [standIn (Some ErrCallbackTimedOut) r])"

definition newCallbackSubmitterError :: "string \<Rightarrow> string \<Rightarrow> errorRecord \<Rightarrow> goErr" where
  "newCallbackSubmitterError nm cid r = Err (KCallbackSubmitter nm cid r) [standIn None r]"

subsection \<open>The completion reason of a recorded batch failure\<close>

fun cutPrefix :: "string \<Rightarrow> string \<Rightarrow> string option" where
  "cutPrefix [] s = Some s"
| "cutPrefix (p # ps) [] = None"
| "cutPrefix (p # ps) (c # cs) = (if p = c then cutPrefix ps cs else None)"

lemma cutPrefix_append [simp]: "cutPrefix p (p @ s) = Some s"
  by (induction p) simp_all

fun indexOf :: "string \<Rightarrow> string \<Rightarrow> nat option" where
  "indexOf p s = (if cutPrefix p s \<noteq> None then Some 0
     else case s of [] \<Rightarrow> None | c # cs \<Rightarrow> map_option Suc (indexOf p cs))"

declare indexOf.simps [simp del]

text \<open>
  What follows a string in double quotes at the front of the text, and None
  when the text does not start with one.  An escape is a backslash and its
  letter; the quoted texts are the SDK's own, so the letter is not checked.
\<close>

fun afterQuoted :: "string \<Rightarrow> string option" where
  "afterQuoted [] = None"
| "afterQuoted (c # cs) =
     (if c = CHR 0x22 then Some cs
      else if c = CHR 0x5C then (case cs of [] \<Rightarrow> None | d # ds \<Rightarrow> afterQuoted ds)
      else if c = CHR 0x0A then None
      else afterQuoted cs)"

definition afterQuotedPrefix :: "string \<Rightarrow> string option" where
  "afterQuotedPrefix s = (case s of [] \<Rightarrow> None | c # cs \<Rightarrow> if c = CHR 0x22 then afterQuoted cs else None)"

definition completionReasons :: "completionReason list" where
  "completionReasons = [CompletionAllCompleted, CompletionMinSuccessfulReached,
     CompletionFailureToleranceExceeded, CompletionCustomSucceeded, CompletionCustomFailed]"

definition completionReasonOf :: "string \<Rightarrow> completionReason" where
  "completionReasonOf message =
    (let structured =
       (case cutPrefix ''durable: batch '' message of None \<Rightarrow> None
        | Some rest \<Rightarrow> (case afterQuotedPrefix rest of None \<Rightarrow> None
        | Some rest2 \<Rightarrow> (case cutPrefix '' failed: '' rest2 of None \<Rightarrow> None
        | Some rest3 \<Rightarrow> find (\<lambda>r. takeWhile (\<lambda>c. c \<noteq> CHR '':'') rest3 = reason_string r) completionReasons)));
      earliest = fold (\<lambda>r best. case indexOf (reason_string r) message of None \<Rightarrow> best
        | Some i \<Rightarrow> (case best of None \<Rightarrow> Some (r, i) | Some (r0, at) \<Rightarrow> if i < at then Some (r, i) else best))
        completionReasons None
     in case structured of Some r \<Rightarrow> r
        | None \<Rightarrow> (case earliest of Some (r, _) \<Rightarrow> r | None \<Rightarrow> CompletionUnknown))"

subsection \<open>Reconstruction\<close>

text \<open>
  The arguments of the rebuilt operation error: its name and its recorded
  ErrorType, Message, ErrorData and StackTrace.  An empty ErrorType defaults to
  the wire type.  The wrapped error is the nested SDK type when the record
  names one other than the wrapper, the stand-in otherwise; the nested call's
  record names its own type, so it does not nest again.
\<close>

function reconstructSDKError :: "string \<Rightarrow> string \<Rightarrow> errorRecord \<Rightarrow> sentinel option \<Rightarrow> goErr" where
  "reconstructSDKError wireType name op s =
    (let rec = op \<lparr> er_errType := (if er_errType op = '''' then wireType else er_errType op) \<rparr>;
         leaf = standIn s rec;
         inner = (if er_errType rec = wireType then leaf
                  else if er_errType rec \<in> set sdkErrorsByWireType
                  then reconstructSDKError (er_errType rec)
                         (if er_errType rec = ''PromiseCombinatorError'' then name else '''') rec s
                  else leaf)
     in if wireType = ''OperationError'' then
          (if er_errType op = '''' \<and> er_message op = ''''
           then Err (KOperation name (noError \<lparr> er_data := er_data rec, er_stackTrace := er_stackTrace rec \<rparr>)) []
           else Err (KOperation name rec) [inner])
        else if wireType = ''StepError'' then Err (KStep name 0 rec) [inner]
        else if wireType = ''StepInterruptedError'' then Err (KStepInterrupted name (er_message rec)) []
        else if wireType = ''InvokeError'' then Err (KInvoke name '''' (statusOther '''') rec) [inner]
        else if wireType = ''CallbackError'' then Err (KCallback name '''' rec) [leaf]
        else if wireType = ''CallbackExternalError'' then newCallbackExternalError name '''' rec
        else if isCallbackTimeoutType wireType then newCallbackTimeoutError name '''' rec
        else if wireType = ''CallbackSubmitterError'' then newCallbackSubmitterError name '''' rec
        else if wireType = ''ChildContextError'' then Err (KChildContext name rec) [inner]
        else if wireType = ''WaitForConditionError'' then Err (KWaitForCondition name 0 rec) [inner]
        else if wireType = ''RetryError'' then Err (KRetry name 0 rec) [inner]
        else if wireType = ''PromiseCombinatorError'' then Err (KCombinator name (er_message rec)) [inner]
        else if wireType = ''BatchError'' then Err (KBatch name (completionReasonOf (er_message rec)) (er_message rec)) [inner]
        else if wireType = ''BatchCompletionError'' then Err (KBatchCompletion name CompletionCustomFailed (er_message rec)) []
        else if wireType = ''SerdesError'' then Err (KSerdes name '''') [leaf]
        else if wireType = ''NonDeterministicExecutionError''
        then Err (KNonDeterministic name '''' \<lparr> nd_currentType = '''', nd_currentSubType = '''', nd_currentName = '''',
               nd_recordedType = '''', nd_recordedSubType = '''', nd_recordedName = '''' \<rparr> (er_message rec) '''') []
        else leaf)"
  by pat_completeness auto

termination
  by (relation "measure (\<lambda>(wt, nm, op, s). if er_errType op = wt \<or> er_errType op = '''' then 0 else 1)")
     (auto split: if_splits)

declare reconstructSDKError.simps [simp del]

definition cause :: "string \<Rightarrow> sentinel option \<Rightarrow> errorRecord \<Rightarrow> goErr" where
  "cause name s r =
     (if er_errType r \<in> set sdkErrorsByWireType
      then reconstructSDKError (er_errType r) (if er_errType r = ''PromiseCombinatorError'' then name else '''') r s
      else standIn s r)"

definition newChildContextError :: "string \<Rightarrow> errorRecord \<Rightarrow> goErr" where
  "newChildContextError name r = Err (KChildContext name r) [cause name None r]"

definition newStepError :: "string \<Rightarrow> int \<Rightarrow> errorRecord \<Rightarrow> goErr" where
  "newStepError name attempts r = Err (KStep name attempts r) [cause '''' None r]"

definition newWaitForConditionError :: "string \<Rightarrow> int \<Rightarrow> errorRecord \<Rightarrow> goErr" where
  "newWaitForConditionError name attempts r = Err (KWaitForCondition name attempts r) [cause '''' None r]"

definition newCombinatorFailure :: "string \<Rightarrow> goErr \<Rightarrow> goErr" where
  "newCombinatorFailure name e = Err (KCombinator name (errText e)) [e]"

definition wrapCombinatorFailure :: "string \<Rightarrow> goErr option \<Rightarrow> goErr option" where
  "wrapCombinatorFailure name e = (case e of None \<Rightarrow> None
     | Some x \<Rightarrow> if errors_Is x errSuspendExecution \<or> errors_Is x errCheckpointTerminated then Some x
                else Some (newCombinatorFailure name x))"

definition WithErrorData :: "goErr option \<Rightarrow> string \<Rightarrow> goErr option" where
  "WithErrorData e d = (case e of None \<Rightarrow> None | Some x \<Rightarrow> Some (Err (KErrorWithData d) [x]))"

definition ErrorFromObject :: "errorObject option \<Rightarrow> goErr option" where
  "ErrorFromObject obj = (case obj of None \<Rightarrow> None
     | Some _ \<Rightarrow>
        (let rec = record_of_api obj; t = er_errType rec in
         Some (if t \<in> set sdkErrorsByWireType
               then (let e = reconstructSDKError t '''' rec None
                     in if operationErrorOf e \<noteq> None then e else Err (KOperation '''' rec) [e])
               else if t = ''CheckpointError''
               then Err (KOperation '''' rec) [Err (KCheckpoint ErrorScopeNone False) [standIn None rec]]
               else if t \<noteq> '''' \<or> er_message rec \<noteq> '''' then Err (KOperation '''' rec) [standIn None rec]
               else Err (KOperation '''' rec) [])))"

section \<open>What survives the record\<close>

lemma err_nodes_leaf: "err_nodes (Err k []) = [Err k []]"
  by simp

lemma wireErrorType_sdk: "sdkWireErrorType (err_kind e) = Some t \<Longrightarrow> wireErrorType e = t"
  by (simp add: wireErrorType_def outermostSDKError_def)

lemma outermost_sentinels: "outermostSDKError (Err (KReplayed t m) (sentinel_list s)) = None"
  by (cases s) (simp_all add: outermostSDKError_def errors_As_def sentinel_list_def sentinelErr_def sdkWireErrorType_def)

lemma unwrap_replayed [simp]: "unwrapErrorData (Err (KReplayed t m) cs) = Err (KReplayed t m) cs"
  by (cases cs) simp_all

lemma wireErrorType_standIn [simp]: "wireErrorType (standIn s r) = er_errType r"
  by (simp add: wireErrorType_def standIn_def outermost_sentinels)

lemma recordOf_standIn:
  "er_errType (recordOf (standIn s r)) = er_errType r" "er_message (recordOf (standIn s r)) = er_message r"
  by (simp_all add: recordOf_def) (simp add: standIn_def)

text \<open>The type name a recorded SDK error type is rebuilt under.\<close>

definition canonicalType :: "string \<Rightarrow> string" where
  "canonicalType t = (if isCallbackTimeoutType t then ''CallbackTimeoutError'' else t)"

lemma reconstruct_kind:
  assumes "t \<in> set sdkErrorsByWireType" and "er_errType r = t"
  shows "sdkWireErrorType (err_kind (reconstructSDKError t name r s)) = Some (canonicalType t)"
  using assms(1) unfolding sdkErrorsByWireType_def
  by (simp, elim disjE)
     (simp_all add: reconstructSDKError.simps assms(2) Let_def canonicalType_def isCallbackTimeoutType_def
        sdkWireErrorType_def newCallbackExternalError_def newCallbackTimeoutError_def newCallbackSubmitterError_def)

lemma wireErrorType_cause: "wireErrorType (cause name s r) = canonicalType (er_errType r)"
proof (cases "er_errType r \<in> set sdkErrorsByWireType")
  case True
  then show ?thesis
    by (simp add: cause_def wireErrorType_sdk [OF reconstruct_kind])
next
  case False
  then have "\<not> isCallbackTimeoutType (er_errType r)"
    by (auto simp: sdkErrorsByWireType_def isCallbackTimeoutType_def)
  then show ?thesis
    using False by (simp add: cause_def canonicalType_def)
qed

lemma rune_cut_le: "rune_cut s n \<le> n"
  by (induction n) (auto simp: le_SucI)

lemma truncateUTF8_length [simp]: "length (truncateUTF8 s n) \<le> n"
  using rune_cut_le [of s n] by (auto simp: truncateUTF8_def min_def)

lemma truncateUTF8_idem [simp]: "truncateUTF8 (truncateUTF8 s n) n = truncateUTF8 s n"
  by (subst truncateUTF8_def [of "truncateUTF8 s n"]) simp

lemma truncateUTF8_prefix: "\<exists>rest. s = truncateUTF8 s n @ rest"
  by (metis append.right_neutral append_take_drop_id truncateUTF8_def)

lemma errorDataOf_truncated [simp]: "truncateUTF8 (errorDataOf e) maxErrorDataBytes = errorDataOf e"
  by (simp add: errorDataOf_def truncateUTF8_def [of "''''"] split: option.split)

lemma nodeData_simps [simp]:
  "nodeData (Err (KReplayed t m) cs) = ''''" "nodeData (Err (KSentinel x) cs) = ''''"
  "nodeData (Err (KSerdes o' d) cs) = ''''" "nodeData (Err (KOperation nm r) cs) = er_data r"
  "nodeData (Err (KStep nm a r) cs) = er_data r" "nodeData (Err (KInvoke nm f st r) cs) = er_data r"
  "nodeData (Err (KCallback nm c r) cs) = er_data r" "nodeData (Err (KCallbackExternal nm c r) cs) = er_data r"
  "nodeData (Err (KCallbackTimeout nm c r hb) cs) = er_data r"
  "nodeData (Err (KCallbackSubmitter nm c r) cs) = er_data r"
  "nodeData (Err (KChildContext nm r) cs) = er_data r" "nodeData (Err (KWaitForCondition nm a r) cs) = er_data r"
  "nodeData (Err (KRetry nm a r) cs) = er_data r" "nodeData (Err (KStepInterrupted nm m) cs) = ''''"
  "nodeData (Err (KCombinator nm m) cs) = ''''" "nodeData (Err (KBatch nm re m) cs) = ''''"
  "nodeData (Err (KBatchCompletion nm re m) cs) = ''''" "nodeData (Err (KNonDeterministic nm i mm m d) cs) = ''''"
  "nodeData (Err (KErrorWithData d) cs) = d"
  by (simp_all add: nodeData_def operationErrorOf_def noError_def)

text \<open>Every node of a rebuilt error carries the recorded data or none.\<close>

lemma standIn_nodes: "n \<in> set (err_nodes (standIn s r)) \<Longrightarrow> nodeData n = ''''"
  by (cases s) (auto simp: standIn_def sentinel_list_def sentinelErr_def)

lemma standIn_below: "n \<in> set (err_nodes (Err k [standIn s r])) \<Longrightarrow> n = Err k [standIn s r] \<or> nodeData n = ''''"
  by (auto dest: standIn_nodes)

lemma er_data_defaulted [simp]: "er_data (defaulted t m r) = er_data r"
  by (simp add: defaulted_def)

lemma reconstruct_shape:
  assumes "t \<in> set sdkErrorsByWireType" and "er_errType r = t"
  shows "(\<exists>k s' r'. reconstructSDKError t name r s = Err k [standIn s' r']) \<or>
         (\<exists>k. reconstructSDKError t name r s = Err k [])"
  using assms(1) unfolding sdkErrorsByWireType_def
  by (simp, elim disjE)
     (simp_all add: reconstructSDKError.simps assms(2) Let_def isCallbackTimeoutType_def
        newCallbackExternalError_def newCallbackTimeoutError_def newCallbackSubmitterError_def, blast+)

lemma reconstruct_nodeData:
  assumes "t \<in> set sdkErrorsByWireType" and "er_errType r = t"
  shows "nodeData (reconstructSDKError t name r s) = er_data r \<or> nodeData (reconstructSDKError t name r s) = ''''"
  using assms(1) unfolding sdkErrorsByWireType_def
  by (simp, elim disjE)
     (simp_all add: reconstructSDKError.simps assms(2) Let_def isCallbackTimeoutType_def
        newCallbackExternalError_def newCallbackTimeoutError_def newCallbackSubmitterError_def)

lemma reconstruct_data:
  assumes "t \<in> set sdkErrorsByWireType" and "er_errType r = t"
    and "n \<in> set (err_nodes (reconstructSDKError t name r s))"
  shows "nodeData n = er_data r \<or> nodeData n = ''''"
proof -
  have "n = reconstructSDKError t name r s \<or> nodeData n = ''''"
    using reconstruct_shape [OF assms(1,2), of name s] assms(3) standIn_below by fastforce
  then show ?thesis
    using reconstruct_nodeData [OF assms(1,2), of name s] by auto
qed

lemma cause_data: "n \<in> set (err_nodes (cause name s r)) \<Longrightarrow> nodeData n = er_data r \<or> nodeData n = ''''"
  by (auto simp: cause_def dest: reconstruct_data standIn_nodes split: if_splits)

lemma errorDataOf_wrapped:
  assumes "nodeData (Err k [c]) = d" and "\<And>n. n \<in> set (err_nodes c) \<Longrightarrow> nodeData n = d \<or> nodeData n = ''''"
    and "truncateUTF8 d maxErrorDataBytes = d"
  shows "errorDataOf (Err k [c]) = d"
proof (cases "d = ''''")
  case True
  then have "errors_As (\<lambda>n. nodeData n \<noteq> '''') (Err k [c]) = None"
    using assms by (auto simp: errors_As_None)
  then show ?thesis
    using True by (simp add: errorDataOf_def)
next
  case False
  then show ?thesis
    using assms by (simp add: errorDataOf_def)
qed

lemma errorDataOf_newChildContextError: "errorDataOf (newChildContextError name (recordOf e)) = errorDataOf e"
  unfolding newChildContextError_def
  by (rule errorDataOf_wrapped)
     (use cause_data [of _ name None "recordOf e"] in \<open>auto simp: nodeData_def operationErrorOf_def recordOf_def\<close>)

lemma errorDataOf_newStepError: "errorDataOf (newStepError name att (recordOf e)) = errorDataOf e"
  unfolding newStepError_def
  by (rule errorDataOf_wrapped)
     (use cause_data [of _ "''''" None "recordOf e"] in \<open>auto simp: nodeData_def operationErrorOf_def recordOf_def\<close>)

section \<open>Properties\<close>

text \<open>C23: An error rebuilt from its record keeps its identity: the error rebuilt by the engine for any record reports
  the recorded wire type (the two legacy callback timeout names under their present name), and re-recording the
  child-context or step error that wraps it loses no WithErrorData payload, whatever error was recorded first.\<close>
theorem rebuilt_error_keeps_type_and_data:
  "wireErrorType (cause name s r) =
     (if isCallbackTimeoutType (er_errType r) then ''CallbackTimeoutError'' else er_errType r) \<and>
   errorDataOf (newChildContextError name (recordOf e)) = errorDataOf e \<and>
   errorDataOf (newStepError name att (recordOf e)) = errorDataOf e"
  by (simp add: wireErrorType_cause canonicalType_def errorDataOf_newChildContextError errorDataOf_newStepError)

end
