(* ===== verification/Ckpt_Errors.thy ===== *)
theory Ckpt_Errors
  imports Go_Errors
begin

text \<open>
  checkpoint_errors.go: how a failed client call is classified, and the scope
  every site that turns a failure into an outcome reads.
\<close>

section \<open>Classification\<close>

definition effectiveScope :: "errorScope \<Rightarrow> errorScope" where
  "effectiveScope sc = (if sc = ErrorScopeExecution then ErrorScopeExecution else ErrorScopeInvocation)"

definition asClientError :: "goErr \<Rightarrow> errorScope option" where
  "asClientError e = (case errors_As (\<lambda>n. case err_kind n of KClient _ \<Rightarrow> True | _ \<Rightarrow> False) e of
      Some n \<Rightarrow> (case err_kind n of KClient sc \<Rightarrow> Some sc | _ \<Rightarrow> None) | None \<Rightarrow> None)"

definition asAPIError :: "goErr \<Rightarrow> (string \<times> string \<times> bool) option" where
  "asAPIError e = (case errors_As (\<lambda>n. case err_kind n of KAPI _ _ _ \<Rightarrow> True | _ \<Rightarrow> False) e of
      Some n \<Rightarrow> (case err_kind n of KAPI c m srv \<Rightarrow> Some (c, m, srv) | _ \<Rightarrow> None) | None \<Rightarrow> None)"

definition asResponseError :: "goErr \<Rightarrow> int option" where
  "asResponseError e = (case errors_As (\<lambda>n. case err_kind n of KResponse _ \<Rightarrow> True | _ \<Rightarrow> False) e of
      Some n \<Rightarrow> (case err_kind n of KResponse st \<Rightarrow> Some st | _ \<Rightarrow> None) | None \<Rightarrow> None)"

definition asCheckpointError :: "goErr \<Rightarrow> (errorScope \<times> bool) option" where
  "asCheckpointError e = (case errors_As (\<lambda>n. case err_kind n of KCheckpoint _ _ \<Rightarrow> True | _ \<Rightarrow> False) e of
      Some n \<Rightarrow> (case err_kind n of KCheckpoint sc st \<Rightarrow> Some (sc, st) | _ \<Rightarrow> None) | None \<Rightarrow> None)"

definition kmsErrorCodes :: "string list" where
  "kmsErrorCodes = [''KMSAccessDeniedException'', ''KMSDisabledException'',
                    ''KMSInvalidStateException'', ''KMSNotFoundException'']"

definition isStaleTokenRejection :: "goErr \<Rightarrow> bool" where
  "isStaleTokenRejection e \<longleftrightarrow>
     (if asClientError e \<noteq> None then False
      else case asAPIError e of None \<Rightarrow> False
        | Some (c, m, srv) \<Rightarrow> c = ''InvalidParameterValueException'' \<and> cutPrefix ''Invalid checkpoint token'' m \<noteq> None)"

definition clientErrorScope :: "goErr \<Rightarrow> errorScope" where
  "clientErrorScope e =
    (case asClientError e of Some sc \<Rightarrow> effectiveScope sc
     | None \<Rightarrow>
    (case asAPIError e of
       Some (c, m, srv) \<Rightarrow>
         if c \<in> set kmsErrorCodes then ErrorScopeExecution
         else if c = ''TooManyRequestsException'' then ErrorScopeInvocation
         else if srv then ErrorScopeInvocation
         else ErrorScopeExecution
     | None \<Rightarrow>
    (case asResponseError e of
       Some st \<Rightarrow> if st = 429 \<or> st \<ge> 500 then ErrorScopeInvocation else ErrorScopeExecution
     | None \<Rightarrow> ErrorScopeInvocation)))"

definition classifyCheckpointError :: "goErr \<Rightarrow> goErr" where
  "classifyCheckpointError e =
     (if isStaleTokenRejection e then Err (KCheckpoint ErrorScopeInvocation True) [e]
      else Err (KCheckpoint (clientErrorScope e) False) [e])"

definition checkpointRetryable :: "errorScope \<times> bool \<Rightarrow> bool" where
  "checkpointRetryable c \<longleftrightarrow> fst c = ErrorScopeInvocation \<and> \<not> snd c"

definition IsCheckpointRetryable :: "goErr \<Rightarrow> bool" where
  "IsCheckpointRetryable e = (case asCheckpointError e of Some c \<Rightarrow> checkpointRetryable c | None \<Rightarrow> False)"

definition isSerdesInvocationEnd :: "goErr \<Rightarrow> bool" where
  "isSerdesInvocationEnd e \<longleftrightarrow>
     errors_As (\<lambda>n. case err_kind n of KSerdesInvocationEnd _ _ \<Rightarrow> True | _ \<Rightarrow> False) e \<noteq> None"

definition failureScope :: "goErr \<Rightarrow> errorScope \<Rightarrow> errorScope" where
  "failureScope e unclassified =
    (if isSerdesInvocationEnd e then ErrorScopeInvocation
     else let fromClient = (case asClientError e of Some sc \<Rightarrow> effectiveScope sc | None \<Rightarrow> unclassified)
          in case asCheckpointError e of
               Some (sc, _) \<Rightarrow> if sc = ErrorScopeInvocation \<or> sc = ErrorScopeExecution then sc else fromClient
             | None \<Rightarrow> fromClient)"

section \<open>Facts\<close>

lemma asCheckpointError_classify:
  "asCheckpointError (classifyCheckpointError e) =
     Some (if isStaleTokenRejection e then (ErrorScopeInvocation, True) else (clientErrorScope e, False))"
  by (simp add: classifyCheckpointError_def asCheckpointError_def)

lemma effectiveScope_cases: "effectiveScope sc = ErrorScopeInvocation \<or> effectiveScope sc = ErrorScopeExecution"
  by (simp add: effectiveScope_def)

lemma clientErrorScope_cases: "clientErrorScope e = ErrorScopeInvocation \<or> clientErrorScope e = ErrorScopeExecution"
  using effectiveScope_cases by (auto simp: clientErrorScope_def split: option.splits)

lemma isSerdesInvocationEnd_classify: "isSerdesInvocationEnd (classifyCheckpointError e) = isSerdesInvocationEnd e"
  by (auto simp: isSerdesInvocationEnd_def classifyCheckpointError_def errors_As_None)

lemma stale_is_parameter_error:
  "isStaleTokenRejection e \<Longrightarrow> asClientError e = None \<and> (\<exists>m srv. asAPIError e = Some (''InvalidParameterValueException'', m, srv))"
  by (auto simp: isStaleTokenRejection_def split: if_splits option.splits)

lemma failureScope_classified:
  "failureScope (classifyCheckpointError e) u =
     (if isSerdesInvocationEnd e \<or> isStaleTokenRejection e then ErrorScopeInvocation else clientErrorScope e)"
  using clientErrorScope_cases [of e]
  by (auto simp: failureScope_def isSerdesInvocationEnd_classify asCheckpointError_classify Let_def)

lemma IsCheckpointRetryable_classified:
  "IsCheckpointRetryable (classifyCheckpointError e) \<longleftrightarrow>
     \<not> isStaleTokenRejection e \<and> clientErrorScope e = ErrorScopeInvocation"
  by (simp add: IsCheckpointRetryable_def asCheckpointError_classify checkpointRetryable_def)

section \<open>Wrapping\<close>

lemma errors_As_wrapped: "\<not> P (Err k [e]) \<Longrightarrow> errors_As P (Err k [e]) = errors_As P e"
  by (simp add: errors_As_def)

lemma wrapped_plain:
  "asClientError (Err (KPlain t m) [e]) = asClientError e"
  "asAPIError (Err (KPlain t m) [e]) = asAPIError e"
  "asResponseError (Err (KPlain t m) [e]) = asResponseError e"
  "asCheckpointError (Err (KPlain t m) [e]) = asCheckpointError e"
  "isSerdesInvocationEnd (Err (KPlain t m) [e]) = isSerdesInvocationEnd e"
  by (simp_all add: asClientError_def asAPIError_def asResponseError_def asCheckpointError_def
      isSerdesInvocationEnd_def errors_As_wrapped)

lemma wrapped_classification:
  "isStaleTokenRejection (Err (KPlain t m) [e]) = isStaleTokenRejection e"
  "clientErrorScope (Err (KPlain t m) [e]) = clientErrorScope e"
  "failureScope (Err (KPlain t m) [e]) u = failureScope e u"
  unfolding isStaleTokenRejection_def clientErrorScope_def failureScope_def wrapped_plain by (rule refl)+


text \<open>
  A CheckpointError that states no scope is said to be skipped; what is skipped
  is every CheckpointError below or after it in the tree as well.
\<close>

lemma scopeless_checkpoint_error_hides_later:
  "failureScope (Err (KPlain ''joinError'' m)
      [Err (KCheckpoint ErrorScopeNone False) [Err (KReplayed t r) []],
       Err (KCheckpoint ErrorScopeExecution False) [Err (KPlain '''' x) []]]) u = u"
  by (simp add: failureScope_def isSerdesInvocationEnd_def asCheckpointError_def asClientError_def errors_As_def)

end
