(* ===== verification/Checkpointer.thy ===== *)
theory Checkpointer
  imports Ckpt_Errors Exec_State
begin

text \<open>
  The checkpointer of checkpoint.go as a state machine.  Operation goroutines
  queue requests; one flusher takes batches off the head of the queue, sends
  one client call at a time and hands every request its outcome.  Each action
  is one critical section of the code: a submit, a termination, a halt, and
  the flusher's four stages (take a batch, check it before the call, receive
  the response, deliver).  Contexts that are done and client responses are
  inputs of the actions.  Three history fields record what the client saw and
  what the callers were told; no guard reads them.
\<close>

section \<open>State\<close>

record pendingCheckpoint =
  pc_updates :: "operationUpdate list"
  pc_size :: nat
  pc_final :: bool
  pc_seq :: nat

datatype clientResponse = CallOk string "apiOperation list option" | CallErr goErr

datatype flusher =
    FlusherIdle
  | FlusherTaken "pendingCheckpoint list" string
  | FlusherCalling "pendingCheckpoint list" string
  | FlusherReturned "pendingCheckpoint list" "goErr option"

record checkpointer =
  cp_token :: string
  cp_queue :: "pendingCheckpoint list"
  cp_flushing :: bool
  cp_nextSeq :: nat
  cp_cutoff :: nat
  cp_cutoffSet :: bool
  cp_terminated :: bool
  cp_haltErr :: "goErr option"
  cp_state :: "executionState option"
  cp_outstanding :: int
  cp_flusher :: flusher
  cp_calls :: "(string \<times> pendingCheckpoint list) list"
  cp_responses :: "clientResponse list"
  cp_delivered :: "(nat \<times> goErr option) list"
  cp_dropped :: "nat set"

definition checkpointBatchLimitBytes :: nat where "checkpointBatchLimitBytes = 768000"
definition checkpointMaxBatchUpdates :: nat where "checkpointMaxBatchUpdates = 250"
definition checkpointBatchOverheadBytes :: nat where "checkpointBatchOverheadBytes = 100"

definition newCheckpointer :: "string \<Rightarrow> executionState option \<Rightarrow> checkpointer" where
  "newCheckpointer initialToken st =
     \<lparr> cp_token = initialToken, cp_queue = [], cp_flushing = False, cp_nextSeq = 0, cp_cutoff = 0,
       cp_cutoffSet = False, cp_terminated = False, cp_haltErr = None, cp_state = st,
       cp_outstanding = 0, cp_flusher = FlusherIdle, cp_calls = [], cp_responses = [],
       cp_delivered = [], cp_dropped = {} \<rparr>"

section \<open>Operations\<close>

definition cp_terminate :: "checkpointer \<Rightarrow> checkpointer" where
  "cp_terminate cp = cp \<lparr> cp_terminated := True \<rparr>"

definition terminateAtQueueEnd :: "checkpointer \<Rightarrow> checkpointer" where
  "terminateAtQueueEnd cp =
     (let cp' = (if \<not> cp_cutoffSet cp \<and> \<not> cp_terminated cp
                 then cp \<lparr> cp_cutoff := cp_nextSeq cp, cp_cutoffSet := True \<rparr> else cp)
      in cp' \<lparr> cp_terminated := True \<rparr>)"

definition sendable :: "checkpointer \<Rightarrow> pendingCheckpoint \<Rightarrow> bool" where
  "sendable cp p \<longleftrightarrow> pc_final p \<or> (cp_cutoffSet cp \<and> pc_seq p < cp_cutoff cp)"

definition cp_halt :: "goErr \<Rightarrow> checkpointer \<Rightarrow> checkpointer" where
  "cp_halt e cp =
     cp_terminate (if cp_haltErr cp = None then cp \<lparr> cp_haltErr := Some e \<rparr> else cp)"

definition carriesExecutionUpdate :: "operationUpdate list \<Rightarrow> bool" where
  "carriesExecutionUpdate us \<longleftrightarrow> list_ex (\<lambda>u. ou_Type u = OperationTypeExecution) us"

definition cp_submit :: "operationUpdate list \<Rightarrow> nat \<Rightarrow> bool \<Rightarrow> checkpointer \<Rightarrow> checkpointer" where
  "cp_submit updates sz final cp =
     cp \<lparr> cp_outstanding := cp_outstanding cp + 1,
          cp_queue := cp_queue cp @
            [\<lparr> pc_updates = updates, pc_size = sz, pc_final = final, pc_seq = cp_nextSeq cp \<rparr>],
          cp_nextSeq := cp_nextSeq cp + 1,
          cp_flushing := True \<rparr>"

text \<open>
  checkpoint, checkpointNoWait and queueStart share the refusal before the
  queue; checkpointFinal does not look at it.
\<close>

definition cp_checkpoint :: "operationUpdate list \<Rightarrow> nat \<Rightarrow> checkpointer \<Rightarrow> goErr option \<times> checkpointer" where
  "cp_checkpoint updates sz cp =
     (if cp_terminated cp then (Some (sentinelErr errCheckpointTerminated), cp)
      else (None, cp_submit updates sz False cp))"

definition cp_checkpointFinal :: "operationUpdate list \<Rightarrow> nat \<Rightarrow> checkpointer \<Rightarrow> checkpointer" where
  "cp_checkpointFinal updates sz cp = cp_submit updates sz True cp"

definition cp_deliver :: "pendingCheckpoint \<Rightarrow> goErr option \<Rightarrow> checkpointer \<Rightarrow> checkpointer" where
  "cp_deliver p e cp =
     cp \<lparr> cp_delivered := cp_delivered cp @ [(pc_seq p, e)], cp_outstanding := cp_outstanding cp - 1 \<rparr>"

text \<open>
  Batch assembly.  The accumulators are the loop's batch, update count and
  size; a request whose context is done, or that termination refuses, is
  settled and consumed.  The result is the batch, the rest of the queue and
  the checkpointer with the settled requests delivered.
\<close>

fun takeBatch :: "(nat \<Rightarrow> goErr option) \<Rightarrow> bool \<Rightarrow> pendingCheckpoint list \<Rightarrow> pendingCheckpoint list \<Rightarrow> nat \<Rightarrow> nat \<Rightarrow>
    checkpointer \<Rightarrow> pendingCheckpoint list \<times> pendingCheckpoint list \<times> checkpointer" where
  "takeBatch ctxErr term [] batch nUpdates sz cp = (batch, [], cp)"
| "takeBatch ctxErr term (p # ps) batch nUpdates sz cp =
     (case ctxErr (pc_seq p) of
        Some e \<Rightarrow> takeBatch ctxErr term ps batch nUpdates sz
                    ((cp_deliver p (Some e) cp) \<lparr> cp_dropped := insert (pc_seq p) (cp_dropped cp) \<rparr>)
      | None \<Rightarrow>
        if term \<and> \<not> sendable cp p
        then takeBatch ctxErr term ps batch nUpdates sz
               (cp_deliver p (Some (sentinelErr errCheckpointTerminated)) cp)
        else if batch \<noteq> [] \<and> (sz + pc_size p > checkpointBatchLimitBytes
                             \<or> nUpdates + length (pc_updates p) > checkpointMaxBatchUpdates)
        then (batch, p # ps, cp)
        else takeBatch ctxErr term ps (batch @ [p]) (nUpdates + length (pc_updates p)) (sz + pc_size p) cp)"

definition flush_take :: "(nat \<Rightarrow> goErr option) \<Rightarrow> checkpointer \<Rightarrow> checkpointer" where
  "flush_take ctxErr cp =
     (if cp_queue cp = [] then cp \<lparr> cp_flushing := False \<rparr>
      else (case takeBatch ctxErr (cp_terminated cp) (cp_queue cp) [] 0
                   (length (cp_token cp) + checkpointBatchOverheadBytes) cp of
              (batch, rest, cp') \<Rightarrow>
                cp' \<lparr> cp_queue := rest,
                      cp_flusher := (if batch = [] then FlusherIdle else FlusherTaken batch (cp_token cp)) \<rparr>))"

definition refusal :: "bool \<Rightarrow> checkpointer \<Rightarrow> goErr option" where
  "refusal canSend cp =
     (if \<not> cp_terminated cp then None
      else if \<not> canSend then Some (sentinelErr errCheckpointTerminated)
      else case cp_haltErr cp of None \<Rightarrow> None
        | Some h \<Rightarrow> if errors_Is h errSuspendExecution then Some (sentinelErr errCheckpointTerminated) else Some h)"

definition flush_check :: "pendingCheckpoint list \<Rightarrow> string \<Rightarrow> checkpointer \<Rightarrow> checkpointer" where
  "flush_check batch token cp =
     (case refusal (sendable cp (hd batch)) cp of
        Some e \<Rightarrow> cp \<lparr> cp_flusher := FlusherReturned batch (Some e) \<rparr>
      | None \<Rightarrow> cp \<lparr> cp_flusher := FlusherCalling batch token, cp_calls := cp_calls cp @ [(token, batch)] \<rparr>)"

definition batch_updates :: "pendingCheckpoint list \<Rightarrow> operationUpdate list" where
  "batch_updates batch = concat (map pc_updates batch)"

definition flush_response :: "pendingCheckpoint list \<Rightarrow> clientResponse \<Rightarrow> checkpointer \<Rightarrow> checkpointer" where
  "flush_response batch resp cp =
    (let cp0 = cp \<lparr> cp_responses := cp_responses cp @ [resp] \<rparr> in
     case resp of
       CallErr e \<Rightarrow>
         (let c = classifyCheckpointError e
          in (cp_halt c cp0) \<lparr> cp_flusher := FlusherReturned batch (Some c) \<rparr>)
     | CallOk token ops \<Rightarrow>
         if token = '''' then
           (if carriesExecutionUpdate (batch_updates batch)
            then cp0 \<lparr> cp_flusher := FlusherReturned batch None \<rparr>
            else (cp_halt (sentinelErr errSuspendExecution) cp0)
                   \<lparr> cp_flusher := FlusherReturned batch (Some (sentinelErr errCheckpointTerminated)) \<rparr>)
         else cp0 \<lparr> cp_token := token,
                    cp_state := (case (cp_state cp, ops) of
                        (Some st, Some os) \<Rightarrow> Some (es_merge (map operationFromAPI os) st) | (st, _) \<Rightarrow> st),
                    cp_flusher := FlusherReturned batch None \<rparr>)"

definition flush_deliver :: "pendingCheckpoint list \<Rightarrow> goErr option \<Rightarrow> checkpointer \<Rightarrow> checkpointer" where
  "flush_deliver batch e cp =
    (let refuseBranches = (e = None \<and> cp_terminated cp);
         cp' = fold (\<lambda>p c. cp_deliver p (if refuseBranches \<and> \<not> pc_final p
                 then Some (sentinelErr errCheckpointTerminated) else e) c) batch cp
     in cp' \<lparr> cp_flusher := FlusherIdle \<rparr>)"

section \<open>Actions\<close>

text \<open>
  A final write is submitted only after the handler's outcome is decided, that
  is, once the checkpointer is terminated.
\<close>

datatype cpAction =
    ASubmit "operationUpdate list" nat
  | ASubmitFinal "operationUpdate list" nat
  | ATerminate
  | ATerminateAtQueueEnd
  | AHalt goErr
  | ATake "nat \<Rightarrow> goErr option"
  | ACheck
  | AResponse clientResponse
  | ADeliver

definition cp_step :: "cpAction \<Rightarrow> checkpointer \<Rightarrow> checkpointer option" where
  "cp_step a cp = (case a of
      ASubmit us n \<Rightarrow> Some (snd (cp_checkpoint us n cp))
    | ASubmitFinal us n \<Rightarrow> if cp_terminated cp then Some (cp_checkpointFinal us n cp) else None
    | ATerminate \<Rightarrow> Some (cp_terminate cp)
    | ATerminateAtQueueEnd \<Rightarrow> Some (terminateAtQueueEnd cp)
    | AHalt e \<Rightarrow> Some (cp_halt e cp)
    | ATake ctxErr \<Rightarrow> if cp_flushing cp \<and> cp_flusher cp = FlusherIdle then Some (flush_take ctxErr cp) else None
    | ACheck \<Rightarrow> (case cp_flusher cp of FlusherTaken b t \<Rightarrow> Some (flush_check b t cp) | _ \<Rightarrow> None)
    | AResponse r \<Rightarrow> (case cp_flusher cp of FlusherCalling b t \<Rightarrow> Some (flush_response b r cp) | _ \<Rightarrow> None)
    | ADeliver \<Rightarrow> (case cp_flusher cp of FlusherReturned b e \<Rightarrow> Some (flush_deliver b e cp) | _ \<Rightarrow> None))"

abbreviation cp_run :: "cpAction list \<Rightarrow> checkpointer \<Rightarrow> checkpointer option" where
  "cp_run \<equiv> run_steps cp_step"

end
