(* ===== verification/Checkpointer_Inv.thy ===== *)
theory Checkpointer_Inv
  imports Checkpointer "HOL-Library.Multiset"
begin

text \<open>
  Invariants of the checkpointer's actions: every queued request is delivered
  exactly once, calls carry requests in queue order and chain the token, and
  what the service receives is a prefix of the queue.
\<close>

section \<open>Frame facts\<close>

lemma cp_submit_simps [ckpt_simps, simp]:
  "cp_queue (cp_submit us n f cp) =
     cp_queue cp @ [\<lparr> pc_updates = us, pc_size = n, pc_final = f, pc_seq = cp_nextSeq cp \<rparr>]"
  "cp_nextSeq (cp_submit us n f cp) = Suc (cp_nextSeq cp)"
  "cp_outstanding (cp_submit us n f cp) = cp_outstanding cp + 1"
  "cp_flushing (cp_submit us n f cp)"
  "cp_flusher (cp_submit us n f cp) = cp_flusher cp" "cp_calls (cp_submit us n f cp) = cp_calls cp"
  "cp_responses (cp_submit us n f cp) = cp_responses cp" "cp_delivered (cp_submit us n f cp) = cp_delivered cp"
  "cp_dropped (cp_submit us n f cp) = cp_dropped cp" "cp_terminated (cp_submit us n f cp) = cp_terminated cp"
  "cp_haltErr (cp_submit us n f cp) = cp_haltErr cp" "cp_cutoff (cp_submit us n f cp) = cp_cutoff cp"
  "cp_cutoffSet (cp_submit us n f cp) = cp_cutoffSet cp" "cp_token (cp_submit us n f cp) = cp_token cp"
  "cp_state (cp_submit us n f cp) = cp_state cp"
  by (simp_all add: cp_submit_def)

lemma cp_deliver_simps [ckpt_simps, simp]:
  "cp_delivered (cp_deliver p e cp) = cp_delivered cp @ [(pc_seq p, e)]"
  "cp_outstanding (cp_deliver p e cp) = cp_outstanding cp - 1"
  "cp_queue (cp_deliver p e cp) = cp_queue cp" "cp_nextSeq (cp_deliver p e cp) = cp_nextSeq cp"
  "cp_flushing (cp_deliver p e cp) = cp_flushing cp" "cp_flusher (cp_deliver p e cp) = cp_flusher cp"
  "cp_calls (cp_deliver p e cp) = cp_calls cp" "cp_responses (cp_deliver p e cp) = cp_responses cp"
  "cp_dropped (cp_deliver p e cp) = cp_dropped cp" "cp_terminated (cp_deliver p e cp) = cp_terminated cp"
  "cp_haltErr (cp_deliver p e cp) = cp_haltErr cp" "cp_cutoff (cp_deliver p e cp) = cp_cutoff cp"
  "cp_cutoffSet (cp_deliver p e cp) = cp_cutoffSet cp" "cp_token (cp_deliver p e cp) = cp_token cp"
  "cp_state (cp_deliver p e cp) = cp_state cp"
  by (simp_all add: cp_deliver_def)

lemma sendable_cong:
  "cp_cutoffSet a = cp_cutoffSet b \<Longrightarrow> cp_cutoff a = cp_cutoff b \<Longrightarrow> sendable a p = sendable b p"
  by (simp add: sendable_def)

section \<open>Batch assembly in closed form\<close>

definition settle1 :: "(nat \<Rightarrow> goErr option) \<Rightarrow> pendingCheckpoint \<Rightarrow> checkpointer \<Rightarrow> checkpointer" where
  "settle1 ctxErr p cp = (case ctxErr (pc_seq p) of
      Some e \<Rightarrow> (cp_deliver p (Some e) cp) \<lparr> cp_dropped := insert (pc_seq p) (cp_dropped cp) \<rparr>
    | None \<Rightarrow> cp_deliver p (Some (sentinelErr errCheckpointTerminated)) cp)"

definition keeps :: "(nat \<Rightarrow> goErr option) \<Rightarrow> bool \<Rightarrow> checkpointer \<Rightarrow> pendingCheckpoint \<Rightarrow> bool" where
  "keeps ctxErr term cp p \<longleftrightarrow> ctxErr (pc_seq p) = None \<and> \<not> (term \<and> \<not> sendable cp p)"

lemma settle1_simps [ckpt_simps, simp]:
  "map fst (cp_delivered (settle1 c p cp)) = map fst (cp_delivered cp) @ [pc_seq p]"
  "cp_outstanding (settle1 c p cp) = cp_outstanding cp - 1"
  "cp_queue (settle1 c p cp) = cp_queue cp" "cp_nextSeq (settle1 c p cp) = cp_nextSeq cp"
  "cp_flushing (settle1 c p cp) = cp_flushing cp" "cp_flusher (settle1 c p cp) = cp_flusher cp"
  "cp_calls (settle1 c p cp) = cp_calls cp" "cp_responses (settle1 c p cp) = cp_responses cp"
  "cp_terminated (settle1 c p cp) = cp_terminated cp" "cp_haltErr (settle1 c p cp) = cp_haltErr cp"
  "cp_cutoff (settle1 c p cp) = cp_cutoff cp" "cp_cutoffSet (settle1 c p cp) = cp_cutoffSet cp"
  "cp_token (settle1 c p cp) = cp_token cp" "cp_state (settle1 c p cp) = cp_state cp"
  "cp_dropped (settle1 c p cp) = (if c (pc_seq p) = None then {} else {pc_seq p}) \<union> cp_dropped cp"
  by (auto simp: settle1_def split: option.split)

lemma settle_fold [ckpt_simps, simp]:
  "map fst (cp_delivered (fold (settle1 c) ps cp)) = map fst (cp_delivered cp) @ map pc_seq ps"
  "cp_outstanding (fold (settle1 c) ps cp) = cp_outstanding cp - int (length ps)"
  "cp_queue (fold (settle1 c) ps cp) = cp_queue cp" "cp_nextSeq (fold (settle1 c) ps cp) = cp_nextSeq cp"
  "cp_flushing (fold (settle1 c) ps cp) = cp_flushing cp" "cp_flusher (fold (settle1 c) ps cp) = cp_flusher cp"
  "cp_calls (fold (settle1 c) ps cp) = cp_calls cp" "cp_responses (fold (settle1 c) ps cp) = cp_responses cp"
  "cp_terminated (fold (settle1 c) ps cp) = cp_terminated cp" "cp_haltErr (fold (settle1 c) ps cp) = cp_haltErr cp"
  "cp_cutoff (fold (settle1 c) ps cp) = cp_cutoff cp" "cp_cutoffSet (fold (settle1 c) ps cp) = cp_cutoffSet cp"
  "cp_token (fold (settle1 c) ps cp) = cp_token cp" "cp_state (fold (settle1 c) ps cp) = cp_state cp"
  "cp_dropped (fold (settle1 c) ps cp) = {pc_seq p |p. p \<in> set ps \<and> c (pc_seq p) \<noteq> None} \<union> cp_dropped cp"
  by (induction ps arbitrary: cp) auto

lemma takeBatch_char:
  "\<exists>k \<le> length q.
     takeBatch c term q b n s cp =
       (b @ filter (keeps c term cp) (take k q), drop k q,
        fold (settle1 c) (filter (\<lambda>p. \<not> keeps c term cp p) (take k q)) cp) \<and>
     (k < length q \<longrightarrow> b @ filter (keeps c term cp) (take k q) \<noteq> [])"
proof (induction q arbitrary: b n s cp)
  case Nil
  then show ?case by simp
next
  case (Cons p q)
  have keep_settle: "keeps c term (settle1 c p cp) = keeps c term cp"
    by (auto simp: keeps_def sendable_def fun_eq_iff)
  show ?case
  proof (cases "keeps c term cp p")
    case False
    have step: "takeBatch c term (p # q) b n s cp = takeBatch c term q b n s (settle1 c p cp)"
      using False by (auto simp: keeps_def settle1_def split: option.split)
    obtain k where k: "k \<le> length q"
      "takeBatch c term q b n s (settle1 c p cp) =
         (b @ filter (keeps c term cp) (take k q), drop k q,
          fold (settle1 c) (filter (\<lambda>p. \<not> keeps c term cp p) (take k q)) (settle1 c p cp))"
      "k < length q \<longrightarrow> b @ filter (keeps c term cp) (take k q) \<noteq> []"
      using Cons [of b n s "settle1 c p cp"] unfolding keep_settle by blast
    show ?thesis
      by (rule exI [of _ "Suc k"]) (use k False step in simp)
  next
    case True
    show ?thesis
    proof (cases "b \<noteq> [] \<and> (s + pc_size p > checkpointBatchLimitBytes
                             \<or> n + length (pc_updates p) > checkpointMaxBatchUpdates)")
      case True
      then have "takeBatch c term (p # q) b n s cp = (b, p # q, cp)"
        using \<open>keeps c term cp p\<close> by (auto simp: keeps_def)
      then show ?thesis
        using True by (intro exI [of _ 0]) simp
    next
      case False
      then have step: "takeBatch c term (p # q) b n s cp =
          takeBatch c term q (b @ [p]) (n + length (pc_updates p)) (s + pc_size p) cp"
        using \<open>keeps c term cp p\<close> by (auto simp: keeps_def)
      obtain k where k: "k \<le> length q"
        "takeBatch c term q (b @ [p]) (n + length (pc_updates p)) (s + pc_size p) cp =
           ((b @ [p]) @ filter (keeps c term cp) (take k q), drop k q,
            fold (settle1 c) (filter (\<lambda>p. \<not> keeps c term cp p) (take k q)) cp)"
        using Cons [of "b @ [p]" "n + length (pc_updates p)" "s + pc_size p" cp] by blast
      show ?thesis
        by (rule exI [of _ "Suc k"]) (use k True step in simp)
    qed
  qed
qed

definition batch_size :: "pendingCheckpoint list \<Rightarrow> nat" where
  "batch_size b = sum_list (map pc_size b)"

lemma takeBatch_limits:
  assumes "takeBatch c term q b n s cp = (b', r, cp')"
    and "length b > 1 \<longrightarrow> s \<le> checkpointBatchLimitBytes \<and> n \<le> checkpointMaxBatchUpdates"
    and "n = length (batch_updates b)" and "s = s0 + batch_size b"
  shows "length b' > 1 \<longrightarrow> s0 + batch_size b' \<le> checkpointBatchLimitBytes
           \<and> length (batch_updates b') \<le> checkpointMaxBatchUpdates"
  using assms
proof (induction c "term" q b n s cp rule: takeBatch.induct)
  case (1 ctxErr "term" batch nUpdates sz cp)
  then show ?case by auto
next
  case (2 ctxErr "term" p ps batch nUpdates sz cp)
  let ?over = "sz + pc_size p > checkpointBatchLimitBytes
      \<or> nUpdates + length (pc_updates p) > checkpointMaxBatchUpdates"
  show ?case
  proof (cases "ctxErr (pc_seq p)")
    case (Some e)
    then show ?thesis using 2 by simp
  next
    case None
    show ?thesis
    proof (cases "term \<and> \<not> sendable cp p")
      case True
      then show ?thesis using 2 None by simp
    next
      case False
      show ?thesis
      proof (cases "batch \<noteq> [] \<and> ?over")
        case True
        then show ?thesis using 2(4-) None False by auto
      next
        case fits: False
        then show ?thesis
          using 2(2) [OF None False fits] 2(4-) None False
          by (auto simp: batch_updates_def batch_size_def)
      qed
    qed
  qed
qed

lemma takeBatch_within_limits:
  "takeBatch c term q [] 0 s0 cp = (b', r, cp') \<Longrightarrow> length b' > 1 \<Longrightarrow>
   s0 + batch_size b' \<le> checkpointBatchLimitBytes \<and> length (batch_updates b') \<le> checkpointMaxBatchUpdates"
  using takeBatch_limits [of c "term" q "[]" 0 s0 cp b' r cp' s0]
  by (simp add: batch_updates_def batch_size_def)

section \<open>Where a request is\<close>

definition inflight :: "flusher \<Rightarrow> pendingCheckpoint list" where
  "inflight f = (case f of FlusherIdle \<Rightarrow> [] | FlusherTaken b t \<Rightarrow> b | FlusherCalling b t \<Rightarrow> b
     | FlusherReturned b e \<Rightarrow> b)"

definition held :: "flusher \<Rightarrow> pendingCheckpoint list" where
  "held f = (case f of FlusherTaken b t \<Rightarrow> b | _ \<Rightarrow> [])"

definition sent :: "checkpointer \<Rightarrow> pendingCheckpoint list" where
  "sent cp = concat (map snd (cp_calls cp))"

definition seqs :: "pendingCheckpoint list \<Rightarrow> nat list" where
  "seqs ps = map pc_seq ps"

lemma inflight_simps [simp]:
  "inflight FlusherIdle = []" "inflight (FlusherTaken b t) = b" "inflight (FlusherCalling b t) = b"
  "inflight (FlusherReturned b e) = b" "held FlusherIdle = []" "held (FlusherTaken b t) = b"
  "held (FlusherCalling b t) = []" "held (FlusherReturned b e) = []"
  by (simp_all add: inflight_def held_def)

lemma seqs_simps [simp]:
  "seqs [] = []" "seqs (p # ps) = pc_seq p # seqs ps" "seqs (xs @ ys) = seqs xs @ seqs ys"
  "set (seqs ps) = pc_seq ` set ps" "length (seqs ps) = length ps"
  by (simp_all add: seqs_def)

text \<open>Exactly once: every position is in the queue, in flight or delivered, and in one place only.\<close>

definition inv_once :: "checkpointer \<Rightarrow> bool" where
  "inv_once cp \<longleftrightarrow>
     mset (map fst (cp_delivered cp)) + mset (seqs (inflight (cp_flusher cp))) + mset (seqs (cp_queue cp))
       = mset [0..<cp_nextSeq cp] \<and>
     cp_outstanding cp = int (length (inflight (cp_flusher cp)) + length (cp_queue cp))"

text \<open>Queue order: sent, then held by the flusher, then queued, in increasing positions.\<close>

definition inv_order :: "checkpointer \<Rightarrow> bool" where
  "inv_order cp \<longleftrightarrow>
     sorted_wrt (<) (seqs (sent cp) @ seqs (held (cp_flusher cp)) @ seqs (cp_queue cp)) \<and>
     (\<forall>i \<in> set (seqs (sent cp) @ seqs (held (cp_flusher cp)) @ seqs (cp_queue cp)). i < cp_nextSeq cp)"

definition inv_flushing :: "checkpointer \<Rightarrow> bool" where
  "inv_flushing cp \<longleftrightarrow> (cp_queue cp \<noteq> [] \<or> cp_flusher cp \<noteq> FlusherIdle \<longrightarrow> cp_flushing cp) \<and>
     (cp_flusher cp \<noteq> FlusherIdle \<longrightarrow> inflight (cp_flusher cp) \<noteq> [])"

text \<open>A halt or a cutoff only ever comes with termination, and a final write only after it.\<close>

definition inv_term :: "checkpointer \<Rightarrow> bool" where
  "inv_term cp \<longleftrightarrow>
     (\<not> cp_terminated cp \<longrightarrow> \<not> cp_cutoffSet cp \<and> cp_haltErr cp = None \<and>
        (\<forall>p \<in> set (held (cp_flusher cp)). \<not> pc_final p) \<and> (\<forall>p \<in> set (cp_queue cp). \<not> pc_final p)) \<and>
     (cp_terminated cp \<longrightarrow>
        (\<forall>p \<in> set (held (cp_flusher cp)). sendable cp p) \<or> (\<forall>p \<in> set (held (cp_flusher cp)). \<not> sendable cp p))"

definition gone :: "checkpointer \<Rightarrow> nat set" where
  "gone cp = {0..<cp_nextSeq cp} - set (seqs (sent cp)) - cp_dropped cp
       - set (seqs (held (cp_flusher cp))) - set (seqs (cp_queue cp))"

text \<open>A request that was refused unsent proves termination, and that nothing at or before it is sendable any more.\<close>

definition inv_gone :: "checkpointer \<Rightarrow> bool" where
  "inv_gone cp \<longleftrightarrow> (\<forall>i \<in> gone cp. cp_terminated cp \<and>
     (cp_haltErr cp \<noteq> None \<or> \<not> (cp_cutoffSet cp \<and> i < cp_cutoff cp)))"

definition inv_prefix :: "checkpointer \<Rightarrow> bool" where
  "inv_prefix cp \<longleftrightarrow> (\<forall>p \<in> set (sent cp). \<not> pc_final p \<longrightarrow>
     (\<forall>i < pc_seq p. i \<in> set (seqs (sent cp)) \<or> i \<in> cp_dropped cp))"

definition cp_inv :: "checkpointer \<Rightarrow> bool" where
  "cp_inv cp \<longleftrightarrow> inv_once cp \<and> inv_order cp \<and> inv_flushing cp \<and> inv_term cp \<and> inv_gone cp \<and> inv_prefix cp"

lemma cp_inv_new: "cp_inv (newCheckpointer tok st)"
  by (simp add: cp_inv_def inv_once_def inv_order_def inv_flushing_def inv_term_def inv_gone_def inv_prefix_def
      newCheckpointer_def sent_def gone_def)

section \<open>Each action preserves the invariant\<close>

lemma mset_seqs_partition:
  "mset (seqs (filter P xs)) + mset (seqs (filter (\<lambda>x. \<not> P x) xs)) = mset (seqs xs)"
  by (induction xs) (simp_all add: ac_simps)

lemma cp_inv_submit:
  assumes "cp_inv cp" and "f \<longrightarrow> cp_terminated cp"
  shows "cp_inv (cp_submit us n f cp)"
proof -
  let ?cp = "cp_submit us n f cp"
  have s: "sent ?cp = sent cp"
    by (simp add: sent_def)
  have "inv_once ?cp"
    using assms by (simp add: cp_inv_def inv_once_def)
  moreover have "inv_order ?cp"
    using assms by (auto simp: cp_inv_def inv_order_def s sorted_wrt_append less_Suc_eq)
  moreover have "inv_flushing ?cp"
    using assms by (auto simp: cp_inv_def inv_flushing_def)
  moreover have "inv_term ?cp"
    using assms by (auto simp: cp_inv_def inv_term_def sendable_def)
  moreover have "gone ?cp = gone cp"
    using assms by (auto simp: gone_def s cp_inv_def inv_order_def)
  then have "inv_gone ?cp"
    using assms by (simp add: cp_inv_def inv_gone_def)
  moreover have "inv_prefix ?cp"
    using assms by (simp add: cp_inv_def inv_prefix_def s)
  ultimately show ?thesis
    by (simp add: cp_inv_def)
qed

text \<open>Termination in its three forms leaves every request where it is.\<close>

lemma cp_inv_terminating:
  assumes "cp_inv cp"
    and "cp_queue cp' = cp_queue cp" "cp_flusher cp' = cp_flusher cp" "cp_calls cp' = cp_calls cp"
    and "cp_delivered cp' = cp_delivered cp" "cp_dropped cp' = cp_dropped cp" "cp_nextSeq cp' = cp_nextSeq cp"
    and "cp_outstanding cp' = cp_outstanding cp" "cp_flushing cp' = cp_flushing cp" "cp_terminated cp'"
    and "cp_haltErr cp \<noteq> None \<longrightarrow> cp_haltErr cp' \<noteq> None"
    and "cp_cutoffSet cp' = cp_cutoffSet cp \<and> cp_cutoff cp' = cp_cutoff cp \<or>
         \<not> cp_terminated cp \<and> cp_cutoffSet cp' \<and> cp_cutoff cp' = cp_nextSeq cp"
  shows "cp_inv cp'"
proof -
  have s: "sent cp' = sent cp"
    using assms by (simp add: sent_def)
  have g: "gone cp' = gone cp"
    using assms by (simp add: gone_def s)
  have "inv_once cp'" "inv_order cp'" "inv_flushing cp'" "inv_prefix cp'"
    using assms by (simp_all add: cp_inv_def inv_once_def inv_order_def inv_flushing_def inv_prefix_def s)
  moreover have "inv_term cp'"
    using assms unfolding cp_inv_def inv_term_def inv_order_def sendable_def
    by (elim conjE disjE) (simp_all, blast+)
  moreover have "inv_gone cp'"
    using assms g by (auto simp: cp_inv_def inv_gone_def)
  ultimately show ?thesis
    by (simp add: cp_inv_def)
qed

lemma cp_inv_terminate: "cp_inv cp \<Longrightarrow> cp_inv (cp_terminate cp)"
  by (rule cp_inv_terminating [of cp]) (simp_all add: cp_terminate_def)

lemma cp_inv_halt: "cp_inv cp \<Longrightarrow> cp_inv (cp_halt e cp)"
  by (rule cp_inv_terminating [of cp]) (simp_all add: cp_halt_def cp_terminate_def)

lemma cp_inv_terminateAtQueueEnd: "cp_inv cp \<Longrightarrow> cp_inv (terminateAtQueueEnd cp)"
  by (rule cp_inv_terminating [of cp]) (auto simp: terminateAtQueueEnd_def Let_def)

lemma flush_take_char:
  assumes "cp_queue cp \<noteq> []" and "q = cp_queue cp"
  shows "\<exists>k \<le> length q. flush_take c cp =
    (fold (settle1 c) (filter (\<lambda>p. \<not> keeps c (cp_terminated cp) cp p) (take k q)) cp)
      \<lparr> cp_queue := drop k q,
        cp_flusher := (if filter (keeps c (cp_terminated cp) cp) (take k q) = [] then FlusherIdle
                       else FlusherTaken (filter (keeps c (cp_terminated cp) cp) (take k q)) (cp_token cp)) \<rparr> \<and>
    (k < length q \<longrightarrow> filter (keeps c (cp_terminated cp) cp) (take k q) \<noteq> [])"
proof -
  obtain k where "k \<le> length q"
    "takeBatch c (cp_terminated cp) q [] 0 (length (cp_token cp) + checkpointBatchOverheadBytes) cp =
       ([] @ filter (keeps c (cp_terminated cp) cp) (take k q), drop k q,
        fold (settle1 c) (filter (\<lambda>p. \<not> keeps c (cp_terminated cp) cp p) (take k q)) cp)"
    "k < length q \<longrightarrow> [] @ filter (keeps c (cp_terminated cp) cp) (take k q) \<noteq> []"
    using takeBatch_char [of q c "cp_terminated cp" "[]" 0 "length (cp_token cp) + checkpointBatchOverheadBytes" cp]
    by blast
  then show ?thesis
    using assms by (intro exI [of _ k]) (simp add: flush_take_def)
qed

lemma inflight_taken:
  "inflight (if b = [] then FlusherIdle else FlusherTaken b t) = b"
  "held (if b = [] then FlusherIdle else FlusherTaken b t) = b"
  by simp_all

lemma sorted_wrt_filter_mono: "sorted_wrt R (xs @ ys) \<Longrightarrow> sorted_wrt R (filter P xs @ ys)"
  by (auto simp: sorted_wrt_append sorted_wrt_filter)

lemma seqs_filter: "seqs (filter (P \<circ> pc_seq) xs) = filter P (seqs xs)"
  by (induction xs) simp_all

lemma seqs_sorted_filter:
  "sorted_wrt (<) (as @ seqs (xs @ ys)) \<Longrightarrow> sorted_wrt (<) (as @ seqs (filter P xs) @ seqs ys)"
  by (auto simp: sorted_wrt_append seqs_def sorted_wrt_map sorted_wrt_filter)

lemma cp_inv_take:
  assumes inv: "cp_inv cp" and idle: "cp_flusher cp = FlusherIdle" and fl: "cp_flushing cp"
  shows "cp_inv (flush_take c cp)"
proof (cases "cp_queue cp = []")
  case True
  have "cp_inv (cp \<lparr> cp_flushing := False \<rparr>)"
    using inv True idle
    by (simp add: cp_inv_def inv_once_def inv_order_def inv_flushing_def inv_term_def inv_gone_def inv_prefix_def
        gone_def sent_def)
  then show ?thesis
    using True by (simp add: flush_take_def)
next
  case False
  let ?q = "cp_queue cp"
  let ?keep = "keeps c (cp_terminated cp) cp"
  obtain k where k: "k \<le> length ?q" and eq: "flush_take c cp =
    (fold (settle1 c) (filter (\<lambda>p. \<not> ?keep p) (take k ?q)) cp)
      \<lparr> cp_queue := drop k ?q,
        cp_flusher := (if filter ?keep (take k ?q) = [] then FlusherIdle
                       else FlusherTaken (filter ?keep (take k ?q)) (cp_token cp)) \<rparr>"
    using flush_take_char [OF False refl, of c] by blast
  define b where "b = filter ?keep (take k ?q)"
  define d where "d = filter (\<lambda>p. \<not> ?keep p) (take k ?q)"
  define cp' where "cp' = flush_take c cp"
  have fields: "cp_queue cp' = drop k ?q" "held (cp_flusher cp') = b" "inflight (cp_flusher cp') = b"
    "map fst (cp_delivered cp') = map fst (cp_delivered cp) @ seqs d"
    "cp_outstanding cp' = cp_outstanding cp - int (length d)" "cp_nextSeq cp' = cp_nextSeq cp"
    "cp_flushing cp'" "sent cp' = sent cp" "cp_terminated cp' = cp_terminated cp"
    "cp_haltErr cp' = cp_haltErr cp" "cp_cutoff cp' = cp_cutoff cp" "cp_cutoffSet cp' = cp_cutoffSet cp"
    "cp_dropped cp' = {pc_seq p |p. p \<in> set d \<and> c (pc_seq p) \<noteq> None} \<union> cp_dropped cp"
    "cp_flusher cp' \<noteq> FlusherIdle \<Longrightarrow> b \<noteq> []"
    using fl unfolding cp'_def eq b_def [symmetric] d_def [symmetric] by (auto simp: sent_def seqs_def split: if_splits)
  have split: "mset (seqs b) + mset (seqs d) = mset (seqs (take k ?q))"
    unfolding b_def d_def by (rule mset_seqs_partition)
  have whole: "mset (seqs ?q) = mset (seqs (take k ?q)) + mset (seqs (drop k ?q))"
    by (metis append_take_drop_id mset_append seqs_simps(3))
  have len: "length b + length d = k"
    unfolding b_def d_def using k sum_length_filter_compl [of ?keep "take k ?q"] by simp
  have sub: "set b \<union> set d = set (take k ?q)" "set ?q = set (take k ?q) \<union> set (drop k ?q)"
    unfolding b_def d_def using set_append [of "take k ?q" "drop k ?q"] by auto
  have "inv_once cp'"
  proof -
    have "mset (map fst (cp_delivered cp)) + mset (seqs ?q) = mset [0..<cp_nextSeq cp]"
      "cp_outstanding cp = int (length ?q)"
      using inv idle by (simp_all add: cp_inv_def inv_once_def)
    then show ?thesis
      unfolding inv_once_def fields mset_append whole split [symmetric]
      using k len by (simp add: union_assoc union_commute union_lcomm del: mset_map mset_upt)
  qed
  moreover have "inv_order cp'"
  proof -
    have "sorted_wrt (<) (seqs (sent cp) @ seqs (take k ?q @ drop k ?q))"
      using inv idle by (simp add: cp_inv_def inv_order_def)
    then have "sorted_wrt (<) (seqs (sent cp) @ seqs b @ seqs (drop k ?q))"
      unfolding b_def by (rule seqs_sorted_filter)
    moreover have "set (b @ drop k ?q) \<subseteq> set ?q"
      using sub by auto
    ultimately show ?thesis
      using inv idle unfolding inv_order_def fields cp_inv_def by auto
  qed
  moreover have "inv_flushing cp'"
    using fields by (auto simp: inv_flushing_def)
  moreover have "inv_term cp'"
    using inv idle sub unfolding inv_term_def fields sendable_cong [OF fields(12,11)]
    by (auto simp: cp_inv_def inv_term_def b_def keeps_def dest: in_set_dropD)
  moreover have gone': "gone cp' \<subseteq> gone cp \<union> {pc_seq p |p. p \<in> set d \<and> c (pc_seq p) = None}"
  proof
    have "set ?q = set b \<union> set d \<union> set (drop k ?q)"
      using sub by simp
    then show "i \<in> gone cp \<union> {pc_seq p |p. p \<in> set d \<and> c (pc_seq p) = None}" if "i \<in> gone cp'" for i
      using that idle unfolding gone_def fields by auto
  qed
  have "inv_gone cp'"
    unfolding inv_gone_def fields
  proof
    fix i
    assume "i \<in> gone cp'"
    then have "i \<in> gone cp \<or> (\<exists>p. i = pc_seq p \<and> p \<in> set d \<and> c (pc_seq p) = None)"
      using gone' by auto
    then show "cp_terminated cp \<and> (cp_haltErr cp \<noteq> None \<or> \<not> (cp_cutoffSet cp \<and> i < cp_cutoff cp))"
      using inv by (auto simp: cp_inv_def inv_gone_def d_def keeps_def sendable_def)
  qed
  moreover have "inv_prefix cp'"
    using inv by (auto simp: cp_inv_def inv_prefix_def fields)
  ultimately show ?thesis
    by (simp add: cp_inv_def cp'_def)
qed

lemma refusal_None:
  "refusal (sendable cp p) cp = None \<longleftrightarrow> \<not> cp_terminated cp \<or> (sendable cp p \<and> cp_haltErr cp = None)"
  by (auto simp: refusal_def split: option.split)

lemma cp_inv_check:
  assumes inv: "cp_inv cp" and taken: "cp_flusher cp = FlusherTaken b t"
  shows "cp_inv (flush_check b t cp)"
proof -
  have bne: "b \<noteq> []"
    using inv taken by (simp add: cp_inv_def inv_flushing_def)
  show ?thesis
  proof (cases "refusal (sendable cp (hd b)) cp")
    case (Some e)
    let ?cp = "cp \<lparr> cp_flusher := FlusherReturned b (Some e) \<rparr>"
    have dead: "cp_terminated cp" "\<not> sendable cp (hd b) \<or> cp_haltErr cp \<noteq> None"
      using refusal_None [of cp "hd b"] Some by auto
    have none: "cp_haltErr cp = None \<Longrightarrow> \<forall>p \<in> set b. \<not> sendable cp p"
      using dead inv taken bne by (auto simp: cp_inv_def inv_term_def)
    have "gone ?cp \<subseteq> gone cp \<union> set (seqs b)"
      using taken by (auto simp: gone_def sent_def)
    then have "inv_gone ?cp"
      using inv dead none by (auto simp: cp_inv_def inv_gone_def sendable_def subset_iff)
    moreover have "inv_once ?cp" "inv_flushing ?cp" "inv_prefix ?cp"
      using inv taken by (simp_all add: cp_inv_def inv_once_def inv_flushing_def inv_prefix_def sent_def)
    moreover have "sent ?cp = sent cp"
      by (simp add: sent_def)
    then have "inv_order ?cp"
      using inv taken unfolding cp_inv_def inv_order_def by (auto simp: sorted_wrt_append)
    moreover have "inv_term ?cp"
      using inv dead(1) by (simp add: cp_inv_def inv_term_def)
    ultimately have "cp_inv ?cp"
      by (simp add: cp_inv_def)
    then show ?thesis
      by (simp add: flush_check_def Some)
  next
    case None
    let ?cp = "cp \<lparr> cp_flusher := FlusherCalling b t, cp_calls := cp_calls cp @ [(t, b)] \<rparr>"
    have s: "sent ?cp = sent cp @ b"
      by (simp add: sent_def)
    have g: "gone ?cp = gone cp"
      using taken by (auto simp: gone_def s)
    have order: "inv_order ?cp"
      using inv taken by (simp add: cp_inv_def inv_order_def s)
    have earlier: "i \<in> set (seqs (sent cp @ b)) \<or> i \<in> cp_dropped cp"
      if p: "p \<in> set b" "\<not> pc_final p" and i: "i < pc_seq p" for i p
    proof (rule ccontr)
      assume not: "\<not> ?thesis"
      have "pc_seq p < cp_nextSeq cp" "\<forall>x \<in> set (cp_queue cp). pc_seq p < pc_seq x"
        using inv taken p by (auto simp: cp_inv_def inv_order_def sorted_wrt_append)
      then have "i \<in> gone cp"
        using not i taken by (fastforce simp: gone_def)
      then have dead: "cp_terminated cp" "cp_haltErr cp \<noteq> None \<or> \<not> (cp_cutoffSet cp \<and> i < cp_cutoff cp)"
        using inv by (auto simp: cp_inv_def inv_gone_def)
      then have ok: "sendable cp (hd b)" "cp_haltErr cp = None"
        using None refusal_None [of cp "hd b"] by auto
      then have "sendable cp p"
        using inv taken p bne dead by (auto simp: cp_inv_def inv_term_def)
      then show False
        using dead ok p i by (auto simp: sendable_def)
    qed
    have "inv_prefix ?cp"
      unfolding inv_prefix_def s
      using inv earlier by (auto simp: cp_inv_def inv_prefix_def)
    then have "cp_inv ?cp"
      using inv taken order g
      by (auto simp: cp_inv_def inv_once_def inv_flushing_def inv_term_def inv_gone_def)
    then show ?thesis
      by (simp add: flush_check_def None)
  qed
qed

lemma cp_inv_response:
  assumes inv: "cp_inv cp" and calling: "cp_flusher cp = FlusherCalling b t"
  shows "cp_inv (flush_response b r cp)"
proof -
  have keep: "cp_inv (cp \<lparr> cp_responses := rs, cp_token := tok, cp_state := st, cp_flusher := FlusherReturned b e \<rparr>)"
    for rs tok st e
    using inv calling
    by (simp add: cp_inv_def inv_once_def inv_order_def inv_flushing_def inv_term_def inv_gone_def inv_prefix_def
        gone_def sent_def sendable_def)
  have halted: "cp_inv ((cp_halt x (cp \<lparr> cp_responses := rs \<rparr>)) \<lparr> cp_flusher := FlusherReturned b e \<rparr>)" for rs x e
    by (rule cp_inv_terminating [OF keep [where rs = rs and tok = "cp_token cp" and st = "cp_state cp" and e = e]])
       (simp_all add: cp_halt_def cp_terminate_def)
  show ?thesis
  proof (cases r)
    case (CallErr e)
    then show ?thesis
      using halted by (simp add: flush_response_def Let_def)
  next
    case (CallOk tok ops)
    show ?thesis
      using keep [where rs = "cp_responses cp @ [r]" and tok = "cp_token cp" and st = "cp_state cp" and e = None]
        keep [where rs = "cp_responses cp @ [r]" and tok = tok and e = None] halted CallOk
      by (auto simp: flush_response_def Let_def)
  qed
qed

lemma deliver_fold:
  "map fst (cp_delivered (fold (\<lambda>p c. cp_deliver p (f p) c) b cp)) = map fst (cp_delivered cp) @ seqs b"
  "cp_outstanding (fold (\<lambda>p c. cp_deliver p (f p) c) b cp) = cp_outstanding cp - int (length b)"
  by (induction b arbitrary: cp) simp_all

lemma deliver_fold_frame:
  "fold (\<lambda>p c. cp_deliver p (f p) c) b cp =
     cp \<lparr> cp_delivered := cp_delivered cp @ map (\<lambda>p. (pc_seq p, f p)) b,
          cp_outstanding := cp_outstanding cp - int (length b) \<rparr>"
  by (induction b arbitrary: cp) (simp_all add: cp_deliver_def)

lemma cp_inv_deliver:
  assumes inv: "cp_inv cp" and ret: "cp_flusher cp = FlusherReturned b e"
  shows "cp_inv (flush_deliver b e cp)"
  using inv ret
  by (auto simp: flush_deliver_def Let_def deliver_fold_frame cp_inv_def inv_once_def inv_order_def inv_flushing_def
      inv_term_def inv_gone_def inv_prefix_def gone_def sent_def sendable_def seqs_def comp_def ac_simps)

lemma cp_inv_step: "cp_step a cp = Some cp' \<Longrightarrow> cp_inv cp \<Longrightarrow> cp_inv cp'"
  by (cases a)
     (auto simp: cp_step_def cp_checkpoint_def cp_checkpointFinal_def cp_inv_submit cp_inv_terminate
        cp_inv_terminateAtQueueEnd cp_inv_halt cp_inv_take cp_inv_check cp_inv_response cp_inv_deliver
      split: if_splits flusher.splits)

interpretation cps: step_system cp_step cp_inv
  by unfold_locales (rule cp_inv_step)

end
