(* ===== verification/Checkpointer_Trace.thy ===== *)
theory Checkpointer_Trace
  imports Checkpointer_Inv
begin

text \<open>
  What the client sees of the checkpointer: the chain of tokens, the silence
  after a failed or withheld call, the first cause that ends the invocation,
  and that the flusher empties its queue.
\<close>

section \<open>Tokens and halting calls\<close>

definition rotateToken :: "string \<Rightarrow> clientResponse \<Rightarrow> string" where
  "rotateToken tok r = (case r of CallOk t _ \<Rightarrow> if t = '''' then tok else t | CallErr _ \<Rightarrow> tok)"

definition halting :: "pendingCheckpoint list \<Rightarrow> clientResponse \<Rightarrow> bool" where
  "halting b r \<longleftrightarrow> (case r of CallErr _ \<Rightarrow> True
     | CallOk t _ \<Rightarrow> t = '''' \<and> \<not> carriesExecutionUpdate (batch_updates b))"

definition calling :: "flusher \<Rightarrow> nat" where
  "calling f = (case f of FlusherCalling _ _ \<Rightarrow> 1 | _ \<Rightarrow> 0)"

definition inv_tokens :: "string \<Rightarrow> checkpointer \<Rightarrow> bool" where
  "inv_tokens tok0 cp \<longleftrightarrow>
     cp_token cp = foldl rotateToken tok0 (cp_responses cp) \<and>
     length (cp_calls cp) = length (cp_responses cp) + calling (cp_flusher cp) \<and>
     (\<forall>i < length (cp_calls cp). fst (cp_calls cp ! i) = foldl rotateToken tok0 (take i (cp_responses cp))) \<and>
     (case cp_flusher cp of FlusherTaken b t \<Rightarrow> t = cp_token cp
        | FlusherCalling b t \<Rightarrow> cp_calls cp \<noteq> [] \<and> snd (last (cp_calls cp)) = b | _ \<Rightarrow> True)"

definition inv_halts :: "checkpointer \<Rightarrow> bool" where
  "inv_halts cp \<longleftrightarrow>
     (\<forall>i < length (cp_responses cp). halting (snd (cp_calls cp ! i)) (cp_responses cp ! i) \<longrightarrow>
        cp_haltErr cp \<noteq> None \<and> Suc i = length (cp_calls cp))"

definition cp_traced :: "string \<Rightarrow> checkpointer \<Rightarrow> bool" where
  "cp_traced tok0 cp \<longleftrightarrow> cp_inv cp \<and> inv_tokens tok0 cp \<and> inv_halts cp"

lemma cp_traced_new: "cp_traced tok (newCheckpointer tok st)"
  unfolding cp_traced_def using cp_inv_new [of tok st]
  by (simp add: inv_tokens_def inv_halts_def newCheckpointer_def calling_def)

lemma traced_frame:
  assumes "inv_tokens tok0 cp" "inv_halts cp"
    and "cp_token cp' = cp_token cp" "cp_responses cp' = cp_responses cp" "cp_calls cp' = cp_calls cp"
    and "cp_flusher cp' = cp_flusher cp" "cp_haltErr cp \<noteq> None \<longrightarrow> cp_haltErr cp' \<noteq> None"
  shows "inv_tokens tok0 cp' \<and> inv_halts cp'"
  using assms by (cases "cp_flusher cp") (simp_all add: inv_tokens_def inv_halts_def)

lemma flush_take_fields:
  "cp_token (flush_take c cp) = cp_token cp" "cp_responses (flush_take c cp) = cp_responses cp"
  "cp_calls (flush_take c cp) = cp_calls cp" "cp_haltErr (flush_take c cp) = cp_haltErr cp"
  "cp_terminated (flush_take c cp) = cp_terminated cp" "cp_cutoffSet (flush_take c cp) = cp_cutoffSet cp"
  "cp_cutoff (flush_take c cp) = cp_cutoff cp" "cp_nextSeq (flush_take c cp) = cp_nextSeq cp"
  using flush_take_char [of cp "cp_queue cp" c]
  by (cases "cp_queue cp = []"; force simp: flush_take_def)+

lemma flush_take_flusher:
  "cp_flusher cp = FlusherIdle \<Longrightarrow>
   cp_flusher (flush_take c cp) = FlusherIdle \<or> (\<exists>b. cp_flusher (flush_take c cp) = FlusherTaken b (cp_token cp))"
  by (auto simp: flush_take_def split: prod.split)

lemma flush_take_queue:
  assumes "cp_queue cp \<noteq> []"
  shows "length (cp_queue (flush_take c cp)) < length (cp_queue cp)"
proof -
  obtain k where k: "k \<le> length (cp_queue cp)" "cp_queue (flush_take c cp) = drop k (cp_queue cp)"
    "k < length (cp_queue cp) \<longrightarrow> filter (keeps c (cp_terminated cp) cp) (take k (cp_queue cp)) \<noteq> []"
    using flush_take_char [OF assms refl, of c] by auto
  then have "k \<noteq> 0"
    using assms by (cases k) auto
  then show ?thesis
    using k assms by simp
qed

lemma traced_take:
  assumes "inv_tokens tok0 cp" "inv_halts cp" "cp_flusher cp = FlusherIdle"
  shows "inv_tokens tok0 (flush_take c cp) \<and> inv_halts (flush_take c cp)"
  using assms flush_take_flusher [of cp c]
  by (auto simp: inv_tokens_def inv_halts_def flush_take_fields calling_def)

lemma traced_check:
  assumes tr: "cp_traced tok0 cp" and f: "cp_flusher cp = FlusherTaken b t"
  shows "inv_tokens tok0 (flush_check b t cp) \<and> inv_halts (flush_check b t cp)"
proof (cases "refusal (sendable cp (hd b)) cp")
  case (Some e)
  then show ?thesis
    using tr f by (simp add: cp_traced_def flush_check_def inv_tokens_def inv_halts_def calling_def)
next
  case None
  have "cp_haltErr cp = None"
    using None tr refusal_None [of cp "hd b"] by (auto simp: cp_traced_def cp_inv_def inv_term_def)
  then show ?thesis
    using tr f None
    by (auto simp: cp_traced_def flush_check_def inv_tokens_def inv_halts_def calling_def nth_append less_Suc_eq)
qed

lemma foldl_rotateToken_snoc: "foldl rotateToken tok (rs @ [r]) = rotateToken (foldl rotateToken tok rs) r"
  by simp

lemma flush_response_fields:
  "cp_responses (flush_response b r cp) = cp_responses cp @ [r]"
  "cp_calls (flush_response b r cp) = cp_calls cp"
  "cp_token (flush_response b r cp) = rotateToken (cp_token cp) r"
  "calling (cp_flusher (flush_response b r cp)) = 0"
  "\<exists>e. cp_flusher (flush_response b r cp) = FlusherReturned b e"
  "cp_haltErr cp \<noteq> None \<Longrightarrow> cp_haltErr (flush_response b r cp) = cp_haltErr cp"
  "halting b r \<Longrightarrow> cp_haltErr (flush_response b r cp) \<noteq> None"
  "cp_queue (flush_response b r cp) = cp_queue cp" "cp_flushing (flush_response b r cp) = cp_flushing cp"
  by (auto simp: flush_response_def Let_def rotateToken_def cp_halt_def cp_terminate_def calling_def halting_def
      split: clientResponse.split)

lemma traced_response:
  assumes tok: "inv_tokens tok0 cp" and ha: "inv_halts cp" and f: "cp_flusher cp = FlusherCalling b t"
  shows "inv_tokens tok0 (flush_response b r cp) \<and> inv_halts (flush_response b r cp)"
proof -
  let ?cp = "flush_response b r cp"
  have len: "length (cp_calls cp) = Suc (length (cp_responses cp))"
    and lst: "snd (cp_calls cp ! length (cp_responses cp)) = b"
    using tok f by (auto simp: inv_tokens_def calling_def last_conv_nth)
  obtain e where ret: "cp_flusher ?cp = FlusherReturned b e"
    using flush_response_fields(5) by blast
  have "inv_tokens tok0 ?cp"
    using tok len ret by (simp add: inv_tokens_def flush_response_fields calling_def)
  moreover have "inv_halts ?cp"
    unfolding inv_halts_def flush_response_fields
  proof (intro allI impI)
    fix i
    assume i: "i < length (cp_responses cp @ [r])"
      and h: "halting (snd (cp_calls cp ! i)) ((cp_responses cp @ [r]) ! i)"
    show "cp_haltErr ?cp \<noteq> None \<and> Suc i = length (cp_calls cp)"
    proof (cases "i = length (cp_responses cp)")
      case True
      then show ?thesis
        using h lst len flush_response_fields(7) [of b r cp] by simp
    next
      case False
      then have "i < length (cp_responses cp)" "halting (snd (cp_calls cp ! i)) (cp_responses cp ! i)"
        using i h by (simp_all add: nth_append)
      then have "Suc i = length (cp_calls cp)"
        using ha by (simp add: inv_halts_def)
      then show ?thesis
        using \<open>i < length (cp_responses cp)\<close> len by simp
    qed
  qed
  ultimately show ?thesis by simp
qed

lemma traced_deliver:
  assumes "inv_tokens tok0 cp" "inv_halts cp" "cp_flusher cp = FlusherReturned b e"
  shows "inv_tokens tok0 (flush_deliver b e cp) \<and> inv_halts (flush_deliver b e cp)"
  using assms
  by (simp add: flush_deliver_def Let_def deliver_fold_frame inv_tokens_def inv_halts_def calling_def)

lemma traced_step: "cp_step a cp = Some cp' \<Longrightarrow> cp_traced tok0 cp \<Longrightarrow> cp_traced tok0 cp'"
proof -
  assume step: "cp_step a cp = Some cp'" and tr: "cp_traced tok0 cp"
  have inv: "cp_inv cp'"
    using cp_inv_step [OF step] tr by (simp add: cp_traced_def)
  have "inv_tokens tok0 cp' \<and> inv_halts cp'"
  proof (cases a)
    case (ATake c)
    then show ?thesis
      using step tr traced_take [of tok0 cp c] by (auto simp: cp_step_def cp_traced_def split: if_splits)
  next
    case ACheck
    then show ?thesis
      using step tr traced_check [of tok0 cp] by (auto simp: cp_step_def split: flusher.splits)
  next
    case (AResponse r)
    then show ?thesis
      using step tr traced_response [of tok0 cp] by (auto simp: cp_step_def cp_traced_def split: flusher.splits)
  next
    case ADeliver
    then show ?thesis
      using step tr traced_deliver [of tok0 cp] by (auto simp: cp_step_def cp_traced_def split: flusher.splits)
  qed (use step tr in \<open>auto simp: cp_step_def cp_traced_def cp_checkpoint_def cp_checkpointFinal_def cp_terminate_def
        terminateAtQueueEnd_def cp_halt_def Let_def intro!: traced_frame [of tok0 cp, THEN conjunct1]
        traced_frame [of tok0 cp, THEN conjunct2] split: if_splits\<close>)
  then show ?thesis
    using inv by (simp add: cp_traced_def)
qed

section \<open>What never changes back\<close>

definition cp_after :: "checkpointer \<Rightarrow> checkpointer \<Rightarrow> bool" where
  "cp_after cp cp' \<longleftrightarrow>
     (cp_terminated cp \<longrightarrow> cp_terminated cp' \<and> cp_cutoffSet cp' = cp_cutoffSet cp \<and> cp_cutoff cp' = cp_cutoff cp) \<and>
     (cp_haltErr cp \<noteq> None \<longrightarrow> cp_haltErr cp' = cp_haltErr cp) \<and>
     prefix (cp_calls cp) (cp_calls cp') \<and> cp_nextSeq cp \<le> cp_nextSeq cp'"

lemma cp_after_refl: "cp_after cp cp"
  by (simp add: cp_after_def)

lemma cp_after_trans: "cp_after a b \<Longrightarrow> cp_after b c \<Longrightarrow> cp_after a c"
  by (auto simp: cp_after_def)

lemma flush_response_after: "cp_after cp (flush_response b r cp)"
  by (auto simp: cp_after_def flush_response_def Let_def cp_halt_def cp_terminate_def split: clientResponse.split)

lemma cp_step_after: "cp_step a cp = Some cp' \<Longrightarrow> cp_after cp cp'"
  by (cases a)
     (auto simp: cp_step_def cp_after_def cp_checkpoint_def cp_checkpointFinal_def cp_terminate_def
        terminateAtQueueEnd_def cp_halt_def flush_take_fields flush_check_def flush_deliver_def Let_def
        deliver_fold_frame flush_response_after [unfolded cp_after_def] split: if_splits flusher.splits option.splits)

interpretation cpt: monotone_step_system cp_step "cp_traced tok0" cp_after for tok0
  by unfold_locales (auto intro: traced_step cp_after_refl cp_after_trans cp_step_after)

section \<open>The flusher empties its queue\<close>

text \<open>
  The flush loop, one stage per step, against a client that answers every
  call; the fuel counts stages.
\<close>

definition flush_stage :: "(nat \<Rightarrow> goErr option) \<Rightarrow> (string \<Rightarrow> pendingCheckpoint list \<Rightarrow> clientResponse) \<Rightarrow>
    checkpointer \<Rightarrow> checkpointer" where
  "flush_stage ctxErr client cp =
     (case cp_flusher cp of
        FlusherIdle \<Rightarrow> flush_take ctxErr cp
      | FlusherTaken b t \<Rightarrow> flush_check b t cp
      | FlusherCalling b t \<Rightarrow> flush_response b (client t b) cp
      | FlusherReturned b e \<Rightarrow> flush_deliver b e cp)"

fun flush_loop :: "nat \<Rightarrow> (nat \<Rightarrow> goErr option) \<Rightarrow> (string \<Rightarrow> pendingCheckpoint list \<Rightarrow> clientResponse) \<Rightarrow>
    checkpointer \<Rightarrow> checkpointer" where
  "flush_loop 0 ctxErr client cp = cp"
| "flush_loop (Suc n) ctxErr client cp =
     (if \<not> cp_flushing cp then cp else flush_loop n ctxErr client (flush_stage ctxErr client cp))"

definition stage_work :: "flusher \<Rightarrow> nat" where
  "stage_work f = (case f of FlusherIdle \<Rightarrow> 0 | FlusherReturned _ _ \<Rightarrow> 1 | FlusherCalling _ _ \<Rightarrow> 2 | FlusherTaken _ _ \<Rightarrow> 3)"

definition flush_work :: "checkpointer \<Rightarrow> nat" where
  "flush_work cp = 4 * length (cp_queue cp) + stage_work (cp_flusher cp) + (if cp_flushing cp then 1 else 0)"

lemma flush_loop_stage:
  assumes "cp_inv cp" and "cp_flushing cp"
  shows "cp_inv (flush_stage c client cp) \<and> flush_work (flush_stage c client cp) < flush_work cp"
proof (cases "cp_flusher cp")
  case FlusherIdle
  have inv: "cp_inv (flush_take c cp)"
    by (rule cp_inv_take [OF assms(1) FlusherIdle assms(2)])
  show ?thesis
  proof (cases "cp_queue cp = []")
    case True
    then show ?thesis
      using inv FlusherIdle assms(2) by (simp add: flush_stage_def flush_work_def flush_take_def stage_work_def)
  next
    case False
    have "stage_work (cp_flusher (flush_take c cp)) \<le> 3" "stage_work (cp_flusher cp) = 0"
      using FlusherIdle by (simp_all add: stage_work_def split: flusher.split)
    then show ?thesis
      using inv FlusherIdle flush_take_queue [OF False, of c] assms(2)
      by (auto simp: flush_stage_def flush_work_def)
  qed
next
  case (FlusherTaken b t)
  then show ?thesis
    using cp_inv_check [OF assms(1) FlusherTaken] assms(2)
    by (simp add: flush_stage_def flush_work_def flush_check_def stage_work_def split: option.split)
next
  case (FlusherCalling b t)
  obtain e where "cp_flusher (flush_response b (client t b) cp) = FlusherReturned b e"
    using flush_response_fields(5) by blast
  then show ?thesis
    using cp_inv_response [OF assms(1) FlusherCalling] FlusherCalling assms(2)
    by (simp add: flush_stage_def flush_work_def flush_response_fields stage_work_def)
next
  case (FlusherReturned b e)
  then show ?thesis
    using cp_inv_deliver [OF assms(1) FlusherReturned] assms(2)
    by (simp add: flush_stage_def flush_work_def flush_deliver_def Let_def deliver_fold_frame stage_work_def)
qed

lemma flush_loop_drains:
  "cp_inv cp \<Longrightarrow> flush_work cp \<le> n \<Longrightarrow>
   cp_inv (flush_loop n c client cp) \<and> \<not> cp_flushing (flush_loop n c client cp)"
proof (induction n arbitrary: cp)
  case 0
  then show ?case by (simp add: flush_work_def split: if_splits)
next
  case (Suc n)
  then show ?case
    using flush_loop_stage [of cp c client] by (auto simp: Let_def)
qed

lemma stopped_settled:
  assumes "cp_inv cp" and "\<not> cp_flushing cp"
  shows "cp_queue cp = []" "cp_flusher cp = FlusherIdle" "cp_outstanding cp = 0"
    "mset (map fst (cp_delivered cp)) = mset [0..<cp_nextSeq cp]"
  using assms by (auto simp: cp_inv_def inv_flushing_def inv_once_def)

section \<open>Properties\<close>

lemma reachable_traced:
  "cp_run as (newCheckpointer tok st) = Some cp \<Longrightarrow> cp_traced tok cp"
  using cpt.run_inv cp_traced_new by blast

lemmas cp_invs = cp_traced_def cp_inv_def

lemmas cp_eval = cp_step_def cp_checkpoint_def cp_checkpointFinal_def cp_submit_def newCheckpointer_def flush_take_def
  checkpointBatchLimitBytes_def checkpointMaxBatchUpdates_def checkpointBatchOverheadBytes_def
  flush_check_def refusal_def flush_response_def flush_deliver_def Let_def cp_deliver_def
  terminateAtQueueEnd_def cp_terminate_def cp_halt_def sendable_def carriesExecutionUpdate_def batch_updates_def

text \<open>C14: For every sequence of actions of a checkpointer (submits, terminations, halts and flusher stages, any
  contexts done and any client responses), each request ever queued is at every moment in exactly one place:
  still in the queue, in the flusher's batch, or delivered; no request is lost and none is answered twice, and
  the outstanding count that holds back suspension is the number of those not yet answered.\<close>
theorem requests_delivered_exactly_once:
  assumes "cp_run as (newCheckpointer tok st) = Some cp"
  shows "distinct (map fst (cp_delivered cp) @ seqs (inflight (cp_flusher cp)) @ seqs (cp_queue cp)) \<and>
         set (map fst (cp_delivered cp) @ seqs (inflight (cp_flusher cp)) @ seqs (cp_queue cp)) = {0..<cp_nextSeq cp} \<and>
         cp_outstanding cp = int (cp_nextSeq cp - length (cp_delivered cp))"
proof -
  let ?xs = "map fst (cp_delivered cp) @ seqs (inflight (cp_flusher cp)) @ seqs (cp_queue cp)"
  have once: "mset ?xs = mset [0..<cp_nextSeq cp]"
    and out: "cp_outstanding cp = int (length (inflight (cp_flusher cp)) + length (cp_queue cp))"
    using reachable_traced [OF assms] by (simp_all add: cp_invs inv_once_def ac_simps)
  have "distinct ?xs"
    using mset_eq_imp_distinct_iff [OF once] by simp
  moreover have "set ?xs = {0..<cp_nextSeq cp}"
    using mset_eq_setD [OF once] by simp
  moreover have "length ?xs = cp_nextSeq cp"
    using mset_eq_length [OF once] by simp
  ultimately show ?thesis
    using out by simp
qed

definition ex_update :: "string \<Rightarrow> operationType \<Rightarrow> operationUpdate" where
  "ex_update i ty = mkUpdate i ty OperationActionStart"

theorem requests_delivered_exactly_once_witness:
  "\<exists>cp. cp_run [ASubmit [ex_update ''a'' OperationTypeStep] 10, ASubmit [ex_update ''b'' OperationTypeWait] 10,
        ATake (\<lambda>_. None), ACheck, AResponse (CallOk ''t1'' None), ADeliver] (newCheckpointer ''t0'' None) = Some cp \<and>
     distinct (map fst (cp_delivered cp) @ seqs (inflight (cp_flusher cp)) @ seqs (cp_queue cp)) \<and>
     set (map fst (cp_delivered cp) @ seqs (inflight (cp_flusher cp)) @ seqs (cp_queue cp)) = {0..<cp_nextSeq cp} \<and>
     cp_outstanding cp = int (cp_nextSeq cp - length (cp_delivered cp)) \<and> length (cp_delivered cp) = 2"
proof -
  let ?as = "[ASubmit [ex_update ''a'' OperationTypeStep] 10, ASubmit [ex_update ''b'' OperationTypeWait] 10,
        ATake (\<lambda>_. None), ACheck, AResponse (CallOk ''t1'' None), ADeliver]"
  have ev: "cp_run ?as (newCheckpointer ''t0'' None) \<noteq> None \<and>
      length (cp_delivered (the (cp_run ?as (newCheckpointer ''t0'' None)))) = 2"
    by (simp add: cp_eval)
  obtain cp where cp: "cp_run ?as (newCheckpointer ''t0'' None) = Some cp"
    using ev by blast
  show ?thesis
    by (rule exI [of _ cp]) (use cp ev requests_delivered_exactly_once [OF cp] in simp)
qed

text \<open>C15: The service only ever receives a prefix of the queue: whenever a request other than the invocation's
  final write has been put in a client call, every request queued before it was put in a call too, unless its own
  context was done before it could be sent.  Requests travel in queue order within and across calls.\<close>
theorem service_receives_queue_prefix:
  assumes "cp_run as (newCheckpointer tok st) = Some cp"
  shows "sorted_wrt (<) (map pc_seq (concat (map snd (cp_calls cp)))) \<and>
         (\<forall>p \<in> set (concat (map snd (cp_calls cp))). \<not> pc_final p \<longrightarrow>
            (\<forall>i < pc_seq p. i \<in> pc_seq ` set (concat (map snd (cp_calls cp))) \<or> i \<in> cp_dropped cp))"
proof -
  have "inv_order cp" "inv_prefix cp"
    using reachable_traced [OF assms] by (simp_all add: cp_invs)
  then show ?thesis
    by (simp add: inv_order_def inv_prefix_def sent_def sorted_wrt_append seqs_def)
qed

theorem service_receives_queue_prefix_witness:
  "\<exists>cp. cp_run [ASubmit [ex_update ''a'' OperationTypeStep] 10, ATake (\<lambda>_. None),
        ASubmit [ex_update ''b'' OperationTypeWait] 10, ATerminateAtQueueEnd, ASubmitFinal [ex_update ''x'' OperationTypeExecution] 5,
        ACheck, AResponse (CallOk ''t1'' None), ADeliver, ATake (\<lambda>_. None), ACheck] (newCheckpointer ''t0'' None) = Some cp \<and>
     map pc_seq (concat (map snd (cp_calls cp))) = [0, 1, 2] \<and>
     (\<forall>p \<in> set (concat (map snd (cp_calls cp))). \<not> pc_final p \<longrightarrow>
            (\<forall>i < pc_seq p. i \<in> pc_seq ` set (concat (map snd (cp_calls cp))) \<or> i \<in> cp_dropped cp))"
proof -
  let ?as = "[ASubmit [ex_update ''a'' OperationTypeStep] 10, ATake (\<lambda>_. None),
        ASubmit [ex_update ''b'' OperationTypeWait] 10, ATerminateAtQueueEnd, ASubmitFinal [ex_update ''x'' OperationTypeExecution] 5,
        ACheck, AResponse (CallOk ''t1'' None), ADeliver, ATake (\<lambda>_. None), ACheck]"
  have ev: "cp_run ?as (newCheckpointer ''t0'' None) \<noteq> None \<and>
      map pc_seq (concat (map snd (cp_calls (the (cp_run ?as (newCheckpointer ''t0'' None)))))) = [0, 1, 2]"
    by (simp add: cp_eval)
  obtain cp where cp: "cp_run ?as (newCheckpointer ''t0'' None) = Some cp"
    using ev by blast
  show ?thesis
    by (rule exI [of _ cp]) (use cp ev service_receives_queue_prefix [OF cp] in simp)
qed

text \<open>C18: The token chain and the silence after a failure: the first call carries the invocation's initial token,
  every later call the token the previous successful response rotated to; and a call that failed, or whose
  response withheld the token although it did not carry the execution's terminal update, is the last call the
  client ever receives from this invocation.\<close>
theorem token_chain_and_silence_after_halt:
  assumes "cp_run as (newCheckpointer tok st) = Some cp"
  shows "(\<forall>i < length (cp_calls cp). fst (cp_calls cp ! i) = foldl rotateToken tok (take i (cp_responses cp))) \<and>
         (\<forall>i < length (cp_responses cp). halting (snd (cp_calls cp ! i)) (cp_responses cp ! i) \<longrightarrow>
            Suc i = length (cp_calls cp) \<and> cp_terminated cp \<and> cp_haltErr cp \<noteq> None)"
proof -
  have inv: "inv_tokens tok cp" "inv_halts cp" "inv_term cp"
    using reachable_traced [OF assms] by (simp_all add: cp_invs)
  have "cp_haltErr cp \<noteq> None \<Longrightarrow> cp_terminated cp"
    using inv(3) by (auto simp: inv_term_def)
  then show ?thesis
    using inv(1,2) by (auto simp: inv_tokens_def inv_halts_def)
qed

theorem token_chain_and_silence_after_halt_witness:
  "\<exists>cp. cp_run [ASubmit [ex_update ''a'' OperationTypeStep] 10, ATake (\<lambda>_. None), ACheck, AResponse (CallOk ''t1'' None),
        ADeliver, ASubmit [ex_update ''b'' OperationTypeWait] 10, ATake (\<lambda>_. None), ACheck,
        AResponse (CallErr (Err (KPlain ''net'' ''timeout'') []))] (newCheckpointer ''t0'' None) = Some cp \<and>
     (\<forall>i < length (cp_calls cp). fst (cp_calls cp ! i) = foldl rotateToken ''t0'' (take i (cp_responses cp))) \<and>
     (\<forall>i < length (cp_responses cp). halting (snd (cp_calls cp ! i)) (cp_responses cp ! i) \<longrightarrow>
            Suc i = length (cp_calls cp) \<and> cp_terminated cp \<and> cp_haltErr cp \<noteq> None) \<and>
     map fst (cp_calls cp) = [''t0'', ''t1'']"
proof -
  let ?as = "[ASubmit [ex_update ''a'' OperationTypeStep] 10, ATake (\<lambda>_. None), ACheck, AResponse (CallOk ''t1'' None),
        ADeliver, ASubmit [ex_update ''b'' OperationTypeWait] 10, ATake (\<lambda>_. None), ACheck,
        AResponse (CallErr (Err (KPlain ''net'' ''timeout'') []))]"
  have ev: "cp_run ?as (newCheckpointer ''t0'' None) \<noteq> None \<and>
      map fst (cp_calls (the (cp_run ?as (newCheckpointer ''t0'' None)))) = [''t0'', ''t1'']"
    by (simp add: cp_eval)
  obtain cp where cp: "cp_run ?as (newCheckpointer ''t0'' None) = Some cp"
    using ev by blast
  show ?thesis
    by (rule exI [of _ cp]) (use cp ev token_chain_and_silence_after_halt [OF cp] in simp)
qed

text \<open>C19: Termination, the cutoff and the cause the invocation ends with are decided once: whatever happens later,
  a terminated checkpointer stays terminated with the same cutoff and the first halt cause recorded is the one the
  handler reads, and what was sent stays sent.\<close>
theorem first_halt_cause_wins:
  assumes "cp_run as (newCheckpointer tok st) = Some cp" and "cp_run bs cp = Some cp'"
  shows "(cp_haltErr cp \<noteq> None \<longrightarrow> cp_haltErr cp' = cp_haltErr cp) \<and>
         (cp_terminated cp \<longrightarrow> cp_terminated cp' \<and> cp_cutoffSet cp' = cp_cutoffSet cp \<and> cp_cutoff cp' = cp_cutoff cp) \<and>
         prefix (cp_calls cp) (cp_calls cp')"
  using cpt.run_rel [OF assms(2) reachable_traced [OF assms(1)]] by (simp add: cp_after_def)

theorem first_halt_cause_wins_witness:
  "\<exists>cp cp'. cp_run [AHalt (Err (KSerdesInvocationEnd ''s'' ''marshal'') [])] (newCheckpointer ''t0'' None) = Some cp \<and>
     cp_run [AHalt (sentinelErr errSuspendExecution), ATerminateAtQueueEnd] cp = Some cp' \<and>
     (cp_haltErr cp \<noteq> None \<longrightarrow> cp_haltErr cp' = cp_haltErr cp) \<and>
     (cp_terminated cp \<longrightarrow> cp_terminated cp' \<and> cp_cutoffSet cp' = cp_cutoffSet cp \<and> cp_cutoff cp' = cp_cutoff cp) \<and>
     cp_haltErr cp' = Some (Err (KSerdesInvocationEnd ''s'' ''marshal'') [])"
proof -
  obtain cp where cp: "cp_run [AHalt (Err (KSerdesInvocationEnd ''s'' ''marshal'') [])] (newCheckpointer ''t0'' None) = Some cp"
    "cp_haltErr cp = Some (Err (KSerdesInvocationEnd ''s'' ''marshal'') [])"
    by (simp add: cp_eval)
  obtain cp' where cp': "cp_run [AHalt (sentinelErr errSuspendExecution), ATerminateAtQueueEnd] cp = Some cp'"
    by (simp add: cp_step_def)
  show ?thesis
    using cp cp' first_halt_cause_wins [OF cp(1) cp'] by (intro exI [of _ cp] exI [of _ cp']) simp
qed

text \<open>C20: The flusher always finishes: from every reachable state, against a client that answers each call, the
  flush loop stops within four stages per queued request (plus the stage under way), with the queue empty, every
  request ever queued answered, and nothing outstanding.\<close>
theorem flush_loop_answers_every_request:
  assumes "cp_run as (newCheckpointer tok st) = Some cp" and "flush_work cp \<le> n"
  shows "\<exists>cp'. flush_loop n ctxErr client cp = cp' \<and> \<not> cp_flushing cp' \<and> cp_queue cp' = [] \<and> cp_outstanding cp' = 0 \<and>
           mset (map fst (cp_delivered cp')) = mset [0..<cp_nextSeq cp']"
proof -
  have "cp_inv cp"
    using reachable_traced [OF assms(1)] by (simp add: cp_traced_def)
  then have "cp_inv (flush_loop n ctxErr client cp)" "\<not> cp_flushing (flush_loop n ctxErr client cp)"
    using flush_loop_drains assms(2) by blast+
  then show ?thesis
    using stopped_settled by blast
qed

theorem flush_loop_answers_every_request_witness:
  "\<exists>cp cp'. cp_run [ASubmit [] 3, ASubmit [] 4] (newCheckpointer ''t0'' None) = Some cp \<and> flush_work cp \<le> 9 \<and>
     flush_loop 9 (\<lambda>_. None) (\<lambda>t b. CallErr (sentinelErr errSuspendExecution)) cp = cp' \<and>
     \<not> cp_flushing cp' \<and> cp_queue cp' = [] \<and> cp_outstanding cp' = 0"
proof -
  obtain cp where cp: "cp_run [ASubmit [] 3, ASubmit [] 4] (newCheckpointer ''t0'' None) = Some cp" "flush_work cp \<le> 9"
    by (simp add: cp_eval flush_work_def stage_work_def)
  show ?thesis
    using cp flush_loop_answers_every_request [OF cp] by blast
qed

text \<open>C26: A client call carries more than one request only within the limits: the token, the envelope overhead and
  the requests' sizes stay at or below 750 KiB, and the updates at or below 250.\<close>
theorem batches_respect_limits:
  assumes "cp_flusher cp = FlusherIdle" and "cp_flusher (flush_take ctxErr cp) = FlusherTaken b t" and "length b > 1"
  shows "length t + 100 + sum_list (map pc_size b) \<le> 750 * 1024 \<and> length (batch_updates b) \<le> 250"
proof -
  have ne: "cp_queue cp \<noteq> []"
    using assms(1,2) by (auto simp: flush_take_def)
  obtain b' r cp' where tb: "takeBatch ctxErr (cp_terminated cp) (cp_queue cp) [] 0
      (length (cp_token cp) + checkpointBatchOverheadBytes) cp = (b', r, cp')"
    by (metis prod_cases3)
  then have "b' = b" "t = cp_token cp"
    using assms(2) ne by (auto simp: flush_take_def split: if_splits)
  then show ?thesis
    using takeBatch_within_limits [OF tb] assms(3)
    by (simp add: batch_size_def checkpointBatchLimitBytes_def checkpointMaxBatchUpdates_def checkpointBatchOverheadBytes_def)
qed

theorem batches_respect_limits_witness:
  "\<exists>cp b t. cp_run [ASubmit [] 3, ASubmit [] 4, ASubmit [] 767999] (newCheckpointer ''t0'' None) = Some cp \<and>
     cp_flusher (flush_take (\<lambda>_. None) cp) = FlusherTaken b t \<and> length b = 2 \<and>
     length t + 100 + sum_list (map pc_size b) \<le> 750 * 1024 \<and> length (batch_updates b) \<le> 250"
proof -
  let ?as = "[ASubmit [] 3, ASubmit [] 4, ASubmit [] 767999]"
  obtain cp b t where cp: "cp_run ?as (newCheckpointer ''t0'' None) = Some cp"
     "cp_flusher (flush_take (\<lambda>_. None) cp) = FlusherTaken b t" "length b = 2" "cp_flusher cp = FlusherIdle"
    by (simp add: cp_eval)
  show ?thesis
    using cp batches_respect_limits [OF cp(4,2)] by (intro exI [of _ cp] exI [of _ b] exI [of _ t]) simp
qed

end
