(* ===== verification/Service.thy ===== *)
theory Service
  imports Go_Errors Exec_State
begin

text \<open>
  The durable execution service as the repository implements it for local runs:
  durabletest/memory_client.go and service_limits.go.  The store of operations
  with its insertion order, the rotating token, the virtual clock and the
  timers it fires, the changes not yet reported, and the operations that
  external actors settle.  The history event log is not modelled.  The size of
  a serialized error object (json.Marshal) is an argument.
\<close>

section \<open>State\<close>

record memoryClient =
  mc_token :: string
  mc_tokenSeq :: nat
  mc_operations :: "string \<rightharpoonup> apiOperation"
  mc_opOrder :: "string list"
  mc_invokeTargets :: "string \<rightharpoonup> (string \<times> string)"
  mc_omitTokenIn :: nat
  mc_clock :: time
  mc_changed :: "string list"
  mc_tokenWithheld :: bool
  mc_delivered :: "string \<rightharpoonup> wireOperation"
  mc_settled :: "string \<rightharpoonup> wireOperation"

definition newMemoryClient :: "time \<Rightarrow> memoryClient" where
  "newMemoryClient now =
     \<lparr> mc_token = ''test-token-0'', mc_tokenSeq = 0, mc_operations = Map.empty, mc_opOrder = [],
       mc_invokeTargets = Map.empty, mc_omitTokenIn = 0, mc_clock = now, mc_changed = [],
       mc_tokenWithheld = False, mc_delivered = Map.empty, mc_settled = Map.empty \<rparr>"

definition second :: time where "second = 1000000000"

section \<open>Applying an update\<close>

definition deriveStatus :: "operationAction \<Rightarrow> operationStatus" where
  "deriveStatus a = (case a of
      OperationActionStart \<Rightarrow> statusStarted
    | OperationActionSucceed \<Rightarrow> statusSucceeded
    | OperationActionFail \<Rightarrow> statusFailed
    | OperationActionRetry \<Rightarrow> statusPending
    | OperationActionCancel \<Rightarrow> statusCancelled
    | OperationActionOther s \<Rightarrow> statusOther s)"

definition stampTransition :: "time \<Rightarrow> apiOperation \<Rightarrow> apiOperation" where
  "stampTransition now op =
     (if ao_Status op = statusStarted
      then (if ao_StartTimestamp op = None then op \<lparr> ao_StartTimestamp := Some now \<rparr> else op)
      else if status_terminal (ao_Status op) then op \<lparr> ao_EndTimestamp := Some now \<rparr>
      else op)"

definition buildStepDetails :: "operationUpdate \<Rightarrow> apiOperation option \<Rightarrow> time \<Rightarrow> apiStepDetails" where
  "buildStepDetails u existing now =
     (let attempt = (case existing of None \<Rightarrow> 0
             | Some e \<Rightarrow> (case ao_StepDetails e of None \<Rightarrow> 0 | Some sd \<Rightarrow> asd_Attempt sd))
      in \<lparr> asd_Attempt = (if ou_Action u = OperationActionFail \<or> ou_Action u = OperationActionRetry
                          then attempt + 1 else attempt),
           asd_Result = ou_Payload u, asd_Error = ou_Error u,
           asd_NextAttemptTimestamp =
             (if ou_Action u = OperationActionRetry
              then Some (now + (case ou_NextAttemptDelaySeconds u of None \<Rightarrow> 0 | Some d \<Rightarrow> d) * second) else None) \<rparr>)"

definition buildWaitDetails :: "operationUpdate \<Rightarrow> apiOperation option \<Rightarrow> time \<Rightarrow> apiWaitDetails option" where
  "buildWaitDetails u existing now =
     (if ou_Action u \<noteq> OperationActionStart
      then (case existing of None \<Rightarrow> None | Some e \<Rightarrow> ao_WaitDetails e)
      else Some \<lparr> awd_ScheduledEndTimestamp =
             Some (now + (case ou_WaitSeconds u of None \<Rightarrow> 0 | Some s \<Rightarrow> s) * second) \<rparr>)"

definition buildCallbackDetails :: "operationUpdate \<Rightarrow> apiOperation option \<Rightarrow> apiCallbackDetails" where
  "buildCallbackDetails u existing =
     (let cid = (case existing of None \<Rightarrow> ou_Id u
             | Some e \<Rightarrow> (case ao_CallbackDetails e of None \<Rightarrow> ou_Id u
                 | Some cd \<Rightarrow> (case acb_CallbackId cd of None \<Rightarrow> ou_Id u | Some c \<Rightarrow> Some c)))
      in if ou_Action u = OperationActionStart
         then \<lparr> acb_CallbackId = cid, acb_Result = None, acb_Error = None \<rparr>
         else \<lparr> acb_CallbackId = cid, acb_Result = ou_Payload u, acb_Error = ou_Error u \<rparr>)"

definition buildChainedInvokeDetails :: "operationUpdate \<Rightarrow> apiInvokeDetails" where
  "buildChainedInvokeDetails u =
     (if ou_Action u = OperationActionStart then \<lparr> aid_Result = None, aid_Error = None \<rparr>
      else \<lparr> aid_Result = ou_Payload u, aid_Error = ou_Error u \<rparr>)"

definition buildContextDetails :: "operationUpdate \<Rightarrow> apiContextDetails" where
  "buildContextDetails u =
     \<lparr> acd_Result = ou_Payload u,
       acd_ReplayChildren = (if ou_ReplayChildren u = Some True then Some True else None),
       acd_Error = ou_Error u \<rparr>"

definition updatedRecord :: "operationUpdate \<Rightarrow> apiOperation option \<Rightarrow> time \<Rightarrow> apiOperation" where
  "updatedRecord u existing now =
    (let base = \<lparr> ao_Id = ou_Id u, ao_Status = deriveStatus (ou_Action u), ao_Type = ou_Type u,
           ao_SubType = ou_SubType u, ao_Name = ou_Name u, ao_ParentId = ou_ParentId u,
           ao_StartTimestamp = (case existing of None \<Rightarrow> None | Some e \<Rightarrow> ao_StartTimestamp e),
           ao_EndTimestamp = (case existing of None \<Rightarrow> None | Some e \<Rightarrow> ao_EndTimestamp e),
           ao_InputPayload = None, ao_StepDetails = None, ao_WaitDetails = None, ao_CallbackDetails = None,
           ao_ChainedInvokeDetails = None, ao_ContextDetails = None \<rparr>;
         op = stampTransition now base
     in case ou_Type u of
          OperationTypeStep \<Rightarrow> op \<lparr> ao_StepDetails := Some (buildStepDetails u existing now) \<rparr>
        | OperationTypeWait \<Rightarrow> op \<lparr> ao_WaitDetails := buildWaitDetails u existing now \<rparr>
        | OperationTypeCallback \<Rightarrow> op \<lparr> ao_CallbackDetails := Some (buildCallbackDetails u existing) \<rparr>
        | OperationTypeChainedInvoke \<Rightarrow> op \<lparr> ao_ChainedInvokeDetails := Some (buildChainedInvokeDetails u) \<rparr>
        | OperationTypeContext \<Rightarrow> op \<lparr> ao_ContextDetails := Some (buildContextDetails u) \<rparr>
        | _ \<Rightarrow> op)"

definition applyUpdate :: "operationUpdate \<Rightarrow> memoryClient \<Rightarrow> apiOperation \<times> memoryClient" where
  "applyUpdate u m =
    (let i = toString (ou_Id u);
         op = updatedRecord u (mc_operations m i) (mc_clock m)
     in (op, m \<lparr> mc_opOrder := (if mc_operations m i = None then mc_opOrder m @ [i] else mc_opOrder m),
                 mc_operations := (mc_operations m)(i \<mapsto> op),
                 mc_invokeTargets :=
                   (if ou_Type u = OperationTypeChainedInvoke \<and> ou_Action u = OperationActionStart
                    then (mc_invokeTargets m)(i \<mapsto>
                           ((case ou_ChainedInvokeOptions u of None \<Rightarrow> '''' | Some (f, t) \<Rightarrow> toString f),
                            toString (ou_Payload u)))
                    else mc_invokeTargets m) \<rparr>))"

fun applyUpdates :: "operationUpdate list \<Rightarrow> memoryClient \<Rightarrow> apiOperation list \<times> memoryClient" where
  "applyUpdates [] m = ([], m)"
| "applyUpdates (u # us) m =
     (let (op, m1) = applyUpdate u m; (ops, m2) = applyUpdates us m1 in (op # ops, m2))"

section \<open>Timers\<close>

definition markChanged :: "string \<Rightarrow> memoryClient \<Rightarrow> memoryClient" where
  "markChanged i m = (if i \<in> set (mc_changed m) then m else m \<lparr> mc_changed := mc_changed m @ [i] \<rparr>)"

definition timerDue :: "apiOperation option \<Rightarrow> time option" where
  "timerDue p = (case p of None \<Rightarrow> None
     | Some op \<Rightarrow>
        if ao_Type op = OperationTypeWait \<and> ao_Status op = statusStarted
        then (case ao_WaitDetails op of None \<Rightarrow> None | Some wd \<Rightarrow> awd_ScheduledEndTimestamp wd)
        else if ao_Type op = OperationTypeStep \<and> ao_Status op = statusPending
        then (case ao_StepDetails op of None \<Rightarrow> None | Some sd \<Rightarrow> asd_NextAttemptTimestamp sd)
        else None)"

definition fireTimer :: "string \<Rightarrow> apiOperation \<Rightarrow> memoryClient \<Rightarrow> bool \<times> memoryClient" where
  "fireTimer i op m =
     (if ao_Type op = OperationTypeStep \<and> ao_Status op = statusPending
      then (True, markChanged i (m \<lparr> mc_operations := (mc_operations m)(i \<mapsto> op \<lparr> ao_Status := statusReady \<rparr>) \<rparr>))
      else if ao_Type op = OperationTypeWait \<and> ao_Status op = statusStarted
      then (True, markChanged i (m \<lparr> mc_operations := (mc_operations m)(i \<mapsto>
              stampTransition (mc_clock m) (op \<lparr> ao_Status := statusSucceeded \<rparr>)) \<rparr>))
      else (False, m))"

definition advanceTo :: "time \<Rightarrow> memoryClient \<Rightarrow> memoryClient" where
  "advanceTo t m = (if mc_clock m < t then m \<lparr> mc_clock := t \<rparr> else m)"

text \<open>Times reached through the client's clock are after the zero time, which the code uses for none.\<close>

definition earliestDue :: "(string \<Rightarrow> bool) \<Rightarrow> memoryClient \<Rightarrow> time option" where
  "earliestDue excluded m =
     fold (\<lambda>i best. if excluded i then best else
        case timerDue (mc_operations m i) of None \<Rightarrow> best
        | Some due \<Rightarrow> (case best of None \<Rightarrow> Some due | Some e \<Rightarrow> if due < e then Some due else best))
      (mc_opOrder m) None"

definition fireDue :: "(string \<Rightarrow> bool) \<Rightarrow> string \<Rightarrow> memoryClient \<Rightarrow> memoryClient" where
  "fireDue excluded i m =
     (if excluded i then m
      else case mc_operations m i of None \<Rightarrow> m
        | Some op \<Rightarrow> (case timerDue (Some op) of None \<Rightarrow> m
            | Some due \<Rightarrow> if mc_clock m < due then m else snd (fireTimer i op m)))"

definition advanceTimers :: "(string \<Rightarrow> bool) \<Rightarrow> memoryClient \<Rightarrow> memoryClient" where
  "advanceTimers excluded m =
     (case earliestDue excluded m of None \<Rightarrow> m
      | Some t \<Rightarrow> (let m' = advanceTo t m in fold (fireDue excluded) (mc_opOrder m') m'))"

definition reportsFinishedWork :: "operationUpdate list \<Rightarrow> bool" where
  "reportsFinishedWork us \<longleftrightarrow> list_ex (\<lambda>u.
     (ou_Type u = OperationTypeStep \<and>
        ou_Action u \<in> {OperationActionSucceed, OperationActionFail, OperationActionRetry}) \<or>
     (ou_Type u = OperationTypeContext \<and> ou_Action u \<in> {OperationActionSucceed, OperationActionFail})) us"

definition completePendingTimers :: "memoryClient \<Rightarrow> bool \<times> memoryClient" where
  "completePendingTimers m =
    (let latest = fold (\<lambda>i best. case timerDue (mc_operations m i) of None \<Rightarrow> best
             | Some due \<Rightarrow> if best < due then due else best) (mc_opOrder m) zeroTime;
         m1 = (if latest = zeroTime then m else advanceTo latest m)
     in fold (\<lambda>i (adv, m). case mc_operations m i of None \<Rightarrow> (adv, m)
          | Some op \<Rightarrow> (let (b, m') = fireTimer i op m in (adv \<or> b, m'))) (mc_opOrder m1) (False, m1))"

section \<open>Checkpoint\<close>

definition stepPayloadLimit :: nat where "stepPayloadLimit = 262144"
definition errorObjectLimit :: nat where "errorObjectLimit = 262144"
definition invokeInputLimit :: nat where "invokeInputLimit = 1048576"
definition executionResultLimit :: nat where "executionResultLimit = 6291456"
definition minWaitSeconds :: int where "minWaitSeconds = 1"

definition serviceError :: "string \<Rightarrow> string \<Rightarrow> goErr" where
  "serviceError code message = Err (KAPI code message False) []"

definition quote1 :: string where "quote1 = [CHR 0x27]"

definition shapeError :: "nat \<Rightarrow> operationUpdate \<Rightarrow> goErr option" where
  "shapeError pos u =
    (let secs = (case ou_WaitSeconds u of None \<Rightarrow> 0 | Some s \<Rightarrow> s) in
     if ou_Type u = OperationTypeWait \<and> ou_Action u = OperationActionStart \<and> secs < minWaitSeconds
     then Some (serviceError ''ValidationException''
       (''1 validation error detected: Value '' @ quote1 @ int_string secs @ quote1 @ '' at '' @ quote1 @
        ''updates.'' @ itoa pos @ ''.member.waitOptions.waitSeconds'' @ quote1 @
        '' failed to satisfy constraint: Member must have value greater than or equal to '' @ int_string minWaitSeconds))
     else if ou_Type u = OperationTypeExecution \<and> ou_Action u = OperationActionSucceed \<and>
             length (toString (ou_Payload u)) > executionResultLimit
     then Some (serviceError ''ValidationException''
       (''1 validation error detected: Value at '' @ quote1 @ ''updates.'' @ itoa pos @ ''.member.payload'' @ quote1 @
        '' failed to satisfy constraint: Member must have length less than or equal to '' @ itoa executionResultLimit))
     else None)"

definition payloadError :: "(errorObject \<Rightarrow> nat) \<Rightarrow> operationUpdate \<Rightarrow> goErr option" where
  "payloadError jsonSize u =
    (let sz = length (toString (ou_Payload u)) in
     if ou_Type u = OperationTypeStep \<and> (ou_Action u = OperationActionSucceed \<or> ou_Action u = OperationActionRetry)
        \<and> sz > stepPayloadLimit
     then Some (serviceError ''InvalidParameterValueException'' ''STEP output payload size must be less than or equal to 262144 bytes.'')
     else if ou_Type u = OperationTypeChainedInvoke \<and> ou_Action u = OperationActionStart \<and> sz > invokeInputLimit
     then Some (serviceError ''InvalidParameterValueException'' ''CHAINED_INVOKE input payload size must be less than or equal to 1048576 bytes.'')
     else if (case ou_Error u of None \<Rightarrow> 0 | Some e \<Rightarrow> jsonSize e) > errorObjectLimit
     then Some (serviceError ''InvalidParameterValueException'' ''Error object size must be less than or equal to 262144 bytes.'')
     else None)"

fun firstSome :: "('a \<Rightarrow> 'b option) \<Rightarrow> 'a list \<Rightarrow> 'b option" where
  "firstSome f [] = None"
| "firstSome f (x # xs) = (case f x of Some y \<Rightarrow> Some y | None \<Rightarrow> firstSome f xs)"

definition validateCheckpoint :: "(errorObject \<Rightarrow> nat) \<Rightarrow> operationUpdate list \<Rightarrow> goErr option" where
  "validateCheckpoint jsonSize us =
     (case firstSome (\<lambda>(i, u). shapeError (i + 1) u) (enumerate 0 us) of
        Some e \<Rightarrow> Some e
      | None \<Rightarrow> firstSome (payloadError jsonSize) us)"

text \<open>
  The response of a checkpoint: the records the request produced, brought up
  to date where they changed again, then the other operations that changed.
\<close>

definition responseRecords :: "string list \<Rightarrow> apiOperation list \<Rightarrow> memoryClient \<Rightarrow> apiOperation list" where
  "responseRecords ids updated m =
     fold (\<lambda>i ops. if i \<in> set ids
            then map (\<lambda>op. if toString (ao_Id op) = i
                 then (case mc_operations m i of Some op' \<Rightarrow> op' | None \<Rightarrow> op) else op) ops
            else (case mc_operations m i of Some op' \<Rightarrow> ops @ [op'] | None \<Rightarrow> ops))
       (mc_changed m) updated"

definition deliverRecords :: "apiOperation list \<Rightarrow> memoryClient \<Rightarrow> memoryClient" where
  "deliverRecords ops m = fold (\<lambda>op m. if ao_Type op = OperationTypeExecution then m
      else m \<lparr> mc_delivered := (mc_delivered m)(toString (ao_Id op) \<mapsto> apiOperationToWire op) \<rparr>) ops m"

text \<open>
  Checkpoint.  The registered targets of the chained invokes a request starts
  are the argument startInvokes: it gets their IDs and may settle them.
\<close>

definition startedInvokes :: "operationUpdate list \<Rightarrow> string list" where
  "startedInvokes us = map (\<lambda>u. toString (ou_Id u))
     (filter (\<lambda>u. ou_Type u = OperationTypeChainedInvoke \<and> ou_Action u = OperationActionStart) us)"

definition mc_Checkpoint :: "(errorObject \<Rightarrow> nat) \<Rightarrow> (string list \<Rightarrow> memoryClient \<Rightarrow> memoryClient) \<Rightarrow>
    operationUpdate list \<Rightarrow> memoryClient \<Rightarrow> (goErr + string \<times> apiOperation list) \<times> memoryClient" where
  "mc_Checkpoint jsonSize startInvokes us m =
    (case validateCheckpoint jsonSize us of
       Some e \<Rightarrow> (Inl e, m)
     | None \<Rightarrow>
        (let (updated, m1) = applyUpdates us m;
             ids = map (\<lambda>u. toString (ou_Id u)) us;
             m2 = (if startedInvokes us = [] then m1 else startInvokes (startedInvokes us) m1);
             m3 = (if us = [] \<or> reportsFinishedWork us then advanceTimers (\<lambda>i. i \<in> set ids) m2 else m2);
             ops = responseRecords ids updated m3;
             m4 = deliverRecords ops (m3 \<lparr> mc_changed := [] \<rparr>);
             n = mc_tokenSeq m4 + 1;
             tok = ''test-token-'' @ itoa n;
             m5 = m4 \<lparr> mc_tokenSeq := n, mc_token := tok \<rparr>
         in if mc_omitTokenIn m5 > 0
            then (let m6 = m5 \<lparr> mc_omitTokenIn := mc_omitTokenIn m5 - 1 \<rparr>
                  in if mc_omitTokenIn m6 = 0 then (Inr ('''', ops), m6 \<lparr> mc_tokenWithheld := True \<rparr>)
                     else (Inr (tok, ops), m6))
            else (Inr (tok, ops), m5)))"

section \<open>External actors and invocations\<close>

definition findCallbackByID :: "string \<Rightarrow> memoryClient \<Rightarrow> (string \<times> apiOperation) option" where
  "findCallbackByID cid m = firstSome (\<lambda>i. case mc_operations m i of None \<Rightarrow> None
     | Some op \<Rightarrow> if ao_Type op = OperationTypeCallback \<and>
           (case ao_CallbackDetails op of None \<Rightarrow> False | Some cd \<Rightarrow> toString (acb_CallbackId cd) = cid)
         then Some (i, op) else None) (mc_opOrder m)"

datatype settlement =
    SettleSucceeded string
  | SettleFailed string string string "string list"
  | SettleTimedOut string string

definition settlementError :: "string \<Rightarrow> string \<Rightarrow> string \<Rightarrow> string list \<Rightarrow> errorObject" where
  "settlementError ty msg data tr =
     \<lparr> eo_ErrorType = Some ty, eo_ErrorMessage = Some msg,
       eo_ErrorData = (if data \<noteq> '''' then Some data else None), eo_StackTrace = tr \<rparr>"

definition storeSettled :: "apiOperation \<Rightarrow> memoryClient \<Rightarrow> memoryClient" where
  "storeSettled op m = markChanged (toString (ao_Id op))
     (m \<lparr> mc_operations := (mc_operations m)(toString (ao_Id op) \<mapsto> stampTransition (mc_clock m) op) \<rparr>)"

definition completeCallback :: "string \<Rightarrow> settlement \<Rightarrow> memoryClient \<Rightarrow> (string + unit) \<times> memoryClient" where
  "completeCallback cid res m =
    (case findCallbackByID cid m of None \<Rightarrow> (Inl ''not found'', m)
     | Some (_, op) \<Rightarrow>
        if ao_Status op \<noteq> statusStarted then (Inl ''expected STARTED'', m)
        else (let cd = (case ao_CallbackDetails op of Some c \<Rightarrow> c
                   | None \<Rightarrow> \<lparr> acb_CallbackId = None, acb_Result = None, acb_Error = None \<rparr>)
              in case res of
                SettleSucceeded r \<Rightarrow> (Inr (), storeSettled (op \<lparr> ao_Status := statusSucceeded,
                    ao_CallbackDetails := Some (cd \<lparr> acb_Result := Some r \<rparr>) \<rparr>) m)
              | SettleFailed ty msg dat tr \<Rightarrow> (Inr (), storeSettled (op \<lparr> ao_Status := statusFailed,
                    ao_CallbackDetails := Some (cd \<lparr> acb_Error := Some (settlementError ty msg dat tr) \<rparr>) \<rparr>) m)
              | SettleTimedOut _ _ \<Rightarrow> (Inl ''unsupported callback result status'', m)))"

definition timeoutCallback :: "string \<Rightarrow> memoryClient \<Rightarrow> (string + unit) \<times> memoryClient" where
  "timeoutCallback cid m =
    (case findCallbackByID cid m of None \<Rightarrow> (Inl ''not found'', m)
     | Some (_, op) \<Rightarrow> if ao_Status op \<noteq> statusStarted then (Inl ''expected STARTED'', m)
        else (Inr (), storeSettled (op \<lparr> ao_Status := statusTimedOut \<rparr>) m))"

definition settleInvokeByID :: "string \<Rightarrow> settlement \<Rightarrow> memoryClient \<Rightarrow> (string + unit) \<times> memoryClient" where
  "settleInvokeByID i res m =
    (case mc_operations m i of None \<Rightarrow> (Inl ''not found'', m)
     | Some op \<Rightarrow>
        if ao_Type op \<noteq> OperationTypeChainedInvoke then (Inl ''not found'', m)
        else if ao_Status op \<noteq> statusStarted then (Inl ''expected STARTED'', m)
        else (Inr (), storeSettled (case res of
                SettleSucceeded r \<Rightarrow> op \<lparr> ao_Status := statusSucceeded,
                   ao_ChainedInvokeDetails := Some \<lparr> aid_Result = Some r, aid_Error = None \<rparr> \<rparr>
              | SettleFailed ty msg dat tr \<Rightarrow> op \<lparr> ao_Status := statusFailed,
                   ao_ChainedInvokeDetails := Some \<lparr> aid_Result = None, aid_Error = Some (settlementError ty msg dat tr) \<rparr> \<rparr>
              | SettleTimedOut ty msg \<Rightarrow> op \<lparr> ao_Status := statusTimedOut,
                   ao_ChainedInvokeDetails := Some \<lparr> aid_Result = None, aid_Error = Some (settlementError ty msg '''' []) \<rparr> \<rparr>) m))"

definition hasPendingOperation :: "memoryClient \<Rightarrow> bool" where
  "hasPendingOperation m \<longleftrightarrow> list_ex (\<lambda>i. case mc_operations m i of None \<Rightarrow> False
     | Some op \<Rightarrow>
        (ao_Type op \<in> {OperationTypeWait, OperationTypeCallback, OperationTypeChainedInvoke} \<and> ao_Status op = statusStarted) \<or>
        (ao_Type op = OperationTypeStep \<and> ao_Status op \<in> {statusStarted, statusPending, statusReady})) (mc_opOrder m)"

definition snapshotOps :: "memoryClient \<Rightarrow> wireOperation list" where
  "snapshotOps m = map apiOperationToWire
     (filter (\<lambda>op. ao_Type op \<noteq> OperationTypeExecution) (List.map_filter (mc_operations m) (mc_opOrder m)))"

definition beginInvocation :: "memoryClient \<Rightarrow> (wireOperation list \<times> string \<times> string list) \<times> memoryClient" where
  "beginInvocation m =
    (let ops = snapshotOps m;
         upd = map wo_Id (filter (\<lambda>w. mc_settled m (wo_Id w) \<noteq> Some w) ops)
     in ((ops, mc_token m, upd),
         m \<lparr> mc_changed := [], mc_tokenWithheld := False,
             mc_delivered := map_of (rev (map (\<lambda>w. (wo_Id w, w)) ops)) \<rparr>))"

definition endInvocation :: "bool \<Rightarrow> memoryClient \<Rightarrow> memoryClient" where
  "endInvocation successful m = (if successful then m \<lparr> mc_settled := mc_delivered m \<rparr> else m)"

end
