(* ===== verification/Service_Sync.thy ===== *)
theory Service_Sync
  imports Service
begin

text \<open>
  Well-formedness of the local service's store, and that the engine's view of
  the operation log follows it: whatever the service changes between two
  checkpoint responses, the next response brings the view up to date.
\<close>

section \<open>Well-formed stores\<close>

definition mc_wf :: "memoryClient \<Rightarrow> bool" where
  "mc_wf m \<longleftrightarrow> distinct (mc_opOrder m) \<and> set (mc_opOrder m) = dom (mc_operations m) \<and>
     (\<forall>i op. mc_operations m i = Some op \<longrightarrow> toString (ao_Id op) = i) \<and>
     set (mc_changed m) \<subseteq> dom (mc_operations m)"

lemma mc_wf_new: "mc_wf (newMemoryClient t)"
  by (simp add: mc_wf_def newMemoryClient_def)

lemma stampTransition_simps [simp]:
  "ao_Id (stampTransition t op) = ao_Id op" "ao_Status (stampTransition t op) = ao_Status op"
  "ao_Type (stampTransition t op) = ao_Type op" "ao_ParentId (stampTransition t op) = ao_ParentId op"
  "ao_StepDetails (stampTransition t op) = ao_StepDetails op"
  "ao_ContextDetails (stampTransition t op) = ao_ContextDetails op"
  "ao_WaitDetails (stampTransition t op) = ao_WaitDetails op"
  "ao_CallbackDetails (stampTransition t op) = ao_CallbackDetails op"
  "ao_ChainedInvokeDetails (stampTransition t op) = ao_ChainedInvokeDetails op"
  "ao_Name (stampTransition t op) = ao_Name op" "ao_SubType (stampTransition t op) = ao_SubType op"
  by (simp_all add: stampTransition_def)

lemma updatedRecord_simps [simp]:
  "ao_Id (updatedRecord u e t) = ou_Id u" "ao_Type (updatedRecord u e t) = ou_Type u"
  "ao_Status (updatedRecord u e t) = deriveStatus (ou_Action u)"
  "ao_Name (updatedRecord u e t) = ou_Name u" "ao_SubType (updatedRecord u e t) = ou_SubType u"
  by (simp_all add: updatedRecord_def Let_def split: operationType.split)

lemma applyUpdate_wf: "mc_wf m \<Longrightarrow> applyUpdate u m = (op, m') \<Longrightarrow> mc_wf m'"
  by (auto simp: applyUpdate_def Let_def mc_wf_def split: if_splits)

lemma applyUpdates_wf: "mc_wf m \<Longrightarrow> applyUpdates us m = (ops, m') \<Longrightarrow> mc_wf m'"
  by (induction us arbitrary: m ops m') (auto split: prod.splits dest: applyUpdate_wf)

lemma markChanged_simps [simp]:
  "mc_operations (markChanged i m) = mc_operations m" "mc_opOrder (markChanged i m) = mc_opOrder m"
  "mc_clock (markChanged i m) = mc_clock m" "mc_tokenSeq (markChanged i m) = mc_tokenSeq m"
  "set (mc_changed (markChanged i m)) = insert i (set (mc_changed m))"
  "mc_omitTokenIn (markChanged i m) = mc_omitTokenIn m" "mc_token (markChanged i m) = mc_token m"
  by (auto simp: markChanged_def)

lemma advanceTo_simps [simp]:
  "mc_operations (advanceTo t m) = mc_operations m" "mc_opOrder (advanceTo t m) = mc_opOrder m"
  "mc_changed (advanceTo t m) = mc_changed m" "mc_tokenSeq (advanceTo t m) = mc_tokenSeq m"
  "mc_clock (advanceTo t m) = max t (mc_clock m)" "mc_omitTokenIn (advanceTo t m) = mc_omitTokenIn m"
  by (auto simp: advanceTo_def)

section \<open>Timers\<close>

lemma timerDue_timed:
  "timerDue (Some op) = Some d \<Longrightarrow>
   (ao_Type op = OperationTypeWait \<and> ao_Status op = statusStarted) \<or>
   (ao_Type op = OperationTypeStep \<and> ao_Status op = statusPending)"
  by (auto simp: timerDue_def split: if_splits option.splits)

lemma timerDue_not_terminal: "timerDue (Some op) = Some d \<Longrightarrow> \<not> status_terminal (ao_Status op)"
  by (auto dest!: timerDue_timed)

definition fired :: "time \<Rightarrow> apiOperation \<Rightarrow> apiOperation" where
  "fired now op = (if ao_Type op = OperationTypeStep then op \<lparr> ao_Status := statusReady \<rparr>
     else stampTransition now (op \<lparr> ao_Status := statusSucceeded \<rparr>))"

lemma fired_Id [simp]: "ao_Id (fired t op) = ao_Id op" "ao_Type (fired t op) = ao_Type op"
  by (simp_all add: fired_def)

lemma fireTimer_due:
  "timerDue (Some op) = Some d \<Longrightarrow>
   fireTimer i op m = (True, markChanged i (m \<lparr> mc_operations := (mc_operations m)(i \<mapsto> fired (mc_clock m) op) \<rparr>))"
  using timerDue_timed [of op d] by (auto simp: fireTimer_def fired_def)

definition due_now :: "(string \<Rightarrow> bool) \<Rightarrow> memoryClient \<Rightarrow> string \<Rightarrow> bool" where
  "due_now ex m i \<longleftrightarrow> \<not> ex i \<and> (\<exists>d. timerDue (mc_operations m i) = Some d \<and> d \<le> mc_clock m)"

lemma fireDue_char:
  "fireDue ex i m =
     (if due_now ex m i
      then markChanged i (m \<lparr> mc_operations := (mc_operations m)(i \<mapsto> fired (mc_clock m) (the (mc_operations m i))) \<rparr>)
      else m)"
proof (cases "mc_operations m i")
  case None
  then show ?thesis
    by (simp add: fireDue_def due_now_def timerDue_def)
next
  case (Some op)
  then show ?thesis
    by (auto simp: fireDue_def due_now_def fireTimer_due split: option.split)
qed

lemma fireDue_frame [simp]:
  "mc_clock (fireDue ex i m) = mc_clock m" "mc_opOrder (fireDue ex i m) = mc_opOrder m"
  "mc_tokenSeq (fireDue ex i m) = mc_tokenSeq m" "mc_omitTokenIn (fireDue ex i m) = mc_omitTokenIn m"
  by (simp_all add: fireDue_char)

lemma fireDue_facts:
  "mc_operations (fireDue ex j m) k =
     (if k = j \<and> due_now ex m j then Some (fired (mc_clock m) (the (mc_operations m j))) else mc_operations m k)"
  "set (mc_changed (fireDue ex j m)) = (if due_now ex m j then insert j (set (mc_changed m)) else set (mc_changed m))"
  "k \<noteq> j \<Longrightarrow> due_now ex (fireDue ex j m) k = due_now ex m k"
  by (simp_all add: fireDue_char) (simp add: due_now_def)

lemma fireDue_fold_frame:
  "mc_clock (fold (fireDue ex) is m) = mc_clock m" "mc_opOrder (fold (fireDue ex) is m) = mc_opOrder m"
  "mc_tokenSeq (fold (fireDue ex) is m) = mc_tokenSeq m" "mc_omitTokenIn (fold (fireDue ex) is m) = mc_omitTokenIn m"
  by (induction "is" arbitrary: m) simp_all

lemma fireDue_fold_operations:
  "distinct is \<Longrightarrow> mc_operations (fold (fireDue ex) is m) i =
     (if i \<in> set is \<and> due_now ex m i then Some (fired (mc_clock m) (the (mc_operations m i))) else mc_operations m i)"
proof (induction "is" arbitrary: m)
  case (Cons j js)
  then show ?case
    by (cases "i = j") (simp_all add: fireDue_facts)
qed simp

lemma fireDue_fold_changed:
  "distinct is \<Longrightarrow> set (mc_changed (fold (fireDue ex) is m)) = set (mc_changed m) \<union> {j \<in> set is. due_now ex m j}"
proof (induction "is" arbitrary: m)
  case (Cons j js)
  have "{k \<in> set js. due_now ex (fireDue ex j m) k} = {k \<in> set js. due_now ex m k}"
    using Cons.prems by (intro Collect_cong conj_cong refl fireDue_facts(3)) auto
  then show ?case
    using Cons by (auto simp: fireDue_facts(2))
qed simp

text \<open>The clock after the timers advanced, and which operations then fire.\<close>

definition timerClock :: "(string \<Rightarrow> bool) \<Rightarrow> memoryClient \<Rightarrow> time" where
  "timerClock ex m = (case earliestDue ex m of None \<Rightarrow> mc_clock m | Some e \<Rightarrow> max e (mc_clock m))"

definition firing :: "(string \<Rightarrow> bool) \<Rightarrow> memoryClient \<Rightarrow> string \<Rightarrow> bool" where
  "firing ex m i \<longleftrightarrow> earliestDue ex m \<noteq> None \<and> \<not> ex i \<and>
     (\<exists>d. timerDue (mc_operations m i) = Some d \<and> d \<le> timerClock ex m)"

lemma firing_known: "mc_wf m \<Longrightarrow> firing ex m i \<Longrightarrow> i \<in> set (mc_opOrder m) \<and> mc_operations m i \<noteq> None"
  by (auto simp: firing_def mc_wf_def timerDue_def split: option.splits)

lemma advanceTimers_frame:
  "mc_clock (advanceTimers ex m) = timerClock ex m" "mc_opOrder (advanceTimers ex m) = mc_opOrder m"
  "mc_tokenSeq (advanceTimers ex m) = mc_tokenSeq m" "mc_omitTokenIn (advanceTimers ex m) = mc_omitTokenIn m"
  by (simp_all add: advanceTimers_def timerClock_def Let_def fireDue_fold_frame split: option.split)

lemma due_now_advanceTo: "due_now ex (advanceTo e m) i \<longleftrightarrow>
    \<not> ex i \<and> (\<exists>d. timerDue (mc_operations m i) = Some d \<and> d \<le> max e (mc_clock m))"
  by (simp add: due_now_def)

lemma advanceTimers_operations:
  assumes "mc_wf m"
  shows "mc_operations (advanceTimers ex m) i =
     (if firing ex m i then Some (fired (timerClock ex m) (the (mc_operations m i))) else mc_operations m i)"
proof (cases "earliestDue ex m")
  case None
  then show ?thesis
    by (simp add: advanceTimers_def firing_def)
next
  case (Some e)
  have "distinct (mc_opOrder (advanceTo e m))"
    using assms by (simp add: mc_wf_def)
  moreover have "firing ex m i = (i \<in> set (mc_opOrder (advanceTo e m)) \<and> due_now ex (advanceTo e m) i)"
    using firing_known [OF assms, of ex i] Some by (auto simp: firing_def due_now_advanceTo timerClock_def)
  ultimately show ?thesis
    using Some by (simp add: advanceTimers_def Let_def fireDue_fold_operations timerClock_def)
qed

lemma advanceTimers_changed:
  assumes "mc_wf m"
  shows "set (mc_changed (advanceTimers ex m)) = set (mc_changed m) \<union> {i. firing ex m i}"
proof (cases "earliestDue ex m")
  case None
  then show ?thesis
    by (simp add: advanceTimers_def firing_def)
next
  case (Some e)
  have "distinct (mc_opOrder (advanceTo e m))"
    using assms by (simp add: mc_wf_def)
  moreover have "firing ex m i = (i \<in> set (mc_opOrder (advanceTo e m)) \<and> due_now ex (advanceTo e m) i)" for i
    using firing_known [OF assms, of ex i] Some by (auto simp: firing_def due_now_advanceTo timerClock_def)
  ultimately show ?thesis
    using Some by (auto simp: advanceTimers_def Let_def fireDue_fold_changed)
qed

lemma advanceTimers_wf:
  assumes "mc_wf m" shows "mc_wf (advanceTimers ex m)"
proof -
  have "dom (mc_operations (advanceTimers ex m)) = dom (mc_operations m)"
    using firing_known [OF assms] by (auto simp: advanceTimers_operations [OF assms] dom_def split: if_splits)
  moreover have "toString (ao_Id op) = i" if "mc_operations (advanceTimers ex m) i = Some op" for i op
    using that firing_known [OF assms, of ex i] assms
    by (auto simp: advanceTimers_operations [OF assms] mc_wf_def split: if_splits)
  moreover have "set (mc_changed (advanceTimers ex m)) \<subseteq> dom (mc_operations m)"
    using firing_known [OF assms, of ex] assms by (auto simp: advanceTimers_changed [OF assms] mc_wf_def)
  ultimately show ?thesis
    using assms by (simp add: mc_wf_def advanceTimers_frame)
qed

section \<open>External actors\<close>

text \<open>
  What the timers, the callers of callbacks and the targets of invokes share:
  they keep the store well formed and mark every operation they change, and
  they forget no mark.
\<close>

definition in_sync :: "executionState \<Rightarrow> memoryClient \<Rightarrow> bool" where
  "in_sync st m \<longleftrightarrow> (\<forall>i. i \<notin> set (mc_changed m) \<longrightarrow>
     map_option core (es_operations st i) = map_option (core \<circ> operationFromAPI) (mc_operations m i))"

locale external_actor =
  fixes act :: "memoryClient \<Rightarrow> memoryClient"
  assumes act_wf: "mc_wf m \<Longrightarrow> mc_wf (act m)"
    and act_marks: "mc_wf m \<Longrightarrow> mc_operations (act m) i \<noteq> mc_operations m i \<Longrightarrow> i \<in> set (mc_changed (act m))"
    and act_keeps: "mc_wf m \<Longrightarrow> set (mc_changed m) \<subseteq> set (mc_changed (act m))"
begin

lemma act_sync: "mc_wf m \<Longrightarrow> in_sync st m \<Longrightarrow> in_sync st (act m)"
  unfolding in_sync_def using act_marks act_keeps by (metis subsetD)

lemma act_power: "mc_wf m \<Longrightarrow> in_sync st m \<Longrightarrow> mc_wf ((act ^^ n) m) \<and> in_sync st ((act ^^ n) m)"
  by (induction n) (simp_all add: act_wf act_sync)

end

lemma firstSome_Some: "firstSome f xs = Some y \<Longrightarrow> \<exists>x \<in> set xs. f x = Some y"
  by (induction xs) (auto split: option.splits)

lemma firstSome_None: "firstSome f xs = None \<longleftrightarrow> (\<forall>x \<in> set xs. f x = None)"
  by (induction xs) (auto split: option.splits)

lemma findCallbackByID_known: "findCallbackByID cid m = Some (i, op) \<Longrightarrow> mc_operations m i = Some op"
  by (auto simp: findCallbackByID_def dest!: firstSome_Some split: option.splits if_splits)

lemma storeSettled_wf:
  assumes "mc_wf m" and "mc_operations m (toString (ao_Id op)) \<noteq> None"
  shows "mc_wf (storeSettled op m)"
  using assms by (auto simp: storeSettled_def mc_wf_def dom_def split: if_splits)

lemma storeSettled_operations:
  "mc_operations (storeSettled op m) =
     (mc_operations m)(toString (ao_Id op) \<mapsto> stampTransition (mc_clock m) op)"
  "set (mc_changed (storeSettled op m)) = insert (toString (ao_Id op)) (set (mc_changed m))"
  by (simp_all add: storeSettled_def)

lemma known_id: "mc_wf m \<Longrightarrow> mc_operations m i = Some op \<Longrightarrow> toString (ao_Id op) = i"
  by (simp add: mc_wf_def)

text \<open>Every settlement either leaves the store alone or stores one known operation.\<close>

inductive settles :: "memoryClient \<Rightarrow> memoryClient \<Rightarrow> bool" where
  settles_same: "settles m m"
| settles_store: "mc_operations m i = Some op \<Longrightarrow> ao_Id op' = ao_Id op \<Longrightarrow> settles m (storeSettled op' m)"

inductive_cases settlesE: "settles m m'"

lemma completeCallback_settles: "settles m (snd (completeCallback cid res m))"
  by (auto simp: completeCallback_def Let_def intro: settles_same
      intro!: settles_store [OF findCallbackByID_known] split: option.split settlement.split)

lemma timeoutCallback_settles: "settles m (snd (timeoutCallback cid m))"
  by (auto simp: timeoutCallback_def intro: settles_same
      intro!: settles_store [OF findCallbackByID_known] split: option.split)

lemma settleInvokeByID_settles: "settles m (snd (settleInvokeByID i res m))"
  by (auto simp: settleInvokeByID_def intro: settles_same intro!: settles_store
      split: option.split settlement.split)

lemma settles_facts:
  assumes "settles m m'" and wf: "mc_wf m"
  shows "mc_wf m'" "set (mc_changed m) \<subseteq> set (mc_changed m')"
    "mc_operations m' i \<noteq> mc_operations m i \<Longrightarrow> i \<in> set (mc_changed m')"
proof -
  have "mc_wf m' \<and> set (mc_changed m) \<subseteq> set (mc_changed m') \<and>
    (mc_operations m' i \<noteq> mc_operations m i \<longrightarrow> i \<in> set (mc_changed m'))"
    using assms(1)
  proof cases
    case (settles_store j op op')
    then have "mc_operations m (toString (ao_Id op')) \<noteq> None"
      using known_id [OF wf settles_store(2)] by simp
    then show ?thesis
      using settles_store(1) storeSettled_wf [OF wf] by (auto simp: storeSettled_operations)
  qed (use wf in simp)
  then show "mc_wf m'" "set (mc_changed m) \<subseteq> set (mc_changed m')"
    "mc_operations m' i \<noteq> mc_operations m i \<Longrightarrow> i \<in> set (mc_changed m')"
    by blast+
qed

lemma settlement_actor:
  assumes "\<And>m. settles m (act m)"
  shows "external_actor act"
  by unfold_locales (rule settles_facts [OF assms], assumption+)+

interpretation callback_caller: external_actor "\<lambda>m. snd (completeCallback cid res m)" for cid res
  by (rule settlement_actor) (rule completeCallback_settles)

interpretation callback_timeout: external_actor "\<lambda>m. snd (timeoutCallback cid m)" for cid
  by (rule settlement_actor) (rule timeoutCallback_settles)

interpretation invoke_target: external_actor "\<lambda>m. snd (settleInvokeByID i res m)" for i res
  by (rule settlement_actor) (rule settleInvokeByID_settles)

interpretation timers: external_actor "advanceTimers ex" for ex
  by unfold_locales (auto simp: advanceTimers_wf advanceTimers_changed advanceTimers_operations split: if_splits)

lemma external_actor_comp:
  assumes f: "external_actor f" and g: "external_actor g"
  shows "external_actor (\<lambda>m. g (f m))"
proof
  fix m i
  assume wf: "mc_wf m"
  have wf': "mc_wf (f m)"
    by (rule external_actor.act_wf [OF f wf])
  show "mc_wf (g (f m))"
    by (rule external_actor.act_wf [OF g wf'])
  show keeps: "set (mc_changed m) \<subseteq> set (mc_changed (g (f m)))"
    using external_actor.act_keeps [OF f wf] external_actor.act_keeps [OF g wf'] by blast
  show "i \<in> set (mc_changed (g (f m)))" if "mc_operations (g (f m)) i \<noteq> mc_operations m i"
  proof (cases "mc_operations (g (f m)) i = mc_operations (f m) i")
    case True
    then have "i \<in> set (mc_changed (f m))"
      using that external_actor.act_marks [OF f wf] by simp
    then show ?thesis
      using external_actor.act_keeps [OF g wf'] by blast
  next
    case False
    then show ?thesis
      by (rule external_actor.act_marks [OF g wf'])
  qed
qed

lemma external_actor_id: "external_actor (\<lambda>m. m)"
  by unfold_locales auto

text \<open>The registered targets of a request's invokes: each settles its own invoke, or leaves it open.\<close>

definition runTargets :: "(string \<Rightarrow> settlement option) \<Rightarrow> string list \<Rightarrow> memoryClient \<Rightarrow> memoryClient" where
  "runTargets outcome ids m =
     fold (\<lambda>i m. case outcome i of None \<Rightarrow> m | Some s \<Rightarrow> snd (settleInvokeByID i s m)) ids m"

lemma runTargets_actor: "external_actor (runTargets outcome ids)"
proof (induction ids)
  case Nil
  show ?case
    by (simp add: runTargets_def external_actor_id)
next
  case (Cons i ids)
  have "external_actor (\<lambda>m. case outcome i of None \<Rightarrow> m | Some s \<Rightarrow> snd (settleInvokeByID i s m))"
    by (cases "outcome i") (simp_all add: external_actor_id invoke_target.external_actor_axioms)
  then have "external_actor (\<lambda>m. runTargets outcome ids (case outcome i of None \<Rightarrow> m | Some s \<Rightarrow> snd (settleInvokeByID i s m)))"
    using Cons.IH by (rule external_actor_comp)
  then show ?case
    by (simp add: runTargets_def)
qed

interpretation targets: external_actor "runTargets outcome ids" for outcome ids
  by (rule runTargets_actor)

section \<open>The response brings the view up to date\<close>

definition lastRecord :: "apiOperation list \<Rightarrow> string \<Rightarrow> apiOperation option" where
  "lastRecord ops = map_of (rev (map (\<lambda>op. (toString (ao_Id op), op)) ops))"

lemma lastRecord_simps [simp]:
  "lastRecord [] = Map.empty"
  "lastRecord (ops @ [op]) = (lastRecord ops)(toString (ao_Id op) \<mapsto> op)"
  by (simp_all add: lastRecord_def)

lemma lastRecord_Cons:
  "lastRecord (op # ops) i = (case lastRecord ops i of Some r \<Rightarrow> Some r
     | None \<Rightarrow> if toString (ao_Id op) = i then Some op else None)"
  by (auto simp: lastRecord_def map_of_append map_add_def split: option.split)

lemma lastRecord_id: "lastRecord ops i = Some op \<Longrightarrow> toString (ao_Id op) = i"
  by (induction ops rule: rev_induct) (auto split: if_splits)

lemma lastRecord_replace:
  assumes "toString (ao_Id r) = i"
  shows "lastRecord (map (\<lambda>op. if toString (ao_Id op) = i then r else op) ops) j =
     (if j = i \<and> lastRecord ops i \<noteq> None then Some r else lastRecord ops j)"
  using assms by (induction ops rule: rev_induct) auto

lemma merge_lastRecord:
  "es_operations (es_merge (map operationFromAPI ops) st) i =
     (case lastRecord ops i of Some r \<Rightarrow> Some (operationFromAPI r) | None \<Rightarrow> es_operations st i)"
proof (induction ops rule: rev_induct)
  case Nil
  then show ?case by (simp add: state_simps)
next
  case (snoc op ops)
  then show ?case
    by (simp add: es_merge_append state_simps)
qed

lemma applyUpdate_facts:
  assumes "applyUpdate u m = (op, m')"
  shows "op = updatedRecord u (mc_operations m (toString (ou_Id u))) (mc_clock m)"
    "mc_operations m' = (mc_operations m)(toString (ou_Id u) \<mapsto> op)"
    "mc_changed m' = mc_changed m" "mc_clock m' = mc_clock m" "mc_tokenSeq m' = mc_tokenSeq m"
    "mc_omitTokenIn m' = mc_omitTokenIn m"
  using assms by (auto simp: applyUpdate_def Let_def)

lemma applyUpdates_facts:
  "applyUpdates us m = (ops, m') \<Longrightarrow>
     (\<forall>i. lastRecord ops i = (if i \<in> (\<lambda>u. toString (ou_Id u)) ` set us then mc_operations m' i else None)) \<and>
     (\<forall>i. i \<notin> (\<lambda>u. toString (ou_Id u)) ` set us \<longrightarrow> mc_operations m' i = mc_operations m i) \<and>
     (\<forall>i \<in> (\<lambda>u. toString (ou_Id u)) ` set us. mc_operations m' i \<noteq> None) \<and>
     mc_changed m' = mc_changed m \<and> mc_clock m' = mc_clock m"
proof (induction us arbitrary: m ops)
  case Nil
  then show ?case by simp
next
  case (Cons u us)
  obtain op m1 ops2 where eq: "applyUpdate u m = (op, m1)" "applyUpdates us m1 = (ops2, m')" "ops = op # ops2"
    using Cons.prems by (auto split: prod.splits)
  note f = applyUpdate_facts [OF eq(1)]
  note IH = Cons.IH [OF eq(2)]
  have idop: "toString (ao_Id op) = toString (ou_Id u)"
    by (simp add: f(1))
  have "mc_operations m' (toString (ou_Id u)) \<noteq> None"
    using IH f(2) by (cases "toString (ou_Id u) \<in> (\<lambda>u. toString (ou_Id u)) ` set us") auto
  then show ?case
    using IH f(2-4) idop by (auto simp: eq(3) lastRecord_Cons split: option.split)
qed

lemma responseRecords_last:
  assumes "\<forall>i \<in> set cs. \<forall>op. mc_operations m i = Some op \<longrightarrow> toString (ao_Id op) = i"
    and "\<forall>i \<in> set ids. lastRecord ops i \<noteq> None"
  shows "lastRecord (fold (\<lambda>i ops. if i \<in> set ids
            then map (\<lambda>op. if toString (ao_Id op) = i
                 then (case mc_operations m i of Some op' \<Rightarrow> op' | None \<Rightarrow> op) else op) ops
            else (case mc_operations m i of Some op' \<Rightarrow> ops @ [op'] | None \<Rightarrow> ops)) cs ops) j =
     (if j \<in> set cs \<and> mc_operations m j \<noteq> None then mc_operations m j else lastRecord ops j)"
  using assms
proof (induction cs arbitrary: ops)
  case Nil
  then show ?case by simp
next
  case (Cons c cs)
  let ?step = "\<lambda>i ops. if i \<in> set ids
            then map (\<lambda>op. if toString (ao_Id op) = i
                 then (case mc_operations m i of Some op' \<Rightarrow> op' | None \<Rightarrow> op) else op) ops
            else (case mc_operations m i of Some op' \<Rightarrow> ops @ [op'] | None \<Rightarrow> ops)"
  have step: "lastRecord (?step c ops) k =
      (if k = c \<and> mc_operations m c \<noteq> None then mc_operations m c else lastRecord ops k)" for k
  proof (cases "mc_operations m c")
    case None
    then show ?thesis by (simp add: if_distrib [of "\<lambda>f. map f ops"] cong: if_cong)
  next
    case (Some r)
    have rid: "toString (ao_Id r) = c"
      using Cons.prems(1) Some by simp
    show ?thesis
      using Cons.prems(2) lastRecord_replace [OF rid, of ops k] unfolding Some option.case by (auto simp: rid)
  qed
  then have "\<forall>i \<in> set ids. lastRecord (?step c ops) i \<noteq> None"
    using Cons.prems(2) by auto
  then have "lastRecord (fold ?step cs (?step c ops)) j =
      (if j \<in> set cs \<and> mc_operations m j \<noteq> None then mc_operations m j else lastRecord (?step c ops) j)"
    using Cons.prems(1) by (intro Cons.IH) auto
  then show ?case
    using step [of j] by auto
qed

lemma deliverRecords_frame [simp]:
  "mc_operations (deliverRecords ops m) = mc_operations m" "mc_opOrder (deliverRecords ops m) = mc_opOrder m"
  "mc_changed (deliverRecords ops m) = mc_changed m" "mc_tokenSeq (deliverRecords ops m) = mc_tokenSeq m"
  "mc_omitTokenIn (deliverRecords ops m) = mc_omitTokenIn m" "mc_clock (deliverRecords ops m) = mc_clock m"
  unfolding deliverRecords_def by (induction ops arbitrary: m) simp_all

text \<open>What an accepted checkpoint does to the store, from its parts.\<close>

lemma mc_Checkpoint_parts:
  assumes "mc_Checkpoint js si us m = (Inr (tok, ops), m')"
  obtains updated m1 m2 m3 where "validateCheckpoint js us = None" "applyUpdates us m = (updated, m1)"
    "m2 = (if startedInvokes us = [] then m1 else si (startedInvokes us) m1)"
    "m3 = (if us = [] \<or> reportsFinishedWork us then advanceTimers (\<lambda>i. i \<in> set (map (\<lambda>u. toString (ou_Id u)) us)) m2 else m2)"
    "ops = responseRecords (map (\<lambda>u. toString (ou_Id u)) us) updated m3"
    "mc_operations m' = mc_operations m3" "mc_opOrder m' = mc_opOrder m3" "mc_changed m' = []"
    "mc_clock m' = mc_clock m3" "mc_tokenSeq m' = Suc (mc_tokenSeq m3)"
    "tok = '''' \<or> tok = ''test-token-'' @ itoa (mc_tokenSeq m')" "mc_token m' = ''test-token-'' @ itoa (mc_tokenSeq m')"
proof -
  obtain updated m1 where ap: "applyUpdates us m = (updated, m1)"
    by (cases "applyUpdates us m") blast
  have v: "validateCheckpoint js us = None"
    using assms by (auto simp: mc_Checkpoint_def split: option.splits)
  show ?thesis
    using assms ap v
    by (intro that [OF v ap refl refl]) (auto simp: mc_Checkpoint_def Let_def split: if_splits)
qed

lemma mc_Checkpoint_sync:
  assumes wf: "mc_wf m" and sync: "in_sync st m" and si: "\<And>ids. external_actor (si ids)"
    and ck: "mc_Checkpoint js si us m = (Inr (tok, ops), m')"
  shows "mc_wf m' \<and> in_sync (es_merge (map operationFromAPI ops) st) m'"
proof -
  obtain updated m1 m2 m3 where parts: "applyUpdates us m = (updated, m1)"
    "m2 = (if startedInvokes us = [] then m1 else si (startedInvokes us) m1)"
    "m3 = (if us = [] \<or> reportsFinishedWork us then advanceTimers (\<lambda>i. i \<in> set (map (\<lambda>u. toString (ou_Id u)) us)) m2 else m2)"
    "ops = responseRecords (map (\<lambda>u. toString (ou_Id u)) us) updated m3"
    "mc_operations m' = mc_operations m3" "mc_opOrder m' = mc_opOrder m3" "mc_changed m' = []"
    using mc_Checkpoint_parts [OF ck] by metis
  let ?ids = "(\<lambda>u. toString (ou_Id u)) ` set us"
  note ap = applyUpdates_facts [OF parts(1)]
  have wf1: "mc_wf m1"
    by (rule applyUpdates_wf [OF wf parts(1)])
  define f where "f = (\<lambda>m. if startedInvokes us = [] then m else si (startedInvokes us) m)"
  define g where "g = (\<lambda>m. if us = [] \<or> reportsFinishedWork us
      then advanceTimers (\<lambda>i. i \<in> set (map (\<lambda>u. toString (ou_Id u)) us)) m else m)"
  have fa: "external_actor f"
    unfolding f_def by (cases "startedInvokes us = []") (simp_all add: external_actor_id si)
  have ga: "external_actor g"
    unfolding g_def
    by (cases "us = [] \<or> reportsFinishedWork us") (simp_all add: external_actor_id timers.external_actor_axioms)
  have actor: "external_actor (\<lambda>m. g (f m))"
    by (rule external_actor_comp [OF fa ga])
  have m3: "m3 = g (f m1)"
    unfolding f_def g_def using parts(2,3) by simp
  have wf3: "mc_wf m3" and marks: "\<And>i. mc_operations m3 i \<noteq> mc_operations m1 i \<Longrightarrow> i \<in> set (mc_changed m3)"
    and keeps: "set (mc_changed m1) \<subseteq> set (mc_changed m3)"
    unfolding m3 by (rule external_actor.act_wf [OF actor wf1] external_actor.act_marks [OF actor wf1]
      external_actor.act_keeps [OF actor wf1]; assumption)+
  have last: "lastRecord ops j = (if j \<in> set (mc_changed m3) \<and> mc_operations m3 j \<noteq> None then mc_operations m3 j
      else if j \<in> ?ids then mc_operations m1 j else None)" for j
    unfolding parts(4) responseRecords_def
    by (subst responseRecords_last) (use wf3 ap in \<open>auto simp: mc_wf_def\<close>)
  have "map_option core (es_operations (es_merge (map operationFromAPI ops) st) j) =
      map_option (core \<circ> operationFromAPI) (mc_operations m' j)" for j
  proof (cases "j \<in> set (mc_changed m3) \<and> mc_operations m3 j \<noteq> None")
    case True
    then show ?thesis
      by (auto simp: merge_lastRecord last parts(5))
  next
    case False
    then have same: "mc_operations m3 j = mc_operations m1 j"
      using marks [of j] wf3 unfolding mc_wf_def by blast
    show ?thesis
    proof (cases "j \<in> ?ids")
      case True
      then obtain r where "mc_operations m1 j = Some r"
        using ap by blast
      then show ?thesis
        using False True same by (simp add: merge_lastRecord last parts(5))
    next
      case outside: False
      then have "mc_operations m1 j = mc_operations m j" "lastRecord ops j = None"
        using ap False last [of j] by auto
      moreover have "j \<notin> set (mc_changed m)"
        using keeps ap False wf3 by (auto simp: mc_wf_def)
      ultimately show ?thesis
        using sync same by (simp add: merge_lastRecord parts(5) in_sync_def)
    qed
  qed
  moreover have "mc_wf m'"
    using wf3 parts(5-7) by (simp add: mc_wf_def)
  ultimately show ?thesis
    by (simp add: in_sync_def)
qed

section \<open>The view along an invocation\<close>

text \<open>
  What happens to the service and the engine's view during an invocation: a
  checkpoint call of the engine, or an external actor at any moment.
\<close>

datatype svcAction =
    SvcCheckpoint "operationUpdate list" "string \<Rightarrow> settlement option"
  | SvcCompleteCallback string settlement
  | SvcTimeoutCallback string
  | SvcSettleInvoke string settlement
  | SvcOmitToken nat

definition svc_step :: "(errorObject \<Rightarrow> nat) \<Rightarrow> svcAction \<Rightarrow> executionState \<times> memoryClient \<Rightarrow>
    (executionState \<times> memoryClient) option" where
  "svc_step js a s = (case s of (st, m) \<Rightarrow> (case a of
      SvcCheckpoint us outcome \<Rightarrow>
        (case mc_Checkpoint js (runTargets outcome) us m of
           (Inl e, m') \<Rightarrow> Some (st, m')
         | (Inr (tok, ops), m') \<Rightarrow>
             if tok = '''' then None else Some (es_merge (map operationFromAPI ops) st, m'))
    | SvcCompleteCallback cid res \<Rightarrow> Some (st, snd (completeCallback cid res m))
    | SvcTimeoutCallback cid \<Rightarrow> Some (st, snd (timeoutCallback cid m))
    | SvcSettleInvoke i res \<Rightarrow> Some (st, snd (settleInvokeByID i res m))
    | SvcOmitToken n \<Rightarrow> Some (st, m \<lparr> mc_omitTokenIn := n \<rparr>)))"

definition svc_inv :: "executionState \<times> memoryClient \<Rightarrow> bool" where
  "svc_inv s \<longleftrightarrow> mc_wf (snd s) \<and> in_sync (fst s) (snd s)"

lemma mc_Checkpoint_error: "mc_Checkpoint js si us m = (Inl e, m') \<Longrightarrow> m' = m"
  by (auto simp: mc_Checkpoint_def Let_def split: option.splits prod.splits if_splits)

lemma svc_step_inv:
  assumes "svc_step js a s = Some s'" and "svc_inv s"
  shows "svc_inv s'"
proof -
  obtain st m where s: "s = (st, m)" by (cases s)
  have inv: "mc_wf m" "in_sync st m"
    using assms(2) by (simp_all add: svc_inv_def s)
  show ?thesis
  proof (cases a)
    case (SvcCheckpoint us outcome)
    obtain r m' where ck: "mc_Checkpoint js (runTargets outcome) us m = (r, m')"
      by (cases "mc_Checkpoint js (runTargets outcome) us m") blast
    show ?thesis
    proof (cases r)
      case (Inl e)
      then show ?thesis
        using assms SvcCheckpoint ck mc_Checkpoint_error [of js _ us m e m'] by (auto simp: svc_step_def s)
    next
      case (Inr p)
      obtain tok ops where p: "p = (tok, ops)" by (cases p)
      show ?thesis
        using mc_Checkpoint_sync [OF inv runTargets_actor ck [unfolded Inr p]] assms(1) SvcCheckpoint ck Inr p
        by (auto simp: svc_step_def s svc_inv_def split: if_splits)
    qed
  next
    case (SvcOmitToken n)
    then show ?thesis
      using assms(1) inv by (auto simp: svc_step_def s svc_inv_def mc_wf_def in_sync_def)
  qed (use assms(1) inv in \<open>auto simp: svc_step_def s svc_inv_def callback_caller.act_wf callback_caller.act_sync
        callback_timeout.act_wf callback_timeout.act_sync invoke_target.act_wf invoke_target.act_sync\<close>)
qed

interpretation svc: step_system "svc_step js" svc_inv for js
  by unfold_locales (rule svc_step_inv)

section \<open>Properties\<close>

text \<open>C16: The engine's view follows the service: along any sequence of checkpoint calls, callback resolutions and
  timeouts, chained invokes settled by their targets and timers, every operation that differs between the engine's
  state and the service's store (status, attempt, result, recorded error; times and parents aside) is one the next
  checkpoint response will report; so directly after an accepted call the two agree on every operation.\<close>
theorem view_follows_service:
  assumes "run_steps (svc_step js) as (emptyState, newMemoryClient t) = Some (st, m)"
  shows "(\<forall>i. i \<notin> set (mc_changed m) \<longrightarrow>
            map_option core (es_operations st i) = map_option (core \<circ> operationFromAPI) (mc_operations m i)) \<and>
         (\<forall>us outcome tok ops m' i. mc_Checkpoint js (runTargets outcome) us m = (Inr (tok, ops), m') \<longrightarrow>
            map_option core (es_operations (es_merge (map operationFromAPI ops) st) i) =
            map_option (core \<circ> operationFromAPI) (mc_operations m' i))"
proof -
  have "svc_inv (emptyState, newMemoryClient t)"
    using mc_wf_new [of t] by (simp add: svc_inv_def in_sync_def emptyState_def) (simp add: newMemoryClient_def)
  then have inv: "mc_wf m" "in_sync st m"
    using svc.run_inv [OF assms] by (simp_all add: svc_inv_def)
  moreover have "in_sync (es_merge (map operationFromAPI ops) st) m' \<and> mc_changed m' = []"
    if "mc_Checkpoint js (runTargets outcome) us m = (Inr (tok, ops), m')" for us outcome tok ops m'
    using mc_Checkpoint_sync [OF inv runTargets_actor that] mc_Checkpoint_parts [OF that] by metis
  ultimately show ?thesis
    by (simp add: in_sync_def)
qed

definition ex_stepUpdate :: "operationAction \<Rightarrow> operationUpdate" where
  "ex_stepUpdate act = (mkUpdate ''a1'' OperationTypeStep act) \<lparr> ou_NextAttemptDelaySeconds := Some 5 \<rparr>"

lemmas svc_eval = svc_step_def mc_Checkpoint_def validateCheckpoint_def shapeError_def payloadError_def
  applyUpdate_def updatedRecord_def Let_def deriveStatus_def stampTransition_def buildStepDetails_def
  startedInvokes_def reportsFinishedWork_def ex_stepUpdate_def newMemoryClient_def advanceTimers_def earliestDue_def
  timerDue_def responseRecords_def deliverRecords_def stepPayloadLimit_def errorObjectLimit_def

theorem view_follows_service_witness:
  "\<exists>st m. run_steps (svc_step (\<lambda>_. 0)) [SvcCheckpoint [ex_stepUpdate OperationActionRetry] (\<lambda>_. None)]
        (emptyState, newMemoryClient 0) = Some (st, m) \<and>
     (\<forall>i. i \<notin> set (mc_changed m) \<longrightarrow>
            map_option core (es_operations st i) = map_option (core \<circ> operationFromAPI) (mc_operations m i)) \<and>
     map_option op_status (es_operations st ''a1'') = Some statusPending"
proof -
  let ?r = "run_steps (svc_step (\<lambda>_. 0)) [SvcCheckpoint [ex_stepUpdate OperationActionRetry] (\<lambda>_. None)]
        (emptyState, newMemoryClient 0)"
  have "?r \<noteq> None \<and> map_option op_status (es_operations (fst (the ?r)) ''a1'') = Some statusPending"
    by (simp add: svc_eval state_simps)
  then obtain st m where sm: "?r = Some (st, m)" "map_option op_status (es_operations st ''a1'') = Some statusPending"
    by auto
  show ?thesis
    using sm view_follows_service [OF sm(1)] by blast
qed





end
