(* ===== verification/Durations.thy ===== *)
theory Durations
  imports Prelude Go_Errors
begin

text \<open>
  Durations (duration.go).  A time.Duration is a number of nanoseconds.
  Duration.Seconds is computed in float64: the whole seconds plus the
  nanoseconds divided by 10^9, each operation rounded to 53 bits, half to
  even; the rounding is written out on natural numbers.  The theorems say for
  which durations the number of seconds sent to the service is exact.
\<close>

section \<open>Seconds in float64\<close>

definition round_half_even :: "nat \<Rightarrow> nat \<Rightarrow> nat" where
  "round_half_even n d =
    (let q = n div d; r = n mod d in
     if 2 * r < d then q else if 2 * r > d then q + 1 else if even q then q else q + 1)"

text \<open>The quotient of nanoseconds and 10^9 as mantissa and negated exponent; the exponent is at most 82.\<close>

definition float_fraction :: "nat \<Rightarrow> nat \<times> nat" where
  "float_fraction nsec =
    (if nsec = 0 then (0, 0)
     else let e = the (find (\<lambda>e. nsec * 2 ^ e \<ge> 2 ^ 52 * 10 ^ 9) [52..<83])
          in (round_half_even (nsec * 2 ^ e) (10 ^ 9), e))"

text \<open>The sum, rounded to 53 bits, over the same power of two.\<close>

definition float_round :: "nat \<Rightarrow> nat" where
  "float_round n = (let k = the (find (\<lambda>k. n < 2 ^ (53 + k)) [0..<80]) in round_half_even n (2 ^ k) * 2 ^ k)"

definition ceilSeconds :: "nat \<Rightarrow> nat" where
  "ceilSeconds d =
    (let (m, e) = float_fraction (d mod 10 ^ 9); s = float_round ((d div 10 ^ 9) * 2 ^ e + m)
     in (s + 2 ^ e - 1) div 2 ^ e)"

definition durationError :: "string \<Rightarrow> goErr" where
  "durationError msg = Err (KPlain ''errorString'' msg) []"

text \<open>The printed form of a duration (Duration.String) is an argument of the message only.\<close>

definition durationToSeconds :: "(int \<Rightarrow> string) \<Rightarrow> int \<Rightarrow> goErr + int" where
  "durationToSeconds show d =
    (if d < 0 then Inl (durationError (''durable: duration must not be negative, got '' @ show d))
     else let sec = int (ceilSeconds (nat d)) in
          if sec > maxInt32
          then Inl (durationError (''durable: duration '' @ show d @ '' exceeds maximum of '' @ int_string maxInt32 @ '' seconds''))
          else Inr sec)"

section \<open>Rounding errors stay below a nanosecond up to 2^22 seconds\<close>

lemma round_half_even_bounds:
  assumes "0 < d"
  shows "2 * n \<le> 2 * (d * round_half_even n d) + d" "2 * (d * round_half_even n d) \<le> 2 * n + d"
proof -
  define q r where "q = n div d" and "r = n mod d"
  have n: "n = d * q + r" and r: "r < d" using assms by (simp_all add: q_def r_def)
  have e: "round_half_even n d = (if 2 * r < d then q else if 2 * r > d then q + 1 else if even q then q else q + 1)"
    by (simp add: round_half_even_def Let_def q_def r_def)
  show "2 * n \<le> 2 * (d * round_half_even n d) + d" "2 * (d * round_half_even n d) \<le> 2 * n + d"
    using r unfolding e by (simp_all add: n algebra_simps)
qed

lemma round_half_even_one [simp]: "round_half_even n (Suc 0) = n"
  by (simp add: round_half_even_def)

lemma find_upt:
  assumes "P b" and "a \<le> b" and "b < c"
  obtains x where "find P [a..<c] = Some x" "P x" "a \<le> x" "x \<le> b" "\<And>j. a \<le> j \<Longrightarrow> j < x \<Longrightarrow> \<not> P j"
proof -
  have "find P [a..<c] \<noteq> None"
    using assms by (auto simp: find_None_iff)
  then obtain x where f: "find P [a..<c] = Some x" by blast
  then obtain i where i: "i < length [a..<c]" "P ([a..<c] ! i)" "x = [a..<c] ! i" "\<forall>j<i. \<not> P ([a..<c] ! j)"
    by (auto simp: find_Some_iff)
  have least: "\<not> P j" if "a \<le> j" "j < x" for j
    using i that by (auto dest: spec [of _ "j - a"])
  show ?thesis
  proof (rule that [OF f])
    show "P x" "a \<le> x" using i by auto
    show "x \<le> b" using least [of b] assms by (meson not_le)
  qed (use least in blast)
qed

lemma float_round_bounds:
  assumes "n < 2 ^ 132"
  obtains K where "2 * n \<le> 2 * float_round n + K" "2 * float_round n \<le> 2 * n + K"
    "K = 0 \<or> 2 ^ 52 * K \<le> n"
proof -
  obtain k where k: "find (\<lambda>k. n < 2 ^ (53 + k)) [0..<80] = Some k" "n < 2 ^ (53 + k)"
    "\<And>j. j < k \<Longrightarrow> \<not> n < 2 ^ (53 + j)"
    by (rule find_upt [of "\<lambda>k. n < 2 ^ (53 + k)" 79 0 80]) (use assms in auto)
  have fr: "float_round n = round_half_even n (2 ^ k) * 2 ^ k"
    by (simp only: float_round_def Let_def k(1) option.sel)
  show ?thesis
  proof (cases k)
    case 0
    then show ?thesis by (intro that [of 0]) (simp_all add: fr)
  next
    case (Suc j)
    have "2 ^ 52 * (2::nat) ^ k \<le> n"
      using k(3) [of j] Suc by (simp add: power_add)
    then show ?thesis
      using round_half_even_bounds [of "2 ^ k" n] by (intro that [of "2 ^ k"]) (simp_all add: fr mult.commute)
  qed
qed

lemma float_fraction_bounds:
  assumes "0 < r" and "r < 10 ^ 9"
  obtains m e F where "float_fraction r = (m, e)" "(2::nat) ^ e = 2 ^ 30 * F" "2 ^ 22 \<le> F" "e \<le> 82"
    "2 * (r * (2 ^ 30 * F)) \<le> 2 * (10 ^ 9 * m) + 10 ^ 9" "2 * (10 ^ 9 * m) \<le> 2 * (r * (2 ^ 30 * F)) + 10 ^ 9"
proof -
  have "(2::nat) ^ 52 * 10 ^ 9 \<le> 1 * 2 ^ 82" by simp
  also have "\<dots> \<le> r * 2 ^ 82" using assms(1) by (intro mult_le_mono1) simp
  finally have ex: "2 ^ 52 * 10 ^ 9 \<le> r * 2 ^ 82" .
  obtain e where e: "find (\<lambda>e. r * 2 ^ e \<ge> 2 ^ 52 * 10 ^ 9) [52..<83] = Some e" "52 \<le> e" "e \<le> 82"
    using ex by (rule find_upt [of "\<lambda>e. r * 2 ^ e \<ge> 2 ^ 52 * 10 ^ 9" 82 52 83]) auto
  have ff: "float_fraction r = (round_half_even (r * 2 ^ e) (10 ^ 9), e)"
    using assms(1) by (simp only: float_fraction_def Let_def e(1) option.sel) simp
  obtain j where j: "e = 52 + j" using e(2) le_Suc_ex by blast
  have "(2::nat) ^ e = 2 ^ 30 * (2 ^ 22 * 2 ^ j)" by (simp add: j power_add)
  moreover have "2 ^ 22 \<le> 2 ^ 22 * (2::nat) ^ j" by simp
  ultimately show thesis
    using round_half_even_bounds [of "10 ^ 9" "r * 2 ^ e"] e(3) ff by (intro that [of _ e "2 ^ 22 * 2 ^ j"]) simp_all
qed

lemma between:
  "K \<le> F \<Longrightarrow> 2 * (g + m) \<le> 2 * a + K \<Longrightarrow> 2 * a \<le> 2 * (g + m) + K \<Longrightarrow> F < m \<Longrightarrow> m + F \<le> E \<Longrightarrow>
   (g::nat) < a \<and> a \<le> g + E"
  by auto

lemma ceilSeconds_exact:
  assumes "d < 2 ^ 22 * 10 ^ 9"
  shows "ceilSeconds d = (d + 10 ^ 9 - 1) div 10 ^ 9"
proof -
  define s r where "s = d div 10 ^ 9" and "r = d mod 10 ^ 9"
  have d: "d = 10 ^ 9 * s + r" and r: "r < 10 ^ 9" by (simp_all add: s_def r_def)
  have s: "s < 2 ^ 22" using assms by (simp add: s_def less_mult_imp_div_less)
  show ?thesis
  proof (cases "r = 0")
    case True
    have "find (\<lambda>k. s < 2 ^ (53 + k)) [0..<80] = Some 0"
      using s by (simp add: upt_conv_Cons)
    then have "float_round s = s" by (simp add: float_round_def)
    then show ?thesis
      using True by (simp add: ceilSeconds_def float_fraction_def d flip: r_def s_def)
  next
    case False
    obtain m e F where f: "float_fraction r = (m, e)" "(2::nat) ^ e = 2 ^ 30 * F" "2 ^ 22 \<le> F" "e \<le> 82"
      "2 * (r * (2 ^ 30 * F)) \<le> 2 * (10 ^ 9 * m) + 10 ^ 9" "2 * (10 ^ 9 * m) \<le> 2 * (r * (2 ^ 30 * F)) + 10 ^ 9"
      using float_fraction_bounds [of r] False r by auto
    let ?E = "2 ^ 30 * F"
    define q where "q = r * F"
    have p: "F \<le> q" "q \<le> 999999999 * F"
      using False r by (simp_all add: q_def)
    have "2147483648 * q \<le> 2000000000 * m + 1000000000" "2000000000 * m \<le> 2147483648 * q + 1000000000"
      using f(5,6) by (simp_all add: q_def algebra_simps)
    then have mr: "F < m" "m + F \<le> ?E"
      using p f(3) by simp_all
    have E: "?E * (s + 1) \<le> 2 ^ 52 * F" "?E \<le> 2 ^ 82"
    proof -
      have "(2::nat) ^ e \<le> 2 ^ 82" using f(4) by (rule power_increasing) simp
      then show "?E \<le> 2 ^ 82" by (simp only: f(2))
      have "?E * (s + 1) \<le> ?E * 2 ^ 22" using s by (intro mult_le_mono2) simp
      then show "?E * (s + 1) \<le> 2 ^ 52 * F" by simp
    qed
    let ?N = "s * 2 ^ e + m"
    have N: "?N = s * ?E + m" by (simp only: f(2))
    have N': "?N \<le> 2 ^ 52 * F"
    proof -
      have "s * ?E + m \<le> ?E * (s + 1)" using mr(2) by (simp add: distrib_left mult.commute)
      then show ?thesis using E(1) unfolding N by linarith
    qed
    then have "?N < 2 ^ 132" using E(2) by simp
    then obtain K where K: "2 * ?N \<le> 2 * float_round ?N + K" "2 * float_round ?N \<le> 2 * ?N + K"
      "K = 0 \<or> 2 ^ 52 * K \<le> ?N"
      by (rule float_round_bounds)
    then have "K \<le> F" using N' by auto
    then have S: "s * ?E < float_round ?N" "float_round ?N \<le> s * ?E + ?E"
      using between [OF _ K(1,2) [unfolded N] mr] unfolding N by blast+
    have "(float_round ?N + ?E - 1) div ?E = s + 1"
    proof (rule div_nat_eqI)
      show "?E * (s + 1) \<le> float_round ?N + ?E - 1" "float_round ?N + ?E - 1 < ?E * Suc (s + 1)"
        using S f(3) by (simp_all add: algebra_simps)
    qed
    then have "ceilSeconds d = s + 1"
      unfolding ceilSeconds_def r_def [symmetric] s_def [symmetric] f(1) Let_def prod.case f(2) .
    moreover have "(d + 10 ^ 9 - 1) div 10 ^ 9 = s + 1"
      by (rule div_nat_eqI) (use False r in \<open>simp_all add: d\<close>)
    ultimately show ?thesis by simp
  qed
qed

lemma ceil_div_round_up:
  assumes "0 < b" shows "(a + b - 1) div b = ceil_div a b"
  using ceil_div_bounds [OF assms, of a]
  by (intro int_div_pos_eq [of _ _ _ "a + b - 1 - b * ceil_div a b"]) simp_all

section \<open>Property\<close>

text \<open>C25: Every duration below 2^22 seconds (48 days) is sent to the service as its exact number of seconds rounded up,
  so no wait or retry delay in that range is shortened; a negative duration is an error; and whatever the duration,
  a number of seconds that is sent lies between 0 and the largest 32-bit integer.\<close>
theorem durationToSeconds_exact:
  "(0 \<le> d \<and> d < 2 ^ 22 * 10 ^ 9 \<longrightarrow> durationToSeconds show d = Inr (ceil_div d (10 ^ 9)) \<and>
       d \<le> 10 ^ 9 * ceil_div d (10 ^ 9)) \<and>
   (d < 0 \<longrightarrow> (\<exists>e. durationToSeconds show d = Inl e)) \<and>
   (durationToSeconds show d = Inr n \<longrightarrow> 0 \<le> n \<and> n \<le> maxInt32)"
proof (intro conjI impI)
  assume d: "0 \<le> d \<and> d < 2 ^ 22 * 10 ^ 9"
  then have "int (ceilSeconds (nat d)) = (d + 10 ^ 9 - 1) div 10 ^ 9"
    by (subst ceilSeconds_exact) (auto simp: nat_less_iff zdiv_int of_nat_diff)
  also have "\<dots> = ceil_div d (10 ^ 9)" by (rule ceil_div_round_up) simp
  finally have c: "int (ceilSeconds (nat d)) = ceil_div d (10 ^ 9)" .
  have "10 ^ 9 * ceil_div d (10 ^ 9) < d + 10 ^ 9" by (rule ceil_div_bounds) simp
  then show "durationToSeconds show d = Inr (ceil_div d (10 ^ 9))"
    using d c by (simp add: durationToSeconds_def maxInt32_def)
  show "d \<le> 10 ^ 9 * ceil_div d (10 ^ 9)" by (rule ceil_div_bounds) simp
qed (auto simp: durationToSeconds_def Let_def split: if_splits)

theorem durationToSeconds_exact_witness:
  "durationToSeconds (\<lambda>_. '''') 1500000000 = Inr 2"
  using durationToSeconds_exact [of 1500000000 "\<lambda>_. ''''" 2] by (simp add: ceil_div_def)

end
