(* ===== verification/Engine.thy ===== *)
theory Engine
  imports Durations Op_Ids Exec_State Ckpt_Errors
begin

text \<open>
  What a durable operation uses of its invocation (execution_context.go,
  park.go, serdes_failure.go, validation.go): the context that claims
  operation IDs and tracks the replay mode, and the services of the engine
  (the operation log, the checkpointer and the suspension signal) as a record
  of functions on an invocation state.  The operations take that record as an
  argument; Mem_Engine builds it from the checkpointer, the execution state
  and the in-memory service.
\<close>

section \<open>The engine's services\<close>

text \<open>
  eng_get is executionState.get, eng_checkpoint and eng_checkpointNoWait are
  the checkpointer's, eng_await is suspendSignal.awaitOperation (an error is
  the suspension), eng_fired is suspendSignal.fired and eng_park the wait of
  parkUnfinishedReplay: whether the invocation suspended or was committed to
  PENDING.  eng_durationText is Duration.String.
\<close>

record 'w engine =
  eng_hash :: "string \<Rightarrow> string"
  eng_durationText :: "int \<Rightarrow> string"
  eng_get :: "'w \<Rightarrow> string \<Rightarrow> operation option"
  eng_hasChildOf :: "'w \<Rightarrow> string \<Rightarrow> bool"
  eng_newOutcome :: "'w \<Rightarrow> string \<Rightarrow> bool"
  eng_fired :: "'w \<Rightarrow> bool"
  eng_checkpoint :: "operationUpdate list \<Rightarrow> 'w \<Rightarrow> goErr option \<times> 'w"
  eng_checkpointNoWait :: "operationUpdate \<Rightarrow> 'w \<Rightarrow> goErr option \<times> 'w"
  eng_await :: "string \<Rightarrow> (operation option \<Rightarrow> bool) \<Rightarrow> 'w \<Rightarrow> (goErr + operation) \<times> 'w"
  eng_park :: "'w \<Rightarrow> bool \<times> 'w"
  eng_halt :: "goErr \<Rightarrow> 'w \<Rightarrow> 'w"

section \<open>The execution context\<close>

datatype executionMode = modeExecution | modeReplay | modeReplaySucceededContext

record execContext =
  ec_ids :: opIDs
  ec_mode :: executionMode
  ec_blocked :: bool
  ec_abandoned :: bool
  ec_checkpointParent :: string
  ec_virtual :: bool

definition newExecContext :: "nat \<Rightarrow> execContext" where
  "newExecContext numOperations =
     \<lparr> ec_ids = ids_root, ec_mode = (if numOperations > 1 then modeReplay else modeExecution),
       ec_blocked = False, ec_abandoned = False, ec_checkpointParent = '''', ec_virtual = False \<rparr>"

definition isReplaying :: "execContext \<Rightarrow> bool" where
  "isReplaying ec \<longleftrightarrow> ec_mode ec = modeReplay \<or> ec_mode ec = modeReplaySucceededContext"

definition ec_child :: "string \<Rightarrow> executionMode \<Rightarrow> execContext \<Rightarrow> execContext" where
  "ec_child entityID mode ec =
     \<lparr> ec_ids = ids_child entityID, ec_mode = mode, ec_blocked = False, ec_abandoned = ec_abandoned ec,
       ec_checkpointParent = entityID, ec_virtual = False \<rparr>"

text \<open>
  Claims.  callerErr is what the goroutine ownership and active-context checks
  of the calling goroutine report.
\<close>

definition claimable :: "'w engine \<Rightarrow> goErr option \<Rightarrow> execContext \<Rightarrow> 'w \<Rightarrow> goErr option" where
  "claimable E callerErr ec w =
     (if eng_fired E w then Some (sentinelErr errSuspendExecution)
      else if ec_blocked ec then Some (sentinelErr errSuspendExecution)
      else if ec_abandoned ec then Some (sentinelErr errSuspendExecution)
      else callerErr)"

definition refreshReplayMode :: "'w engine \<Rightarrow> 'w \<Rightarrow> execContext \<Rightarrow> execContext" where
  "refreshReplayMode E w ec =
     (if ec_mode ec \<noteq> modeReplay then ec
      else let pendingID = ids_peek (ec_ids ec) in
        if eng_get E w pendingID \<noteq> None \<or> eng_get E w (pendingID @ ''-1'') \<noteq> None then ec
        else ec \<lparr> ec_mode := modeExecution \<rparr>)"

definition claimOperation :: "'w engine \<Rightarrow> goErr option \<Rightarrow> execContext \<Rightarrow> 'w \<Rightarrow> (goErr + string) \<times> execContext" where
  "claimOperation E callerErr ec w =
     (case claimable E callerErr ec w of Some e \<Rightarrow> (Inl e, ec)
      | None \<Rightarrow> (let ec' = refreshReplayMode E w ec; (i, ids') = ids_next (ec_ids ec')
                in (Inr i, ec' \<lparr> ec_ids := ids' \<rparr>)))"

definition receiveOutcome :: "goErr option \<Rightarrow> bool \<Rightarrow> execContext \<Rightarrow> execContext" where
  "receiveOutcome err isNew ec =
     (if ec_mode ec \<noteq> modeReplay then ec
      else if (case err of Some e \<Rightarrow> errors_Is e errSuspendExecution | None \<Rightarrow> False) then ec
      else if \<not> isNew then ec else ec \<lparr> ec_mode := modeExecution \<rparr>)"

definition observeOutcome :: "'w engine \<Rightarrow> string \<Rightarrow> goErr option \<Rightarrow> 'w \<Rightarrow> execContext \<Rightarrow> execContext" where
  "observeOutcome E i err w ec = receiveOutcome err (eng_newOutcome E w i) ec"

definition unfinishedInSucceededContext :: "execContext \<Rightarrow> operation option \<Rightarrow> bool" where
  "unfinishedInSucceededContext ec po \<longleftrightarrow>
     ec_mode ec = modeReplaySucceededContext \<and>
     (case po of None \<Rightarrow> True | Some op \<Rightarrow> \<not> status_terminal (op_status op))"

section \<open>Replay validation\<close>

definition operationType_string :: "operationType \<Rightarrow> string" where
  "operationType_string t = (case t of
      OperationTypeExecution \<Rightarrow> ''EXECUTION'' | OperationTypeContext \<Rightarrow> ''CONTEXT''
    | OperationTypeStep \<Rightarrow> ''STEP'' | OperationTypeWait \<Rightarrow> ''WAIT''
    | OperationTypeCallback \<Rightarrow> ''CALLBACK'' | OperationTypeChainedInvoke \<Rightarrow> ''CHAINED_INVOKE''
    | OperationTypeOther s \<Rightarrow> s)"

definition operationStatus_string :: "operationStatus \<Rightarrow> string" where
  "operationStatus_string s = (case s of
      statusStarted \<Rightarrow> ''STARTED'' | statusPending \<Rightarrow> ''PENDING'' | statusReady \<Rightarrow> ''READY''
    | statusSucceeded \<Rightarrow> ''SUCCEEDED'' | statusFailed \<Rightarrow> ''FAILED'' | statusCancelled \<Rightarrow> ''CANCELLED''
    | statusTimedOut \<Rightarrow> ''TIMED_OUT'' | statusStopped \<Rightarrow> ''STOPPED'' | statusOther x \<Rightarrow> x)"

definition mismatchOf :: "operation \<Rightarrow> operationType \<Rightarrow> string \<Rightarrow> string \<Rightarrow> replayMismatch" where
  "mismatchOf op ty sub nm =
     \<lparr> nd_currentType = operationType_string ty, nd_currentSubType = sub, nd_currentName = nm,
       nd_recordedType = operationType_string (op_opType op), nd_recordedSubType = op_subType op,
       nd_recordedName = op_name op \<rparr>"

definition validateReplayConsistency :: "operation option \<Rightarrow> operationType \<Rightarrow> string \<Rightarrow> string \<Rightarrow> goErr option" where
  "validateReplayConsistency po expectedType expectedSubType expectedName = (case po of None \<Rightarrow> None
     | Some op \<Rightarrow>
        (let e = Some (Err (KNonDeterministic expectedName (op_id op)
                    (mismatchOf op expectedType expectedSubType expectedName) '''' '''') []) in
         if operationType_string (op_opType op) = '''' then None
         else if op_opType op \<noteq> expectedType then e
         else if expectedSubType \<noteq> '''' \<and> op_subType op \<noteq> expectedSubType then e
         else if op_name op \<noteq> expectedName then e
         else None))"

definition newUnfinishedReplayError :: "operation option \<Rightarrow> string \<Rightarrow> operationType \<Rightarrow> string \<Rightarrow> string \<Rightarrow> goErr" where
  "newUnfinishedReplayError po i opType subType nm =
    (let mm = (case po of Some op \<Rightarrow> mismatchOf op opType subType nm
           | None \<Rightarrow> \<lparr> nd_currentType = operationType_string opType, nd_currentSubType = subType, nd_currentName = nm,
                      nd_recordedType = '''', nd_recordedSubType = '''', nd_recordedName = '''' \<rparr>);
         ckpt = (case po of None \<Rightarrow> ''has no checkpoint''
           | Some op \<Rightarrow> ''is checkpointed as '' @ operationStatus_string (op_status op))
     in Err (KNonDeterministic nm i mm ''''
          (''durable: non-deterministic replay at step '' @ goQuote i @ '' (name '' @ goQuote nm @ ''): '' @
           operationType_string opType @ ''/'' @ subType @
           '' was awaited inside a child context whose result is already recorded, but the operation '' @ ckpt @
           '' and had not completed when that result was recorded; '' @
           ''it does not run again during replay, so the await can never settle'')) [])"

definition parkUnfinishedReplay :: "'w engine \<Rightarrow> execContext \<Rightarrow> operation option \<Rightarrow> string \<Rightarrow> operationType \<Rightarrow>
    string \<Rightarrow> string \<Rightarrow> 'w \<Rightarrow> goErr \<times> execContext \<times> 'w" where
  "parkUnfinishedReplay E ec po i opType subType nm w =
    (let (suspended, w') = eng_park E w in
     if suspended then (sentinelErr errSuspendExecution, ec \<lparr> ec_blocked := True \<rparr>, w')
     else (newUnfinishedReplayError po i opType subType nm, ec, w'))"

section \<open>Waiting for a record\<close>

definition terminalRecord :: "operation option \<Rightarrow> bool" where
  "terminalRecord po = (case po of None \<Rightarrow> False | Some op \<Rightarrow> status_terminal (op_status op))"

definition attemptDueRecord :: "operation option \<Rightarrow> bool" where
  "attemptDueRecord po = (case po of None \<Rightarrow> False
     | Some op \<Rightarrow> op_status op = statusReady \<or> status_terminal (op_status op))"

definition awaitOperation :: "'w engine \<Rightarrow> execContext \<Rightarrow> string \<Rightarrow> (operation option \<Rightarrow> bool) \<Rightarrow> 'w \<Rightarrow>
    (goErr + operation) \<times> execContext \<times> 'w" where
  "awaitOperation E ec i ready w =
    (case eng_await E i ready w of
       (Inl e, w') \<Rightarrow> (Inl e, ec \<lparr> ec_blocked := True \<rparr>, w')
     | (Inr op, w') \<Rightarrow> (Inr op, ec, w'))"

section \<open>Checkpoint failures and serializer failures\<close>

text \<open>Every operation reports a refused checkpoint as the suspension and any other failure as it is.\<close>

definition checkpointFailure :: "goErr \<Rightarrow> goErr" where
  "checkpointFailure e =
     (if errors_Is e errCheckpointTerminated then sentinelErr errSuspendExecution else e)"

text \<open>A serializer of an operation's values; it is given the operation's ID.\<close>

record 'v serdes =
  sz_marshal :: "string \<Rightarrow> 'v \<Rightarrow> goErr + string"
  sz_unmarshal :: "string \<Rightarrow> string \<Rightarrow> goErr + 'v"

definition newSerdesError :: "string \<Rightarrow> string \<Rightarrow> goErr \<Rightarrow> goErr" where
  "newSerdesError oper direction c = Err (KSerdes oper direction) [c]"

definition serdesFailure :: "'w engine \<Rightarrow> string \<Rightarrow> string \<Rightarrow> goErr \<Rightarrow> 'w \<Rightarrow> goErr \<times> 'w" where
  "serdesFailure E oper direction c w =
     (if \<not> errors_Is c ErrRetryableSerdes then (newSerdesError oper direction c, w)
      else let e = Err (KSerdesInvocationEnd oper direction) [c] in (e, eng_halt E e w))"

definition decodeLiveResult :: "'w engine \<Rightarrow> 'v serdes \<Rightarrow> string \<Rightarrow> string \<Rightarrow> string \<Rightarrow> 'w \<Rightarrow> (goErr + 'v) \<times> 'w" where
  "decodeLiveResult E sd i oper serialized w =
    (case sz_unmarshal sd i serialized of Inr v \<Rightarrow> (Inr v, w)
     | Inl c \<Rightarrow> (let (e, w') = serdesFailure E oper ''unmarshal'' c w in (Inl e, w')))"

section \<open>Updates\<close>

definition errorObjectFromRecord :: "errorRecord \<Rightarrow> errorObject" where
  "errorObjectFromRecord r =
     \<lparr> eo_ErrorType = Some (er_errType r), eo_ErrorMessage = Some (er_message r),
       eo_ErrorData = (if er_data r \<noteq> '''' then Some (er_data r) else None), eo_StackTrace = er_stackTrace r \<rparr>"

text \<open>The fields every operation's update shares.\<close>

definition operationBaseUpdate :: "'w engine \<Rightarrow> execContext \<Rightarrow> string \<Rightarrow> string \<Rightarrow> string \<Rightarrow> operationType \<Rightarrow>
    operationAction \<Rightarrow> operationUpdate" where
  "operationBaseUpdate E ec i nm subType ty act =
     (mkUpdate (eng_hash E i) ty act)
       \<lparr> ou_SubType := Some subType, ou_Name := (if nm \<noteq> '''' then Some nm else None),
         ou_ParentId := (if ec_checkpointParent ec \<noteq> '''' then Some (eng_hash E (ec_checkpointParent ec)) else None) \<rparr>"

lemma record_of_errorObject [simp]: "record_of_api (Some (errorObjectFromRecord r)) = r"
  by (simp add: record_of_api_def errorObjectFromRecord_def)

lemma operationBaseUpdate_simps [simp]:
  "ou_Id (operationBaseUpdate E ec i nm s ty act) = Some (eng_hash E i)"
  "ou_Type (operationBaseUpdate E ec i nm s ty act) = ty"
  "ou_Action (operationBaseUpdate E ec i nm s ty act) = act"
  "toString (ou_SubType (operationBaseUpdate E ec i nm s ty act)) = s"
  "toString (ou_Name (operationBaseUpdate E ec i nm s ty act)) = nm"
  "ou_Payload (operationBaseUpdate E ec i nm s ty act) = None"
  "ou_Error (operationBaseUpdate E ec i nm s ty act) = None"
  by (simp_all add: operationBaseUpdate_def)

end
