(* ===== verification/Step_Op.thy ===== *)
theory Step_Op
  imports Engine
begin

text \<open>
  Step (step.go): the loop that drives a step from its checkpointed status,
  one attempt of its body, and the settling of a failed attempt.  Plugin hooks
  are not modelled.  The due time of a scheduled retry only delays the first
  poll, so it is not part of the model.
\<close>

section \<open>Options\<close>

datatype stepSemantics = AtLeastOncePerRetry | AtMostOncePerRetry

text \<open>A retry decision is whether to retry and the delay in nanoseconds.\<close>

record 'v stepOptions =
  so_retry :: "goErr \<Rightarrow> int \<Rightarrow> bool \<times> int"
  so_serdes :: "'v serdes"
  so_semantics :: stepSemantics
  so_subType :: string

definition DefaultRetryDelay :: int where "DefaultRetryDelay = 1000000000"

text \<open>
  A body gets the attempt's number.  It returns a value, or an error with the
  stack trace captured where it arose; a panic is such an error (runUserFunc).
\<close>

type_synonym ('v, 'w) stepBody = "int \<Rightarrow> 'w \<Rightarrow> ((goErr \<times> string list) + 'v) \<times> 'w"

type_synonym 'w queuedStart = "'w \<Rightarrow> goErr option \<times> 'w"

section \<open>One attempt\<close>

definition stepUpdate :: "'w engine \<Rightarrow> execContext \<Rightarrow> string \<Rightarrow> string \<Rightarrow> string \<Rightarrow> operationAction \<Rightarrow> operationUpdate" where
  "stepUpdate E ec i nm subType act = operationBaseUpdate E ec i nm subType OperationTypeStep act"

datatype 'v attemptResult = RetryScheduled | AttemptSettled "goErr + 'v"

definition failStep :: "'w engine \<Rightarrow> execContext \<Rightarrow> string \<Rightarrow> string \<Rightarrow> string \<Rightarrow> goErr \<Rightarrow> string list \<Rightarrow> int \<Rightarrow> 'w \<Rightarrow>
    'v attemptResult \<times> 'w" where
  "failStep E ec i nm subType c trace attempt w =
    (let r = withTrace trace (recordOf c);
         u = (stepUpdate E ec i nm subType OperationActionFail) \<lparr> ou_Error := Some (errorObjectFromRecord r) \<rparr>
     in case eng_checkpoint E [u] w of
          (Some e, w') \<Rightarrow> (AttemptSettled (Inl (checkpointFailure e)), w')
        | (None, w') \<Rightarrow> (AttemptSettled (Inl (newStepError nm attempt r)), w'))"

definition settleStepFailure :: "'w engine \<Rightarrow> execContext \<Rightarrow> string \<Rightarrow> string \<Rightarrow> 'v stepOptions \<Rightarrow> goErr \<Rightarrow> string list \<Rightarrow> int \<Rightarrow>
    'w \<Rightarrow> 'v attemptResult \<times> 'w" where
  "settleStepFailure E ec i nm options c trace attempt w =
    (case so_retry options c attempt of (retry, delay) \<Rightarrow>
     if \<not> retry then failStep E ec i nm (so_subType options) c trace attempt w
     else let r = withTrace trace (recordOf c) in
       case durationToSeconds (eng_durationText E) (if delay = 0 then DefaultRetryDelay else delay) of
         Inl e \<Rightarrow> (AttemptSettled (Inl (Err (KPlain ''wrapError''
             (''durable: step '' @ goQuote nm @ '': retry delay: '' @ errText e)) [e])), w)
       | Inr delaySec \<Rightarrow>
           (let u = (stepUpdate E ec i nm (so_subType options) OperationActionRetry)
                  \<lparr> ou_Error := Some (errorObjectFromRecord r), ou_NextAttemptDelaySeconds := Some delaySec \<rparr>
            in case eng_checkpoint E [u] w of
                 (Some e, w') \<Rightarrow> (AttemptSettled (Inl (checkpointFailure e)), w')
               | (None, w') \<Rightarrow> (RetryScheduled, w')))"

text \<open>The START of an attempt: already queued, not needed, awaited or queued without waiting.\<close>

definition startStepAttempt :: "'w engine \<Rightarrow> execContext \<Rightarrow> string \<Rightarrow> string \<Rightarrow> 'v stepOptions \<Rightarrow> operation option \<Rightarrow>
    'w queuedStart option \<Rightarrow> 'w \<Rightarrow> goErr option \<times> 'w" where
  "startStepAttempt E ec i nm options po start w =
    (case start of Some await \<Rightarrow> await w
     | None \<Rightarrow>
        if (case po of None \<Rightarrow> True | Some op \<Rightarrow> op_status op \<noteq> statusStarted)
        then (let u = stepUpdate E ec i nm (so_subType options) OperationActionStart in
              if so_semantics options = AtMostOncePerRetry then eng_checkpoint E [u] w
              else eng_checkpointNoWait E u w)
        else (None, w))"

text \<open>A body that returned a value: encode it, decode it as replay will, record the success.\<close>

definition settleStepSuccess :: "'w engine \<Rightarrow> execContext \<Rightarrow> string \<Rightarrow> string \<Rightarrow> 'v stepOptions \<Rightarrow> 'v \<Rightarrow> int \<Rightarrow> 'w \<Rightarrow>
    'v attemptResult \<times> 'w" where
  "settleStepSuccess E ec i nm options result attempt w =
    (case sz_marshal (so_serdes options) i result of
       Inl c \<Rightarrow> (let (failure, w1) = serdesFailure E nm ''marshal'' c w in
          if isSerdesInvocationEnd failure then (AttemptSettled (Inl failure), w1)
          else failStep E ec i nm (so_subType options) failure [] attempt w1)
     | Inr serialized \<Rightarrow>
        (case decodeLiveResult E (so_serdes options) i nm serialized w of (out, w1) \<Rightarrow>
          if (case out of Inl e \<Rightarrow> isSerdesInvocationEnd e | Inr _ \<Rightarrow> False) then (AttemptSettled out, w1)
          else (let u = (stepUpdate E ec i nm (so_subType options) OperationActionSucceed) \<lparr> ou_Payload := Some serialized \<rparr>
                in case eng_checkpoint E [u] w1 of
                     (Some e, w2) \<Rightarrow> (AttemptSettled (Inl (checkpointFailure e)), w2)
                   | (None, w2) \<Rightarrow> (AttemptSettled out, w2))))"

definition executeStepAttempt :: "'w engine \<Rightarrow> execContext \<Rightarrow> string \<Rightarrow> string \<Rightarrow> ('v, 'w) stepBody \<Rightarrow> 'v stepOptions \<Rightarrow>
    operation option \<Rightarrow> int \<Rightarrow> 'w queuedStart option \<Rightarrow> 'w \<Rightarrow> 'v attemptResult \<times> 'w" where
  "executeStepAttempt E ec i nm fn options po attempt start w =
    (case startStepAttempt E ec i nm options po start w of
       (Some e, w1) \<Rightarrow> (AttemptSettled (Inl (checkpointFailure e)), w1)
     | (None, w1) \<Rightarrow>
        (case fn attempt w1 of
           (Inl (stepErr, trace), w2) \<Rightarrow> settleStepFailure E ec i nm options stepErr trace attempt w2
         | (Inr result, w2) \<Rightarrow> settleStepSuccess E ec i nm options result attempt w2))"

section \<open>The loop\<close>

definition noStepDetails :: "string \<Rightarrow> operation \<Rightarrow> goErr" where
  "noStepDetails nm op = Err (KPlain ''errorString''
     (''durable: step '' @ goQuote nm @ '': checkpointed '' @ operationStatus_string (op_status op) @
      '' operation has no step details'')) []"

definition replaySucceededStep :: "'w engine \<Rightarrow> string \<Rightarrow> string \<Rightarrow> 'v stepOptions \<Rightarrow> operation \<Rightarrow> 'w \<Rightarrow> (goErr + 'v) \<times> 'w" where
  "replaySucceededStep E i nm options op w =
    (case op_step op of None \<Rightarrow> (Inl (noStepDetails nm op), w)
     | Some sd \<Rightarrow> (case sz_unmarshal (so_serdes options) i (sd_result sd) of
          Inl c \<Rightarrow> (let (e, w') = serdesFailure E nm ''unmarshal'' c w in (Inl e, w'))
        | Inr v \<Rightarrow> (Inr v, w)))"

definition replayFailedStep :: "string \<Rightarrow> operation \<Rightarrow> goErr" where
  "replayFailedStep nm op = (case op_step op of None \<Rightarrow> noStepDetails nm op
     | Some sd \<Rightarrow> newStepError nm (sd_attempt sd) (sd_record sd))"

definition nextAttempt :: "int \<Rightarrow> operation option \<Rightarrow> int" where
  "nextAttempt lastAttempt po = (case po of None \<Rightarrow> lastAttempt + 1
     | Some op \<Rightarrow> (case op_step op of None \<Rightarrow> lastAttempt + 1
        | Some sd \<Rightarrow> max (lastAttempt + 1) (sd_attempt sd + 1)))"

text \<open>One turn of the loop: the step's outcome, or the record and the last attempt the next turn starts from.\<close>

datatype 'v stepTurn = StepDone "goErr + 'v" | StepAgain operation int

definition awaitAttempt :: "'w engine \<Rightarrow> execContext \<Rightarrow> string \<Rightarrow> int \<Rightarrow> 'w \<Rightarrow> 'v stepTurn \<times> execContext \<times> 'w" where
  "awaitAttempt E ec i lastAttempt w =
    (case awaitOperation E ec i attemptDueRecord w of
       (Inl e, ec', w') \<Rightarrow> (StepDone (Inl e), ec', w')
     | (Inr next, ec', w') \<Rightarrow> (StepAgain next lastAttempt, ec', w'))"

definition afterAttempt :: "'w engine \<Rightarrow> execContext \<Rightarrow> string \<Rightarrow> int \<Rightarrow> 'v attemptResult \<times> 'w \<Rightarrow>
    'v stepTurn \<times> execContext \<times> 'w" where
  "afterAttempt E ec i attempt rw =
    (case rw of (AttemptSettled out, w') \<Rightarrow> (StepDone out, ec, w')
     | (RetryScheduled, w') \<Rightarrow> awaitAttempt E ec i attempt w')"

definition stepTurn :: "'w engine \<Rightarrow> execContext \<Rightarrow> string \<Rightarrow> string \<Rightarrow> ('v, 'w) stepBody \<Rightarrow> 'v stepOptions \<Rightarrow>
    operation option \<Rightarrow> int \<Rightarrow> 'w queuedStart option \<Rightarrow> 'w \<Rightarrow> 'v stepTurn \<times> execContext \<times> 'w" where
  "stepTurn E ec i nm fn options po lastAttempt start w =
    (let attempt = nextAttempt lastAttempt po;
         execute = afterAttempt E ec i attempt (executeStepAttempt E ec i nm fn options po attempt start w)
     in case po of None \<Rightarrow> execute
        | Some op \<Rightarrow> (case op_status op of
            statusSucceeded \<Rightarrow> (let (out, w') = replaySucceededStep E i nm options op w in (StepDone out, ec, w'))
          | statusFailed \<Rightarrow> (StepDone (Inl (replayFailedStep nm op)), ec, w)
          | statusPending \<Rightarrow> awaitAttempt E ec i lastAttempt w
          | statusStarted \<Rightarrow>
              if so_semantics options = AtMostOncePerRetry \<and> lastAttempt = 0
              then afterAttempt E ec i attempt
                     (settleStepFailure E ec i nm options (Err (KStepInterrupted nm '''') []) [] attempt w)
              else execute
          | _ \<Rightarrow> execute))"

fun stepLoop :: "nat \<Rightarrow> 'w engine \<Rightarrow> execContext \<Rightarrow> string \<Rightarrow> string \<Rightarrow> ('v, 'w) stepBody \<Rightarrow> 'v stepOptions \<Rightarrow>
    operation option \<Rightarrow> int \<Rightarrow> 'w queuedStart option \<Rightarrow> 'w \<Rightarrow> ((goErr + 'v) \<times> execContext \<times> 'w) option" where
  "stepLoop 0 E ec i nm fn options po lastAttempt start w = None"
| "stepLoop (Suc n) E ec i nm fn options po lastAttempt start w =
    (case stepTurn E ec i nm fn options po lastAttempt start w of
       (StepDone out, ec', w') \<Rightarrow> Some (out, ec', w')
     | (StepAgain next last', ec', w') \<Rightarrow>
         stepLoop n E ec' i nm fn options (Some next) last' (if last' = lastAttempt then start else None) w')"

definition runStep :: "nat \<Rightarrow> 'w engine \<Rightarrow> execContext \<Rightarrow> string \<Rightarrow> string \<Rightarrow> ('v, 'w) stepBody \<Rightarrow> 'v stepOptions \<Rightarrow>
    'w queuedStart option \<Rightarrow> 'w \<Rightarrow> ((goErr + 'v) \<times> execContext \<times> 'w) option" where
  "runStep n E ec i nm fn options start w =
    (let po = (if start \<noteq> None then None else eng_get E w i) in
     case validateReplayConsistency po OperationTypeStep (so_subType options) nm of
       Some e \<Rightarrow> Some (Inl e, ec, w)
     | None \<Rightarrow>
        if unfinishedInSucceededContext ec po
        then (let (e, ec', w') = parkUnfinishedReplay E ec po i OperationTypeStep (so_subType options) nm w
              in Some (Inl e, ec', w'))
        else stepLoop n E ec i nm fn options po 0 start w)"

definition Step :: "nat \<Rightarrow> 'w engine \<Rightarrow> goErr option \<Rightarrow> execContext \<Rightarrow> string \<Rightarrow> ('v, 'w) stepBody \<Rightarrow> 'v stepOptions \<Rightarrow>
    'w \<Rightarrow> ((goErr + 'v) \<times> execContext \<times> 'w) option" where
  "Step n E callerErr ec nm fn options w =
    (case claimOperation E callerErr ec w of
       (Inl e, ec1) \<Rightarrow> Some (Inl e, ec1, w)
     | (Inr i, ec1) \<Rightarrow>
        (case runStep n E ec1 i nm fn options None w of None \<Rightarrow> None
         | Some (out, ec2, w') \<Rightarrow>
             Some (out, observeOutcome E i (case out of Inl e \<Rightarrow> Some e | Inr _ \<Rightarrow> None) w' ec2, w')))"

end
