(* ===== verification/Engine_Laws.thy ===== *)
theory Engine_Laws
  imports Step_Op
begin

text \<open>
  The contract between the operations and the engine, as a locale: what a
  successful checkpoint leaves in the operation log, what no call changes, and
  which errors the engine reports.  The lemmas of the step are proved from the
  contract alone; Mem_Engine discharges it for the checkpointer over the
  in-memory service.
\<close>

section \<open>The contract's vocabulary\<close>

definition attemptOf :: "operation option \<Rightarrow> int" where
  "attemptOf po = (case po of None \<Rightarrow> 0 | Some op \<Rightarrow> (case op_step op of None \<Rightarrow> 0 | Some sd \<Rightarrow> sd_attempt sd))"

definition identityOf :: "operation \<Rightarrow> operationType \<times> string \<times> string" where
  "identityOf op = (op_opType op, op_subType op, op_name op)"

text \<open>
  What a record of the log may become by itself.  Only the engine's own update
  settles a step or a context; the service settles the other operations.
\<close>

definition selfSettled :: "operationType \<Rightarrow> bool" where
  "selfSettled t \<longleftrightarrow> t = OperationTypeStep \<or> t = OperationTypeContext"

definition evolves :: "operation option \<Rightarrow> operation option \<Rightarrow> bool" where
  "evolves old new = (case old of None \<Rightarrow> new = None
     | Some op \<Rightarrow> (case new of None \<Rightarrow> False
         | Some op' \<Rightarrow> identityOf op' = identityOf op \<and> attemptOf (Some op') = attemptOf (Some op) \<and>
             (status_terminal (op_status op) \<longrightarrow> core op' = core op) \<and>
             (selfSettled (op_opType op) \<longrightarrow> status_terminal (op_status op') = status_terminal (op_status op))))"

text \<open>What a recorded update leaves in the log.\<close>

definition recorded :: "operationUpdate \<Rightarrow> operation option \<Rightarrow> operation option \<Rightarrow> bool" where
  "recorded u old new = (case new of None \<Rightarrow> False
     | Some op \<Rightarrow> identityOf op = (ou_Type u, toString (ou_SubType u), toString (ou_Name u)) \<and>
         (ou_Action u = OperationActionSucceed \<longrightarrow> op_status op = statusSucceeded) \<and>
         (ou_Action u = OperationActionFail \<longrightarrow> op_status op = statusFailed) \<and>
         (ou_Action u \<in> {OperationActionStart, OperationActionRetry} \<longrightarrow> \<not> status_terminal (op_status op)) \<and>
         attemptOf (Some op) = (if ou_Type u = OperationTypeStep
            then attemptOf old + (if ou_Action u \<in> {OperationActionFail, OperationActionRetry} then 1 else 0) else 0) \<and>
         (ou_Type u = OperationTypeStep \<longrightarrow>
            (\<exists>a t. op_step op = Some \<lparr> sd_attempt = a, sd_nextAttempt = t, sd_result = toString (ou_Payload u),
               sd_record = record_of_api (ou_Error u) \<rparr>)) \<and>
         (ou_Type u = OperationTypeContext \<longrightarrow>
            op_childCtx op = Some \<lparr> cd_result = toString (ou_Payload u), cd_replayChildren = (ou_ReplayChildren u = Some True),
               cd_record = record_of_api (ou_Error u) \<rparr>))"

text \<open>The service names the type of every operation; the execution itself is not one of them.\<close>

definition knownType :: "operationType \<Rightarrow> bool" where
  "knownType t \<longleftrightarrow> operationType_string t \<noteq> [] \<and> t \<noteq> OperationTypeExecution"

lemma knownType_simps [simp]:
  "knownType OperationTypeStep" "knownType OperationTypeWait" "knownType OperationTypeContext"
  "knownType OperationTypeCallback" "knownType OperationTypeChainedInvoke"
  by (simp_all add: knownType_def operationType_string_def)

text \<open>The updates the operations write.\<close>

definition plainUpdate :: "operationUpdate \<Rightarrow> bool" where
  "plainUpdate u \<longleftrightarrow> knownType (ou_Type u) \<and>
     ou_Action u \<in> {OperationActionStart, OperationActionSucceed, OperationActionFail, OperationActionRetry}"

text \<open>An operation of the given type that may still be updated: it has no record, or one that is not settled.\<close>

definition liveAt :: "'w engine \<Rightarrow> operationType \<Rightarrow> string \<Rightarrow> 'w \<Rightarrow> bool" where
  "liveAt E ty i w \<longleftrightarrow> (case eng_get E w i of None \<Rightarrow> True
     | Some op \<Rightarrow> op_opType op = ty \<and> \<not> status_terminal (op_status op))"

definition infra :: "goErr \<Rightarrow> bool" where
  "infra e \<longleftrightarrow> (case err_kind e of KCheckpoint _ _ \<Rightarrow> True | KSentinel _ \<Rightarrow> True | KSerdesInvocationEnd _ _ \<Rightarrow> True | _ \<Rightarrow> False)"

lemma evolves_refl [simp]: "evolves po po"
  by (simp add: evolves_def split: option.split)

lemma core_terminal: "core op' = core op \<Longrightarrow> op_status op' = op_status op"
  by (metis core_def untimed_def operation.select_convs operation.surjective operation.update_convs)

lemma core_facts:
  assumes "core op' = core op"
  shows "op_status op' = op_status op" "identityOf op' = identityOf op"
    "map_option sd_attempt (op_step op') = map_option sd_attempt (op_step op)"
    "map_option sd_result (op_step op') = map_option sd_result (op_step op)"
    "map_option sd_record (op_step op') = map_option sd_record (op_step op)"
    "op_id op' = op_id op" "op_childCtx op' = op_childCtx op" "op_invoke op' = op_invoke op" "op_callback op' = op_callback op"
proof -
  have f: "f (core op') = f (core op)" for f :: "operation \<Rightarrow> 'a" using assms by simp
  show "op_status op' = op_status op" using f [of op_status] by (simp add: core_def untimed_def)
  show "op_id op' = op_id op" using f [of op_id] by (simp add: core_def untimed_def)
  show "op_childCtx op' = op_childCtx op" using f [of op_childCtx] by (simp add: core_def untimed_def)
  show "op_invoke op' = op_invoke op" using f [of op_invoke] by (simp add: core_def untimed_def)
  show "op_callback op' = op_callback op" using f [of op_callback] by (simp add: core_def untimed_def)
  show "identityOf op' = identityOf op" using f [of identityOf] by (simp add: core_def untimed_def identityOf_def)
  have s: "map_option g (op_step (core x)) = map_option g (op_step x)" if "\<And>sd t. g (sd \<lparr> sd_nextAttempt := t \<rparr>) = g sd"
    for g :: "stepDetails \<Rightarrow> 'b" and x
    using that by (simp add: core_def untimed_def split: option.split)
  show "map_option sd_attempt (op_step op') = map_option sd_attempt (op_step op)"
    "map_option sd_result (op_step op') = map_option sd_result (op_step op)"
    "map_option sd_record (op_step op') = map_option sd_record (op_step op)"
    using f [of "\<lambda>x. map_option sd_attempt (op_step x)"] f [of "\<lambda>x. map_option sd_result (op_step x)"]
      f [of "\<lambda>x. map_option sd_record (op_step x)"] s [of sd_attempt] s [of sd_result] s [of sd_record] by simp_all
qed

lemma identity_type: "identityOf op' = identityOf op \<Longrightarrow> op_opType op' = op_opType op"
  by (simp add: identityOf_def)

lemma evolves_trans: "evolves a b \<Longrightarrow> evolves b c \<Longrightarrow> evolves a c"
  by (auto simp: evolves_def dest: core_facts identity_type split: option.splits)

lemma liveAt_evolves:
  "liveAt E ty i w \<Longrightarrow> selfSettled ty \<Longrightarrow> evolves (eng_get E w i) (eng_get E w' i) \<Longrightarrow> liveAt E ty i w'"
  by (auto simp: liveAt_def evolves_def identityOf_def split: option.splits)

lemma liveAt_recorded:
  "recorded u (eng_get E w i) (eng_get E w' i) \<Longrightarrow> ou_Type u = ty \<Longrightarrow>
     ou_Action u \<in> {OperationActionStart, OperationActionRetry} \<Longrightarrow> liveAt E ty i w'"
  by (auto simp: liveAt_def recorded_def identityOf_def split: option.splits)

lemma liveAt_terminalRecord: "liveAt E ty i w \<Longrightarrow> \<not> terminalRecord (eng_get E w i)"
  by (auto simp: liveAt_def terminalRecord_def split: option.splits)

lemma evolves_attempt: "evolves a b \<Longrightarrow> attemptOf b = attemptOf a"
  by (auto simp: evolves_def attemptOf_def split: option.splits)

section \<open>The contract\<close>

locale durable_engine =
  fixes E :: "'w engine" and ok :: "'w \<Rightarrow> bool"
  assumes attempts_nonneg: "ok w \<Longrightarrow> 0 \<le> attemptOf (eng_get E w p)"
    and types_known: "ok w \<Longrightarrow> eng_get E w p = Some op \<Longrightarrow> knownType (op_opType op)"
    and settled_types: "ok w \<Longrightarrow> eng_get E w p = Some op \<Longrightarrow> selfSettled (op_opType op) \<Longrightarrow>
          status_terminal (op_status op) \<Longrightarrow> op_status op = statusSucceeded \<or> op_status op = statusFailed"
    and get_hash: "eng_hash E p = eng_hash E q \<Longrightarrow> eng_get E w p = eng_get E w q"
    and checkpoint_ok: "ok w \<Longrightarrow> eng_checkpoint E us w = (r, w') \<Longrightarrow> (\<And>u. u \<in> set us \<Longrightarrow> plainUpdate u) \<Longrightarrow>
          (\<And>u. u \<in> set us \<Longrightarrow> \<exists>p. ou_Id u = Some (eng_hash E p)) \<Longrightarrow>
          (\<And>u p. u \<in> set us \<Longrightarrow> toString (ou_Id u) = eng_hash E p \<Longrightarrow> \<not> terminalRecord (eng_get E w p)) \<Longrightarrow> ok w'"
    and checkpoint_err: "ok w \<Longrightarrow> eng_checkpoint E us w = (Some e, w') \<Longrightarrow> infra e"
    and checkpoint_recorded: "ok w \<Longrightarrow> eng_checkpoint E [u] w = (None, w') \<Longrightarrow> toString (ou_Id u) = eng_hash E p \<Longrightarrow>
          ou_Type u \<in> {OperationTypeStep, OperationTypeWait, OperationTypeContext} \<Longrightarrow>
          recorded u (eng_get E w p) (eng_get E w' p)"
    and checkpoint_identity: "ok w \<Longrightarrow> eng_checkpoint E [u] w = (None, w') \<Longrightarrow> toString (ou_Id u) = eng_hash E p \<Longrightarrow>
          plainUpdate u \<Longrightarrow>
          \<exists>op. eng_get E w' p = Some op \<and> identityOf op = (ou_Type u, toString (ou_SubType u), toString (ou_Name u))"
    and checkpoint_others: "ok w \<Longrightarrow> eng_checkpoint E us w = (r, w') \<Longrightarrow>
          eng_hash E p \<notin> (\<lambda>u. toString (ou_Id u)) ` set us \<Longrightarrow> evolves (eng_get E w p) (eng_get E w' p)"
    and noWait_ok: "ok w \<Longrightarrow> eng_checkpointNoWait E u w = (r, w') \<Longrightarrow> plainUpdate u \<Longrightarrow>
          \<exists>p. ou_Id u = Some (eng_hash E p) \<Longrightarrow> (\<And>p. toString (ou_Id u) = eng_hash E p \<Longrightarrow> \<not> terminalRecord (eng_get E w p)) \<Longrightarrow> ok w'"
    and noWait_err: "ok w \<Longrightarrow> eng_checkpointNoWait E u w = (Some e, w') \<Longrightarrow> infra e"
    and noWait_recorded: "ok w \<Longrightarrow> eng_checkpointNoWait E u w = (r, w') \<Longrightarrow> toString (ou_Id u) = eng_hash E p \<Longrightarrow>
          ou_Type u \<in> {OperationTypeStep, OperationTypeWait, OperationTypeContext} \<Longrightarrow>
          recorded u (eng_get E w p) (eng_get E w' p) \<or> evolves (eng_get E w p) (eng_get E w' p)"
    and noWait_others: "ok w \<Longrightarrow> eng_checkpointNoWait E u w = (r, w') \<Longrightarrow> eng_hash E p \<noteq> toString (ou_Id u) \<Longrightarrow>
          evolves (eng_get E w p) (eng_get E w' p)"
    and await_ok: "ok w \<Longrightarrow> eng_await E i rd w = (ra, w') \<Longrightarrow> ok w'"
    and await_err: "ok w \<Longrightarrow> eng_await E i rd w = (Inl e, w') \<Longrightarrow> e = sentinelErr errSuspendExecution"
    and await_ready: "ok w \<Longrightarrow> eng_await E i rd w = (Inr op, w') \<Longrightarrow> rd (Some op) \<and> eng_get E w' i = Some op"
    and await_evolves: "ok w \<Longrightarrow> eng_await E i rd w = (ra, w') \<Longrightarrow> evolves (eng_get E w p) (eng_get E w' p)"
    and park_ok: "ok w \<Longrightarrow> eng_park E w = (b, w') \<Longrightarrow> ok w'"
    and park_evolves: "ok w \<Longrightarrow> eng_park E w = (b, w') \<Longrightarrow> evolves (eng_get E w p) (eng_get E w' p)"
    and halt_ok: "ok w \<Longrightarrow> infra e \<Longrightarrow> ok (eng_halt E e w)"
    and halt_evolves: "ok w \<Longrightarrow> evolves (eng_get E w p) (eng_get E (eng_halt E e w) p)"
begin

text \<open>What an operation's own calls leave unchanged: every record but its own.\<close>

definition others :: "string \<Rightarrow> 'w \<Rightarrow> 'w \<Rightarrow> bool" where
  "others i w w' \<longleftrightarrow> ok w' \<and> (\<forall>p. eng_hash E p \<noteq> eng_hash E i \<longrightarrow> evolves (eng_get E w p) (eng_get E w' p))"

lemma others_refl: "ok w \<Longrightarrow> others i w w"
  by (simp add: others_def)

lemma others_ok: "others i w w' \<Longrightarrow> ok w'"
  by (simp add: others_def)

lemma others_trans: "others i w w' \<Longrightarrow> others i w' w'' \<Longrightarrow> others i w w''"
  unfolding others_def using evolves_trans by blast

lemma others_checkpoint:
  assumes "ok w" and "eng_checkpoint E [u] w = (r, w')" and "ou_Id u = Some (eng_hash E i)" and kt: "plainUpdate u"
    and live: "\<not> terminalRecord (eng_get E w i)"
  shows "others i w w'"
proof -
  have "evolves (eng_get E w p) (eng_get E w' p)" if "eng_hash E p \<noteq> eng_hash E i" for p
    by (rule checkpoint_others [OF assms(1,2)]) (use that assms(3) in simp)
  moreover have "\<not> terminalRecord (eng_get E w p)" if "eng_hash E i = eng_hash E p" for p
    using get_hash [OF that, of w] live by simp
  ultimately show ?thesis using checkpoint_ok [OF assms(1,2)] kt assms(3) by (auto simp: others_def)
qed

lemma others_noWait:
  assumes "ok w" and "eng_checkpointNoWait E u w = (r, w')" and "ou_Id u = Some (eng_hash E i)" and kt: "plainUpdate u"
    and live: "\<not> terminalRecord (eng_get E w i)"
  shows "others i w w'"
proof -
  have "evolves (eng_get E w p) (eng_get E w' p)" if "eng_hash E p \<noteq> eng_hash E i" for p
    by (rule noWait_others [OF assms(1,2)]) (use that assms(3) in simp)
  moreover have "\<not> terminalRecord (eng_get E w p)" if "eng_hash E i = eng_hash E p" for p
    using get_hash [OF that, of w] live by simp
  ultimately show ?thesis using noWait_ok [OF assms(1,2) kt] assms(3) by (auto simp: others_def)
qed

lemma others_await: "ok w \<Longrightarrow> eng_await E j rd w = (r, w') \<Longrightarrow> others i w w'"
  using await_ok await_evolves by (simp add: others_def)

lemma others_park: "ok w \<Longrightarrow> eng_park E w = (b, w') \<Longrightarrow> others i w w'"
  using park_ok park_evolves by (simp add: others_def)

lemma others_serdes:
  assumes "ok w" and "serdesFailure E nm dir c w = (e, w')"
  shows "others i w w' \<and> evolves (eng_get E w p) (eng_get E w' p)"
  using assms halt_ok [OF assms(1)] halt_evolves [OF assms(1)]
  by (auto simp: serdesFailure_def others_def infra_def Let_def split: if_splits)

text \<open>The same for an operation that runs others: every record outside a set of positions.\<close>

definition outside :: "string set \<Rightarrow> 'w \<Rightarrow> 'w \<Rightarrow> bool" where
  "outside S w w' \<longleftrightarrow> ok w' \<and> (\<forall>p. eng_hash E p \<notin> eng_hash E ` S \<longrightarrow> evolves (eng_get E w p) (eng_get E w' p))"

lemma others_outside: "others i w w' \<Longrightarrow> i \<in> S \<Longrightarrow> outside S w w'"
  unfolding others_def outside_def by (metis imageI)

lemma outside_refl: "ok w \<Longrightarrow> outside S w w"
  by (simp add: outside_def)

lemma outside_trans: "outside S w w' \<Longrightarrow> outside S w' w'' \<Longrightarrow> outside S w w''"
  unfolding outside_def using evolves_trans by blast

lemma outside_mono: "outside S w w' \<Longrightarrow> S \<subseteq> T \<Longrightarrow> outside T w w'"
  unfolding outside_def by (meson image_mono subsetD)

lemma outside_ok: "outside S w w' \<Longrightarrow> ok w'"
  by (simp add: outside_def)

end

end
