(* ===== verification/Step_Replay.thy ===== *)
theory Step_Replay
  imports Engine_Laws
begin

text \<open>
  What a step leaves in the operation log and what replay makes of it.  From
  the engine's contract: an outcome the step returned live is the outcome its
  record replays to, the number of attempts is the one recorded, and no other
  operation's record is touched.
\<close>

section \<open>Outcomes and their records\<close>

text \<open>A body that performs no durable operation: it leaves the operation log as it is.\<close>

definition quietBody :: "'w engine \<Rightarrow> ('w \<Rightarrow> bool) \<Rightarrow> ('v, 'w) stepBody \<Rightarrow> bool" where
  "quietBody E ok fn \<longleftrightarrow>
     (\<forall>a w r w'. ok w \<longrightarrow> fn a w = (r, w') \<longrightarrow> ok w' \<and> (\<forall>p. eng_get E w' p = eng_get E w p))"

text \<open>An outcome of the operation itself, as opposed to the end of the invocation under it.\<close>

definition outcomeSettled :: "goErr + 'v \<Rightarrow> bool" where
  "outcomeSettled r \<longleftrightarrow> (case r of Inr _ \<Rightarrow> True
     | Inl e \<Rightarrow> (case err_kind e of KStep _ _ _ \<Rightarrow> True | KChildContext _ _ \<Rightarrow> True
        | KInvoke _ _ _ _ \<Rightarrow> True | KWaitForCondition _ _ _ \<Rightarrow> True
        | KSerdes _ dir \<Rightarrow> dir = ''unmarshal'' | _ \<Rightarrow> False))"

definition stepReplays :: "string \<Rightarrow> string \<Rightarrow> 'v stepOptions \<Rightarrow> operation \<Rightarrow> goErr + 'v \<Rightarrow> bool" where
  "stepReplays nm i options op out \<longleftrightarrow> (case op_step op of None \<Rightarrow> False
     | Some sd \<Rightarrow>
        (op_status op = statusSucceeded \<and>
           (case sz_unmarshal (so_serdes options) i (sd_result sd) of Inr v \<Rightarrow> out = Inr v
            | Inl c \<Rightarrow> \<not> errors_Is c ErrRetryableSerdes \<and> out = Inl (newSerdesError nm ''unmarshal'' c))) \<or>
        (op_status op = statusFailed \<and> out = Inl (newStepError nm (sd_attempt sd) (sd_record sd))))"

definition stepIdentity :: "'v stepOptions \<Rightarrow> string \<Rightarrow> operationType \<times> string \<times> string" where
  "stepIdentity options nm = (OperationTypeStep, so_subType options, nm)"

definition stepRecord :: "'w engine \<Rightarrow> string \<Rightarrow> string \<Rightarrow> 'v stepOptions \<Rightarrow> goErr + 'v \<Rightarrow> 'w \<Rightarrow> bool" where
  "stepRecord E i nm options out w \<longleftrightarrow> (case eng_get E w i of None \<Rightarrow> False
     | Some op \<Rightarrow> identityOf op = stepIdentity options nm \<and> stepReplays nm i options op out)"

lemma stepReplays_fields: 
  assumes "op_status op' = op_status op" 
    "map_option sd_attempt (op_step op') = map_option sd_attempt (op_step op)"
    "map_option sd_result (op_step op') = map_option sd_result (op_step op)"
    "map_option sd_record (op_step op') = map_option sd_record (op_step op)"
  shows "stepReplays nm i options op' out = stepReplays nm i options op out"
proof (cases "op_step op")
  case None
  then show ?thesis using assms(2) by (simp add: stepReplays_def)
next
  case (Some sd)
  then obtain sd' where sd': "op_step op' = Some sd'" "sd_attempt sd' = sd_attempt sd" "sd_result sd' = sd_result sd" "sd_record sd' = sd_record sd"
    using assms(2-4) by (cases "op_step op'") auto
  show ?thesis unfolding stepReplays_def Some sd'(1) option.case assms(1) sd'(2-4) ..
qed
lemma stepReplays_core:
  assumes "core op' = core op" shows "stepReplays nm i options op' out = stepReplays nm i options op out"
  by (rule stepReplays_fields; rule core_facts [OF assms])

lemma stepReplays_terminal: "stepReplays nm i options op out \<Longrightarrow> status_terminal (op_status op)"
  by (auto simp: stepReplays_def split: option.splits)

lemma stepRecord_evolves:
  assumes "stepRecord E i nm options out w" and ev: "evolves (eng_get E w i) (eng_get E w' i)"
  shows "stepRecord E i nm options out w'"
proof -
  obtain op where op: "eng_get E w i = Some op" "identityOf op = stepIdentity options nm" "stepReplays nm i options op out"
    using assms(1) by (auto simp: stepRecord_def split: option.splits)
  obtain op' where op': "eng_get E w' i = Some op'" "identityOf op' = identityOf op" "core op' = core op"
    using ev stepReplays_terminal [OF op(3)] by (auto simp: evolves_def op(1) split: option.splits)
  show ?thesis
    unfolding stepRecord_def op'(1) option.case stepReplays_core [OF op'(3)] op'(2) using op(2,3) by blast
qed

lemma validate_identity:
  "identityOf op = (ty, sub, nm) \<Longrightarrow> validateReplayConsistency (Some op) ty sub nm = None"
  by (simp add: validateReplayConsistency_def identityOf_def Let_def)

text \<open>A recorded outcome replays without running anything.\<close>

lemma runStep_replay:
  assumes "stepRecord E i nm options out w"
  shows "runStep (Suc n) E ec i nm fn options None w = Some (out, ec, w)"
proof -
  obtain op where op: "eng_get E w i = Some op" "identityOf op = stepIdentity options nm" "stepReplays nm i options op out"
    using assms by (auto simp: stepRecord_def split: option.splits)
  have v: "validateReplayConsistency (Some op) OperationTypeStep (so_subType options) nm = None"
    using op(2) by (intro validate_identity) (simp add: stepIdentity_def)
  have u: "\<not> unfinishedInSucceededContext ec (Some op)"
    using stepReplays_terminal [OF op(3)] by (simp add: unfinishedInSucceededContext_def)
  have "stepTurn E ec i nm fn options (Some op) 0 None w = (StepDone out, ec, w)"
    using op(3) by (auto simp: stepReplays_def stepTurn_def replaySucceededStep_def replayFailedStep_def serdesFailure_def
        Let_def split: option.splits sum.splits)
  then show ?thesis
    using v u op(1) by (simp add: runStep_def)
qed

lemma infra_not_settled: "infra e \<Longrightarrow> \<not> outcomeSettled (Inl e)"
  by (auto simp: infra_def outcomeSettled_def split: errKind.splits)

lemma infra_sentinel [simp]: "infra (sentinelErr s)"
  by (simp add: infra_def sentinelErr_def)

lemma outcomeSettled_sentinel [simp]: "\<not> outcomeSettled (Inl (sentinelErr s))"
  by (rule infra_not_settled) simp

lemma checkpointFailure_infra: "infra e \<Longrightarrow> infra (checkpointFailure e)"
  by (simp add: checkpointFailure_def)

text \<open>What an attempt that was settled, or a retry that was scheduled, leaves behind.\<close>

definition attemptPost :: "'w engine \<Rightarrow> string \<Rightarrow> string \<Rightarrow> 'v stepOptions \<Rightarrow> int \<Rightarrow> 'v attemptResult \<Rightarrow> 'w \<Rightarrow> bool" where
  "attemptPost E i nm options attempt res w \<longleftrightarrow> (case res of
      RetryScheduled \<Rightarrow> (case eng_get E w i of None \<Rightarrow> False
         | Some op \<Rightarrow> identityOf op = stepIdentity options nm \<and> attemptOf (Some op) = attempt)
    | AttemptSettled out \<Rightarrow> outcomeSettled out \<longrightarrow> stepRecord E i nm options out w)"

lemma recorded_failed_step:
  assumes "recorded u (eng_get E w i) (eng_get E w' i)"
    and "u = stepUpdate E ec i nm (so_subType options) OperationActionFail \<lparr> ou_Error := Some (errorObjectFromRecord r) \<rparr>"
    and "attempt = attemptOf (eng_get E w i) + 1"
  shows "stepRecord E i nm options (Inl (newStepError nm attempt r)) w'"
  using assms by (auto simp: recorded_def stepRecord_def stepIdentity_def stepUpdate_def attemptOf_def stepReplays_def
      split: option.splits)

lemma recorded_succeeded_step:
  assumes "recorded u (eng_get E w i) (eng_get E w' i)"
    and "u = stepUpdate E ec i nm (so_subType options) OperationActionSucceed \<lparr> ou_Payload := Some serialized \<rparr>"
    and "case sz_unmarshal (so_serdes options) i serialized of Inr v \<Rightarrow> out = Inr v
         | Inl c \<Rightarrow> \<not> errors_Is c ErrRetryableSerdes \<and> out = Inl (newSerdesError nm ''unmarshal'' c)"
  shows "stepRecord E i nm options out w'"
  using assms by (auto simp: recorded_def stepRecord_def stepIdentity_def stepUpdate_def stepReplays_def
      split: option.splits)

context durable_engine begin

lemma step_checkpoint:
  assumes "ok w" and "eng_checkpoint E [u] w = (r, w')" and "ou_Id u = Some (eng_hash E i)" and "ou_Type u = OperationTypeStep"
    and "plainUpdate u" and "liveAt E OperationTypeStep i w"
  shows "others i w w'" "r = Some e \<Longrightarrow> infra e" "r = None \<Longrightarrow> recorded u (eng_get E w i) (eng_get E w' i)"
  using others_checkpoint [OF assms(1-3,5) liveAt_terminalRecord [OF assms(6)]] assms(4) checkpoint_err [OF assms(1)] checkpoint_recorded [OF assms(1)] assms(2-4) by auto

lemma failStep_post:
  assumes "ok w" and "failStep E ec i nm (so_subType options) c tr attempt w = (res, w')"
    and "attempt = attemptOf (eng_get E w i) + 1" and live: "liveAt E OperationTypeStep i w"
  shows "others i w w' \<and> attemptPost E i nm options attempt res w'"
proof -
  let ?r = "withTrace tr (recordOf c)"
  let ?u = "stepUpdate E ec i nm (so_subType options) OperationActionFail \<lparr> ou_Error := Some (errorObjectFromRecord ?r) \<rparr>"
  obtain r w1 where ck: "eng_checkpoint E [?u] w = (r, w1)" by fastforce
  have u: "ou_Id ?u = Some (eng_hash E i)" "ou_Type ?u = OperationTypeStep" "plainUpdate ?u"
    by (simp_all add: stepUpdate_def plainUpdate_def)
  note c = step_checkpoint [OF assms(1) ck u live]
  show ?thesis
  proof (cases r)
    case None
    then show ?thesis
      using assms(2) ck c(1) recorded_failed_step [OF c(3) refl assms(3)]
      by (auto simp: failStep_def Let_def attemptPost_def)
  next
    case (Some e)
    then show ?thesis
      using assms(2) ck c(1) infra_not_settled [OF checkpointFailure_infra [OF c(2)]]
      by (auto simp: failStep_def Let_def attemptPost_def)
  qed
qed

lemma settleStepFailure_post:
  assumes "ok w" and st: "settleStepFailure E ec i nm options c tr attempt w = (res, w')"
    and "attempt = attemptOf (eng_get E w i) + 1" and live: "liveAt E OperationTypeStep i w"
  shows "others i w w' \<and> attemptPost E i nm options attempt res w'"
proof (cases "fst (so_retry options c attempt)")
  case False
  then have "failStep E ec i nm (so_subType options) c tr attempt w = (res, w')"
    using st by (simp add: settleStepFailure_def split: prod.splits)
  then show ?thesis using assms by (intro failStep_post) auto
next
  case True
  then obtain d where d: "so_retry options c attempt = (True, d)" by (metis prod.collapse)
  show ?thesis
  proof (cases "durationToSeconds (eng_durationText E) (if d = 0 then DefaultRetryDelay else d)")
    case (Inl e)
    then show ?thesis
      using st others_refl [OF assms(1)]
      by (auto simp: settleStepFailure_def d Let_def attemptPost_def outcomeSettled_def)
  next
    case (Inr secs)
    let ?u = "stepUpdate E ec i nm (so_subType options) OperationActionRetry
       \<lparr> ou_Error := Some (errorObjectFromRecord (withTrace tr (recordOf c))), ou_NextAttemptDelaySeconds := Some secs \<rparr>"
    obtain r w1 where ck: "eng_checkpoint E [?u] w = (r, w1)" by fastforce
    have u: "ou_Id ?u = Some (eng_hash E i)" "ou_Type ?u = OperationTypeStep" "plainUpdate ?u"
      by (simp_all add: stepUpdate_def plainUpdate_def)
    note c = step_checkpoint [OF assms(1) ck u live]
    show ?thesis
    proof (cases r)
      case None
      then show ?thesis
        using Inr st ck c(1)
        by (simp add: settleStepFailure_def d Let_def) (use c(3) [OF None] assms(3) in
           \<open>auto simp: attemptPost_def recorded_def stepIdentity_def stepUpdate_def split: option.splits\<close>)
    next
      case (Some e)
      then show ?thesis
        using Inr st ck c(1) infra_not_settled [OF checkpointFailure_infra [OF c(2) [OF Some]]]
        by (simp add: settleStepFailure_def d Let_def) (auto simp: attemptPost_def)
    qed
  qed
qed

end

text \<open>Where the loop stands: the record it looks at is the one in the log, and the attempt it runs next is one more than recorded.\<close>

definition loopAt :: "'w engine \<Rightarrow> string \<Rightarrow> string \<Rightarrow> 'v stepOptions \<Rightarrow> operation option \<Rightarrow> int \<Rightarrow> 'w \<Rightarrow> bool" where
  "loopAt E i nm options po lastAttempt w \<longleftrightarrow> eng_get E w i = po \<and> 0 \<le> lastAttempt \<and> lastAttempt \<le> attemptOf po \<and>
     (case po of None \<Rightarrow> True | Some op \<Rightarrow> identityOf op = stepIdentity options nm)"

text \<open>
  The engine's own end-of-invocation error always wraps the retryable error it
  was made for: its type is not exported, so a serializer cannot make another.
\<close>

definition serdesErrorsOk :: "'v serdes \<Rightarrow> bool" where
  "serdesErrorsOk sd \<longleftrightarrow>
     (\<forall>i v c. sz_marshal sd i v = Inl c \<longrightarrow> isSerdesInvocationEnd c \<longrightarrow> errors_Is c ErrRetryableSerdes) \<and>
     (\<forall>i s c. sz_unmarshal sd i s = Inl c \<longrightarrow> isSerdesInvocationEnd c \<longrightarrow> errors_Is c ErrRetryableSerdes)"

lemma serdesFailure_retryable:
  assumes "serdesFailure E nm dir c w = (f, w')" and "errors_Is c ErrRetryableSerdes"
  shows "infra f \<and> isSerdesInvocationEnd f"
  using assms by (auto simp: serdesFailure_def Let_def infra_def isSerdesInvocationEnd_def errors_As_Err)

lemma serdesFailure_permanent:
  assumes "serdesFailure E nm dir c w = (f, w')" and "\<not> errors_Is c ErrRetryableSerdes"
  shows "f = newSerdesError nm dir c \<and> w' = w \<and> isSerdesInvocationEnd f = isSerdesInvocationEnd c"
  using assms by (auto simp: serdesFailure_def newSerdesError_def isSerdesInvocationEnd_def errors_As_Err)
     (simp_all add: errors_As_def)

context durable_engine begin

lemma loopAt_attempt: "ok w \<Longrightarrow> loopAt E i nm options po la w \<Longrightarrow> nextAttempt la po = attemptOf (eng_get E w i) + 1"
  using attempts_nonneg [of w i] by (auto simp: loopAt_def nextAttempt_def attemptOf_def max_def split: option.splits)

lemma startStepAttempt_post:
  assumes "ok w" and st: "startStepAttempt E ec i nm options po None w = (r, w')"
    and live: "liveAt E OperationTypeStep i w"
  shows "others i w w'" "r = Some e \<Longrightarrow> infra e"
    "r = None \<Longrightarrow> attemptOf (eng_get E w' i) = attemptOf (eng_get E w i) \<and> liveAt E OperationTypeStep i w'"
proof -
  let ?u = "stepUpdate E ec i nm (so_subType options) OperationActionStart"
  have u: "ou_Id ?u = Some (eng_hash E i)" "ou_Type ?u = OperationTypeStep" "plainUpdate ?u" "ou_Action ?u = OperationActionStart"
    by (simp_all add: stepUpdate_def plainUpdate_def)
  have same: "recorded ?u (eng_get E w i) (eng_get E w' i) \<Longrightarrow>
      attemptOf (eng_get E w' i) = attemptOf (eng_get E w i) \<and> liveAt E OperationTypeStep i w'"
    using liveAt_recorded [of ?u E w i w'] u by (auto simp: recorded_def split: option.splits)
  consider "eng_checkpoint E [?u] w = (r, w')" | "eng_checkpointNoWait E ?u w = (r, w')" | "r = None" "w' = w"
    using st unfolding startStepAttempt_def Let_def option.case
    by (cases "case po of None \<Rightarrow> True | Some op \<Rightarrow> op_status op \<noteq> statusStarted"; cases "so_semantics options") simp_all
  then have "others i w w' \<and> (\<forall>e. r = Some e \<longrightarrow> infra e) \<and>
     (r = None \<longrightarrow> attemptOf (eng_get E w' i) = attemptOf (eng_get E w i) \<and> liveAt E OperationTypeStep i w')"
  proof cases
    case 1
    then show ?thesis using step_checkpoint [OF assms(1) 1 u(1-3) live] same by blast
  next
    case 2
    have "recorded ?u (eng_get E w i) (eng_get E w' i) \<or> evolves (eng_get E w i) (eng_get E w' i)"
      by (rule noWait_recorded [OF assms(1) 2]) (simp_all add: stepUpdate_def)
    then show ?thesis
      using others_noWait [OF assms(1) 2 u(1,3) liveAt_terminalRecord [OF live]] noWait_err [OF assms(1), of ?u] 2
        same evolves_attempt liveAt_evolves [OF live] by (auto simp: selfSettled_def)
  next
    case 3
    then show ?thesis using others_refl [OF assms(1)] live by simp
  qed
  then show "others i w w'" "r = Some e \<Longrightarrow> infra e"
    "r = None \<Longrightarrow> attemptOf (eng_get E w' i) = attemptOf (eng_get E w i) \<and> liveAt E OperationTypeStep i w'"
    by blast+
qed

lemma settleStepSuccess_post:
  assumes "ok w" and st: "settleStepSuccess E ec i nm options v attempt w = (res, w')"
    and at: "attempt = attemptOf (eng_get E w i) + 1" and sz: "serdesErrorsOk (so_serdes options)"
    and live: "liveAt E OperationTypeStep i w"
  shows "others i w w' \<and> attemptPost E i nm options attempt res w'"
proof (cases "sz_marshal (so_serdes options) i v")
  case (Inl c)
  obtain f w1 where f: "serdesFailure E nm ''marshal'' c w = (f, w1)" by fastforce
  note o = others_serdes [OF assms(1) f]
  show ?thesis
  proof (cases "errors_Is c ErrRetryableSerdes")
    case True
    then show ?thesis
      using st Inl f o serdesFailure_retryable [OF f True]
      by (auto simp: settleStepSuccess_def attemptPost_def dest: infra_not_settled)
  next
    case False
    then have "failStep E ec i nm (so_subType options) f [] attempt w1 = (res, w')"
      using st Inl f serdesFailure_permanent [OF f False] sz by (auto simp: settleStepSuccess_def serdesErrorsOk_def)
    moreover have "attempt = attemptOf (eng_get E w1 i) + 1"
      using at evolves_attempt [of "eng_get E w i" "eng_get E w1 i"] o by simp
    moreover have "liveAt E OperationTypeStep i w1" using liveAt_evolves [OF live] o by (simp add: selfSettled_def)
    ultimately show ?thesis using failStep_post [of w1] o others_trans others_ok by blast
  qed
next
  case (Inr serialized)
  let ?sd = "so_serdes options"
  obtain out w1 where d: "decodeLiveResult E ?sd i nm serialized w = (out, w1)" by fastforce
  have d': "others i w w1 \<and> liveAt E OperationTypeStep i w1 \<and>
    ((case out of Inl e \<Rightarrow> isSerdesInvocationEnd e | Inr _ \<Rightarrow> False) \<and> \<not> outcomeSettled out \<or>
     \<not> (case out of Inl e \<Rightarrow> isSerdesInvocationEnd e | Inr _ \<Rightarrow> False) \<and>
       (case sz_unmarshal ?sd i serialized of Inr v \<Rightarrow> out = Inr v
         | Inl c \<Rightarrow> \<not> errors_Is c ErrRetryableSerdes \<and> out = Inl (newSerdesError nm ''unmarshal'' c)))"
  proof (cases "sz_unmarshal ?sd i serialized")
    case (Inl c)
    obtain f w2 where f: "serdesFailure E nm ''unmarshal'' c w = (f, w2)" by fastforce
    then show ?thesis
      using d Inl sz serdesFailure_retryable [OF f] serdesFailure_permanent [OF f] others_serdes [OF assms(1) f]
        liveAt_evolves [OF live]
      by (cases "errors_Is c ErrRetryableSerdes")
         (auto simp: decodeLiveResult_def serdesErrorsOk_def selfSettled_def dest: infra_not_settled)
  next
    case (Inr v)
    then have "out = Inr v" "w1 = w" using d by (simp_all add: decodeLiveResult_def)
    then show ?thesis using Inr others_refl [OF assms(1)] live by simp
  qed
  show ?thesis
  proof (cases "case out of Inl e \<Rightarrow> isSerdesInvocationEnd e | Inr _ \<Rightarrow> False")
    case True
    then show ?thesis using st Inr d d' by (auto simp: settleStepSuccess_def attemptPost_def)
  next
    case False
    let ?u = "stepUpdate E ec i nm (so_subType options) OperationActionSucceed \<lparr> ou_Payload := Some serialized \<rparr>"
    obtain r w2 where ck: "eng_checkpoint E [?u] w1 = (r, w2)" by fastforce
    have u: "ou_Id ?u = Some (eng_hash E i)" "ou_Type ?u = OperationTypeStep" "plainUpdate ?u"
      by (simp_all add: stepUpdate_def plainUpdate_def)
    have w1: "ok w1" "liveAt E OperationTypeStep i w1" using d' others_ok by blast+
    note c = step_checkpoint [OF w1(1) ck u w1(2)]
    have o: "others i w w2" using d' c(1) others_trans by blast
    show ?thesis
    proof (cases r)
      case None
      have "stepRecord E i nm options out w2"
        by (rule recorded_succeeded_step [OF c(3) [OF None] refl]) (use d' False in blast)
      then show ?thesis
        using st Inr d False ck None o by (simp add: settleStepSuccess_def Let_def) (auto simp: attemptPost_def)
    next
      case (Some e)
      then show ?thesis
        using st Inr d False ck o infra_not_settled [OF checkpointFailure_infra [OF c(2) [OF Some]]]
        by (simp add: settleStepSuccess_def Let_def) (auto simp: attemptPost_def)
    qed
  qed
qed

end

text \<open>What the loop leaves: a settled outcome with its record, or the record the next turn looks at.\<close>

definition turnPost :: "'w engine \<Rightarrow> string \<Rightarrow> string \<Rightarrow> 'v stepOptions \<Rightarrow> int \<Rightarrow> 'v stepTurn \<Rightarrow> 'w \<Rightarrow> bool" where
  "turnPost E i nm options lastAttempt turn w \<longleftrightarrow> (case turn of
      StepDone out \<Rightarrow> outcomeSettled out \<longrightarrow> stepRecord E i nm options out w
    | StepAgain op la \<Rightarrow> loopAt E i nm options (Some op) la w \<and> attemptDueRecord (Some op) \<and> lastAttempt \<le> la)"

lemma stepRecord_succeeded:
  assumes "eng_get E w' i = Some op" and "identityOf op = stepIdentity options nm" and "op_status op = statusSucceeded"
    and "replaySucceededStep E i nm options op w = (out, w')" and "outcomeSettled out"
  shows "stepRecord E i nm options out w'"
proof (cases "op_step op")
  case None
  then show ?thesis using assms(4,5) by (auto simp: replaySucceededStep_def outcomeSettled_def noStepDetails_def)
next
  case (Some sd)
  have "case sz_unmarshal (so_serdes options) i (sd_result sd) of Inr v \<Rightarrow> out = Inr v
      | Inl c \<Rightarrow> \<not> errors_Is c ErrRetryableSerdes \<and> out = Inl (newSerdesError nm ''unmarshal'' c)"
  proof (cases "sz_unmarshal (so_serdes options) i (sd_result sd)")
    case (Inl c)
    then show ?thesis
      using assms(4,5) Some
      by (auto simp: replaySucceededStep_def serdesFailure_def Let_def outcomeSettled_def newSerdesError_def
          split: if_splits)
  next
    case (Inr v)
    then have "out = Inr v" using assms(4) Some by (simp add: replaySucceededStep_def)
    then show ?thesis using Inr by simp
  qed
  then show ?thesis using assms(1-3) Some by (simp add: stepRecord_def stepReplays_def)
qed

context durable_engine begin

lemma executeStepAttempt_post:
  assumes ok: "ok w" and st: "executeStepAttempt E ec i nm fn options po attempt None w = (res, w')"
    and at: "attempt = attemptOf (eng_get E w i) + 1" and sz: "serdesErrorsOk (so_serdes options)" and q: "quietBody E ok fn"
    and live: "liveAt E OperationTypeStep i w"
  shows "others i w w' \<and> attemptPost E i nm options attempt res w'"
proof -
  obtain r w1 where s: "startStepAttempt E ec i nm options po None w = (r, w1)" by fastforce
  note p = startStepAttempt_post [OF ok s live]
  show ?thesis
  proof (cases r)
    case (Some e)
    then show ?thesis
      using st s p(1) infra_not_settled [OF checkpointFailure_infra [OF p(2) [OF Some]]]
      by (simp add: executeStepAttempt_def) (auto simp: attemptPost_def)
  next
    case None
    obtain b w2 where b: "fn attempt w1 = (b, w2)" by fastforce
    have w2: "ok w2" "eng_get E w2 = eng_get E w1"
      using q b others_ok [OF p(1)] unfolding quietBody_def by (blast, blast)
    have o2: "others i w w2" using p(1) w2 by (simp add: others_def)
    have at2: "attempt = attemptOf (eng_get E w2 i) + 1" "liveAt E OperationTypeStep i w2"
      using at p(3) [OF None] w2(2) by (simp_all add: liveAt_def)
    have "others i w2 w' \<and> attemptPost E i nm options attempt res w'"
    proof (cases b)
      case (Inl et)
      obtain e tr where et: "et = (e, tr)" by (cases et)
      show ?thesis
        using st s None b Inl et by (intro settleStepFailure_post [OF w2(1) _ at2]) (auto simp: executeStepAttempt_def)
    next
      case (Inr v)
      show ?thesis
        using st s None b Inr by (intro settleStepSuccess_post [OF w2(1) _ at2(1) sz at2(2)]) (auto simp: executeStepAttempt_def)
    qed
    then show ?thesis using o2 others_trans by blast
  qed
qed

lemma awaitAttempt_post:
  assumes ok: "ok w" and st: "awaitAttempt E ec i la w = (turn, ec', w')"
    and rec: "eng_get E w i = Some op" "identityOf op = stepIdentity options nm" and la: "0 \<le> la" "la \<le> attemptOf (Some op)"
  shows "others i w w' \<and> turnPost E i nm options la turn w'"
proof -
  obtain r w1 where a: "eng_await E i attemptDueRecord w = (r, w1)" by fastforce
  have o: "others i w w1" by (rule others_await [OF ok a])
  show ?thesis
  proof (cases r)
    case (Inl e)
    then show ?thesis
      using st a o await_err [OF ok, of i attemptDueRecord e w1]
      by (auto simp: awaitAttempt_def awaitOperation_def turnPost_def)
  next
    case (Inr op')
    have r: "attemptDueRecord (Some op')" "eng_get E w1 i = Some op'" using await_ready [OF ok] a Inr by auto
    have ev: "evolves (Some op) (Some op')" using await_evolves [OF ok a, of i] rec r by simp
    then have "loopAt E i nm options (Some op') la w1"
      using rec(2) la r(2) evolves_attempt [OF ev] by (simp add: loopAt_def evolves_def)
    then show ?thesis
      using st a o r Inr by (auto simp: awaitAttempt_def awaitOperation_def turnPost_def)
  qed
qed

lemma afterAttempt_post:
  assumes ok: "ok w" and st: "afterAttempt E ec i attempt (res, w1) = (turn, ec', w')" and nn: "0 \<le> attempt" "la \<le> attempt"
    and p: "others i w w1 \<and> attemptPost E i nm options attempt res w1"
  shows "others i w w' \<and> turnPost E i nm options la turn w'"
proof (cases res)
  case RetryScheduled
  then obtain op where op: "eng_get E w1 i = Some op" "identityOf op = stepIdentity options nm" "attemptOf (Some op) = attempt"
    using p by (auto simp: attemptPost_def split: option.splits)
  have "others i w1 w' \<and> turnPost E i nm options attempt turn w'"
    using st RetryScheduled p op nn by (intro awaitAttempt_post [OF _ _ op(1,2)]) (auto simp: afterAttempt_def others_def)
  then show ?thesis using p others_trans nn by (auto simp: turnPost_def split: stepTurn.splits)
next
  case (AttemptSettled out)
  then show ?thesis using st p by (auto simp: afterAttempt_def turnPost_def attemptPost_def)
qed

end

lemma stepRecord_failed:
  assumes "eng_get E w i = Some op" and "identityOf op = stepIdentity options nm" and "op_status op = statusFailed"
    and "outcomeSettled (Inl (replayFailedStep nm op) :: goErr + 'v)"
  shows "stepRecord E i nm options (Inl (replayFailedStep nm op)) w"
  using assms by (auto simp: stepRecord_def stepReplays_def replayFailedStep_def outcomeSettled_def noStepDetails_def
      split: option.splits)

lemma serdes_evolves_record:
  assumes "replaySucceededStep E i nm options op w = (out, w')"
  shows "w' = w \<or> \<not> outcomeSettled out"
  using assms serdesFailure_retryable infra_not_settled
  by (fastforce simp: replaySucceededStep_def serdesFailure_def Let_def infra_def outcomeSettled_def
      split: option.splits sum.splits if_splits)

context durable_engine begin

lemma replaySucceededStep_others:
  assumes "ok w" and "replaySucceededStep E i nm options op w = (out, w')"
  shows "others i w w'"
  using assms others_refl others_serdes [OF assms(1)]
  by (fastforce simp: replaySucceededStep_def split: option.splits sum.splits prod.splits)

lemma stepTurn_post:
  assumes ok: "ok w" and st: "stepTurn E ec i nm fn options po la None w = (turn, ec', w')"
    and at: "loopAt E i nm options po la w" and sz: "serdesErrorsOk (so_serdes options)" and q: "quietBody E ok fn"
  shows "others i w w' \<and> turnPost E i nm options la turn w'"
proof -
  let ?a = "nextAttempt la po"
  have a: "?a = attemptOf (eng_get E w i) + 1" by (rule loopAt_attempt [OF ok at])
  have nn: "0 \<le> ?a" "la \<le> ?a" using at a by (auto simp: loopAt_def)
  have exec: ?thesis if "afterAttempt E ec i ?a (executeStepAttempt E ec i nm fn options po ?a None w) = (turn, ec', w')"
    and live: "liveAt E OperationTypeStep i w"
  proof -
    obtain res w1 where e: "executeStepAttempt E ec i nm fn options po ?a None w = (res, w1)" by fastforce
    show ?thesis
      using that by (intro afterAttempt_post [OF ok _ nn executeStepAttempt_post [OF ok e a sz q live]]) (simp add: e)
  qed
  show ?thesis
  proof (cases po)
    case None
    then show ?thesis using st exec at by (simp add: stepTurn_def Let_def liveAt_def loopAt_def)
  next
    case (Some op)
    then have g: "eng_get E w i = Some op" "identityOf op = stepIdentity options nm" "0 \<le> la" "la \<le> attemptOf (Some op)"
      using at by (auto simp: loopAt_def)
    have live: "liveAt E OperationTypeStep i w" if "op_status op \<notin> {statusSucceeded, statusFailed}"
      using that g(1,2) settled_types [OF ok g(1)] by (auto simp: liveAt_def identityOf_def stepIdentity_def selfSettled_def)
    have other: ?thesis if "op_status op \<notin> {statusSucceeded, statusFailed, statusPending, statusStarted}"
      using that st Some exec live by (cases "op_status op") (simp_all add: stepTurn_def Let_def)
    consider "op_status op = statusSucceeded" | "op_status op = statusFailed" | "op_status op = statusPending"
      | "op_status op = statusStarted" | "op_status op \<notin> {statusSucceeded, statusFailed, statusPending, statusStarted}"
      by blast
    then show ?thesis
    proof cases
      case 1
      obtain out w1 where r: "replaySucceededStep E i nm options op w = (out, w1)" by fastforce
      have eq: "turn = StepDone out" "w' = w1" using st Some 1 r by (simp_all add: stepTurn_def Let_def)
      have "stepRecord E i nm options out w1" if s: "outcomeSettled out"
      proof -
        have "w1 = w" using serdes_evolves_record [OF r] s by blast
        then show ?thesis using stepRecord_succeeded [OF g(1,2) 1] r s by simp
      qed
      then show ?thesis using eq replaySucceededStep_others [OF ok r] by (simp add: turnPost_def)
    next
      case 2
      then show ?thesis
        using st Some g stepRecord_failed [OF g(1,2) 2] others_refl [OF ok]
        by (auto simp: stepTurn_def Let_def turnPost_def)
    next
      case 3
      then show ?thesis using st Some by (intro awaitAttempt_post [OF ok _ g]) (simp add: stepTurn_def Let_def)
    next
      case 4
      show ?thesis
      proof (cases "so_semantics options = AtMostOncePerRetry \<and> la = 0")
        case True
        obtain res w1 where e: "settleStepFailure E ec i nm options (Err (KStepInterrupted nm []) []) [] ?a w = (res, w1)" by fastforce
        show ?thesis
          using st Some 4 True e
          by (intro afterAttempt_post [OF ok _ nn settleStepFailure_post [OF ok e a live]]) (simp_all add: stepTurn_def Let_def)
      next
        case False
        then show ?thesis using st Some 4 exec live by (auto simp: stepTurn_def Let_def)
      qed
    next
      case 5
      then show ?thesis by (rule other)
    qed
  qed
qed

lemma stepLoop_post:
  assumes "ok w" and "stepLoop n E ec i nm fn options po la None w = Some (out, ec', w')"
    and "loopAt E i nm options po la w" and "serdesErrorsOk (so_serdes options)" and "quietBody E ok fn"
  shows "others i w w' \<and> (outcomeSettled out \<longrightarrow> stepRecord E i nm options out w')"
  using assms
proof (induction n arbitrary: ec po la w)
  case (Suc n)
  obtain turn ec1 w1 where t: "stepTurn E ec i nm fn options po la None w = (turn, ec1, w1)" by (metis prod.collapse)
  note p = stepTurn_post [OF Suc.prems(1) t Suc.prems(3-5)]
  show ?case
  proof (cases turn)
    case (StepDone o')
    then show ?thesis using Suc.prems(2) t p by (simp add: turnPost_def)
  next
    case (StepAgain op la')
    have "others i w1 w' \<and> (outcomeSettled out \<longrightarrow> stepRecord E i nm options out w')"
      using Suc.prems(2) t p StepAgain others_ok Suc.prems(4,5)
      by (intro Suc.IH [of w1 ec1 "Some op" la']) (auto simp: turnPost_def split: if_splits)
    then show ?thesis using p others_trans by blast
  qed
qed simp

end

lemma validated_identity:
  assumes "validateReplayConsistency (Some op) ty sub nm = None" and "knownType (op_opType op)" and "sub \<noteq> []"
  shows "identityOf op = (ty, sub, nm)"
  using assms by (auto simp: validateReplayConsistency_def Let_def identityOf_def knownType_def split: if_splits)

text \<open>An error that validation or parking reports is not an outcome of the step.\<close>

lemma validate_not_settled: "validateReplayConsistency po ty sub nm = Some e \<Longrightarrow> \<not> outcomeSettled (Inl e)"
  by (auto simp: validateReplayConsistency_def Let_def outcomeSettled_def split: option.splits if_splits)

lemma park_not_settled: "parkUnfinishedReplay E ec po i ty sub nm w = (e, ec', w') \<Longrightarrow> \<not> outcomeSettled (Inl e)"
  by (auto simp: parkUnfinishedReplay_def newUnfinishedReplayError_def Let_def outcomeSettled_def sentinelErr_def
      split: prod.splits if_splits)

context durable_engine begin

lemma parkUnfinishedReplay_others:
  "ok w \<Longrightarrow> parkUnfinishedReplay E ec po i ty sub nm w = (e, ec', w') \<Longrightarrow> others j w w'"
  using others_park [of w _ w' j] by (auto simp: parkUnfinishedReplay_def split: prod.splits if_splits)

lemma runStep_post:
  assumes ok: "ok w" and st: "runStep n E ec i nm fn options None w = Some (out, ec', w')"
    and sub: "so_subType options \<noteq> []" and sz: "serdesErrorsOk (so_serdes options)" and q: "quietBody E ok fn"
  shows "others i w w' \<and> (outcomeSettled out \<longrightarrow> stepRecord E i nm options out w')"
proof -
  let ?po = "eng_get E w i"
  show ?thesis
  proof (cases "validateReplayConsistency ?po OperationTypeStep (so_subType options) nm")
    case (Some e)
    then show ?thesis using st others_refl [OF ok] validate_not_settled [OF Some] by (auto simp: runStep_def)
  next
    case None
    show ?thesis
    proof (cases "unfinishedInSucceededContext ec ?po")
      case True
      obtain e ec1 w1 where p: "parkUnfinishedReplay E ec ?po i OperationTypeStep (so_subType options) nm w = (e, ec1, w1)"
        by (metis prod.collapse)
      then show ?thesis
        using st None True parkUnfinishedReplay_others [OF ok p] park_not_settled [OF p] by (auto simp: runStep_def Let_def)
    next
      case False
      have "loopAt E i nm options ?po 0 w"
        using None types_known [OF ok] sub attempts_nonneg [OF ok, of i] validated_identity
        by (auto simp: loopAt_def stepIdentity_def split: option.splits)
      then show ?thesis
        using st None False by (intro stepLoop_post [OF ok _ _ sz q]) (auto simp: runStep_def Let_def)
    qed
  qed
qed

end

end
