(* ===== verification/Wait_Op.thy ===== *)
theory Wait_Op
  imports Step_Replay
begin

text \<open>
  Wait (wait.go): a timer operation.  A wait succeeds when the service reports
  its record SUCCEEDED; it starts once and is never started again.
\<close>

section \<open>The operation\<close>

definition minWaitDuration :: int where "minWaitDuration = 1000000000"

definition validateWaitDuration :: "string \<Rightarrow> string \<Rightarrow> int \<Rightarrow> goErr option" where
  "validateWaitDuration oper nm d =
     (if d < minWaitDuration
      then Some (Err (KPlain ''errorString'' (''durable: '' @ oper @ '' '' @ goQuote nm @ '': duration must be at least 1 second'')) [])
      else None)"

definition waitStartUpdate :: "'w engine \<Rightarrow> execContext \<Rightarrow> string \<Rightarrow> string \<Rightarrow> int \<Rightarrow> operationUpdate" where
  "waitStartUpdate E ec i nm waitSec =
     (operationBaseUpdate E ec i nm ''Wait'' OperationTypeWait OperationActionStart) \<lparr> ou_WaitSeconds := Some waitSec \<rparr>"

definition unexpectedWaitStatus :: "string \<Rightarrow> operation \<Rightarrow> goErr" where
  "unexpectedWaitStatus nm op = Err (KPlain ''errorString''
     (''durable: wait '' @ goQuote nm @ '': unexpected checkpointed status '' @ operationStatus_string (op_status op))) []"

definition awaitWait :: "'w engine \<Rightarrow> execContext \<Rightarrow> string \<Rightarrow> string \<Rightarrow> 'w \<Rightarrow> goErr option \<times> execContext \<times> 'w" where
  "awaitWait E ec i nm w =
    (case awaitOperation E ec i terminalRecord w of
       (Inl e, ec', w') \<Rightarrow> (Some e, ec', w')
     | (Inr op, ec', w') \<Rightarrow>
         if op_status op \<noteq> statusSucceeded then (Some (unexpectedWaitStatus nm op), ec', w') else (None, ec', w'))"

definition startedWait :: "'w engine \<Rightarrow> execContext \<Rightarrow> string \<Rightarrow> string \<Rightarrow> goErr option \<times> 'w \<Rightarrow>
    goErr option \<times> execContext \<times> 'w" where
  "startedWait E ec i nm startResult = (case startResult of
      (Some e, w) \<Rightarrow> (Some (checkpointFailure e), ec, w)
    | (None, w) \<Rightarrow> awaitWait E ec i nm w)"

definition waitDurationError :: "string \<Rightarrow> goErr \<Rightarrow> goErr" where
  "waitDurationError nm e = Err (KPlain ''wrapError'' (''durable: Wait '' @ goQuote nm @ '': '' @ errText e)) [e]"

definition runWait :: "'w engine \<Rightarrow> execContext \<Rightarrow> string \<Rightarrow> string \<Rightarrow> int \<Rightarrow> 'w queuedStart option \<Rightarrow> 'w \<Rightarrow>
    goErr option \<times> execContext \<times> 'w" where
  "runWait E ec i nm d start w = (case start of
      Some await \<Rightarrow>
        (case durationToSeconds (eng_durationText E) d of
           Inl e \<Rightarrow> (Some (waitDurationError nm e), ec, w)
         | Inr _ \<Rightarrow> startedWait E ec i nm (await w))
    | None \<Rightarrow>
        (let po = eng_get E w i;
             live = (case durationToSeconds (eng_durationText E) d of
                 Inl e \<Rightarrow> (Some (waitDurationError nm e), ec, w)
               | Inr waitSec \<Rightarrow> startedWait E ec i nm (eng_checkpoint E [waitStartUpdate E ec i nm waitSec] w))
         in case validateReplayConsistency po OperationTypeWait ''Wait'' nm of
              Some e \<Rightarrow> (Some e, ec, w)
            | None \<Rightarrow>
               if unfinishedInSucceededContext ec po
               then (case parkUnfinishedReplay E ec po i OperationTypeWait ''Wait'' nm w of (e, ec', w') \<Rightarrow> (Some e, ec', w'))
               else (case po of None \<Rightarrow> live
                  | Some op \<Rightarrow> (case op_status op of
                      statusSucceeded \<Rightarrow> (None, ec, w)
                    | statusStarted \<Rightarrow> awaitWait E ec i nm w
                    | statusOther _ \<Rightarrow> live
                    | _ \<Rightarrow> (Some (unexpectedWaitStatus nm op), ec, w)))))"

definition Wait :: "'w engine \<Rightarrow> goErr option \<Rightarrow> execContext \<Rightarrow> string \<Rightarrow> int \<Rightarrow> 'w \<Rightarrow> goErr option \<times> execContext \<times> 'w" where
  "Wait E callerErr ec nm d w = (case validateWaitDuration ''Wait'' nm d of
      Some e \<Rightarrow> (Some e, ec, w)
    | None \<Rightarrow>
       (case claimOperation E callerErr ec w of
          (Inl e, ec1) \<Rightarrow> (Some e, ec1, w)
        | (Inr i, ec1) \<Rightarrow> (case runWait E ec1 i nm d None w of
             (out, ec2, w') \<Rightarrow> (out, observeOutcome E i out w' ec2, w'))))"

section \<open>What a wait records\<close>

definition waitRecord :: "'w engine \<Rightarrow> string \<Rightarrow> string \<Rightarrow> 'w \<Rightarrow> bool" where
  "waitRecord E i nm w \<longleftrightarrow> (case eng_get E w i of None \<Rightarrow> False
     | Some op \<Rightarrow> identityOf op = (OperationTypeWait, ''Wait'', nm) \<and> op_status op = statusSucceeded)"

lemma waitRecord_evolves:
  "waitRecord E i nm w \<Longrightarrow> evolves (eng_get E w i) (eng_get E w' i) \<Longrightarrow> waitRecord E i nm w'"
  by (auto simp: waitRecord_def evolves_def dest: core_facts split: option.splits)

lemma runWait_replay:
  assumes "waitRecord E i nm w"
  shows "runWait E ec i nm d None w = (None, ec, w)"
proof -
  obtain op where op: "eng_get E w i = Some op" "identityOf op = (OperationTypeWait, ''Wait'', nm)" "op_status op = statusSucceeded"
    using assms by (auto simp: waitRecord_def split: option.splits)
  then show ?thesis
    using validate_identity [OF op(2)] by (simp add: runWait_def unfinishedInSucceededContext_def Let_def)
qed

context durable_engine begin

lemma awaitWait_post:
  assumes ok: "ok w" and st: "awaitWait E ec i nm w = (r, ec', w')"
    and id: "\<And>op. eng_get E w i = Some op \<Longrightarrow> identityOf op = (OperationTypeWait, ''Wait'', nm)"
  shows "others i w w' \<and> (r = None \<longrightarrow> waitRecord E i nm w')"
proof -
  obtain a w1 where a: "eng_await E i terminalRecord w = (a, w1)" by fastforce
  have o: "others i w w1" by (rule others_await [OF ok a])
  show ?thesis
  proof (cases a)
    case (Inl e)
    then show ?thesis using st a o by (auto simp: awaitWait_def awaitOperation_def)
  next
    case (Inr op)
    have g: "eng_get E w1 i = Some op" using await_ready [OF ok] a Inr by auto
    then have "identityOf op = (OperationTypeWait, ''Wait'', nm)"
      using await_evolves [OF ok a, of i] id by (auto simp: evolves_def split: option.splits)
    then show ?thesis
      using st a o g Inr by (auto simp: awaitWait_def awaitOperation_def waitRecord_def split: if_splits)
  qed
qed

lemma startedWait_post:
  assumes ok: "ok w" and st: "startedWait E ec i nm (eng_checkpoint E [waitStartUpdate E ec i nm s] w) = (r, ec', w')"
    and live: "\<not> terminalRecord (eng_get E w i)"
  shows "others i w w' \<and> (r = None \<longrightarrow> waitRecord E i nm w')"
proof -
  let ?u = "waitStartUpdate E ec i nm s"
  obtain e w1 where c: "eng_checkpoint E [?u] w = (e, w1)" by fastforce
  have u: "ou_Id ?u = Some (eng_hash E i)" "ou_Type ?u = OperationTypeWait" by (simp_all add: waitStartUpdate_def)
  have o: "others i w w1"
    by (rule others_checkpoint [OF ok c u(1) _ live]) (simp add: plainUpdate_def waitStartUpdate_def)
  show ?thesis
  proof (cases e)
    case (Some x)
    then show ?thesis using st c o by (auto simp: startedWait_def)
  next
    case None
    have "recorded ?u (eng_get E w i) (eng_get E w1 i)"
      using checkpoint_recorded [OF ok, of ?u w1 i] c None u by simp
    then have "others i w1 w' \<and> (r = None \<longrightarrow> waitRecord E i nm w')"
      using st c None others_ok [OF o]
      by (intro awaitWait_post [of w1 ec i nm r ec' w'])
         (auto simp: startedWait_def recorded_def waitStartUpdate_def split: option.splits)
    then show ?thesis using o others_trans by blast
  qed
qed

lemma runWait_post:
  assumes ok: "ok w" and st: "runWait E ec i nm d None w = (r, ec', w')"
  shows "others i w w' \<and> (r = None \<longrightarrow> waitRecord E i nm w')"
proof -
  let ?po = "eng_get E w i"
  let ?live = "case durationToSeconds (eng_durationText E) d of Inl e \<Rightarrow> (Some (waitDurationError nm e), ec, w)
     | Inr waitSec \<Rightarrow> startedWait E ec i nm (eng_checkpoint E [waitStartUpdate E ec i nm waitSec] w)"
  have live: ?thesis if "?live = (r, ec', w')" and "\<not> terminalRecord ?po"
    using that startedWait_post [OF ok] others_refl [OF ok] by (auto split: sum.splits)
  show ?thesis
  proof (cases "validateReplayConsistency ?po OperationTypeWait ''Wait'' nm")
    case (Some e)
    then show ?thesis using st others_refl [OF ok] by (auto simp: runWait_def)
  next
    case v: None
    show ?thesis
    proof (cases "unfinishedInSucceededContext ec ?po")
      case True
      obtain e ec1 w1 where p: "parkUnfinishedReplay E ec ?po i OperationTypeWait ''Wait'' nm w = (e, ec1, w1)"
        by (metis prod.collapse)
      then show ?thesis using st v True parkUnfinishedReplay_others [OF ok p] by (auto simp: runWait_def)
    next
      case False
      show ?thesis
      proof (cases ?po)
        case None
        then show ?thesis using st v False live by (simp add: runWait_def terminalRecord_def)
      next
        case (Some op)
        have id: "identityOf op = (OperationTypeWait, ''Wait'', nm)"
          using v types_known [OF ok Some] Some by (intro validated_identity) auto
        show ?thesis
          using st v False live Some id others_refl [OF ok] awaitWait_post [OF ok, of ec i nm r ec' w']
          by (cases "op_status op") (auto simp: runWait_def waitRecord_def terminalRecord_def)
      qed
    qed
  qed
qed

end

end
