(* ===== verification/Child_Op.thy ===== *)
theory Child_Op
  imports Wait_Op
begin

text \<open>
  Child contexts (child_context.go): the subtype rules, the run of a child on
  its parent's goroutine from its checkpointed status, the settling of its
  body's outcome, the replay of a child whose result was too large to store,
  and virtual children, which record nothing of their own.
\<close>

section \<open>Subtypes\<close>

definition maxOperationSubTypeLength :: nat where "maxOperationSubTypeLength = 32"

definition isSubTypeChar :: "char \<Rightarrow> bool" where
  "isSubTypeChar c \<longleftrightarrow> (let n = (of_char c :: nat) in
     65 \<le> n \<and> n \<le> 90 \<or> 97 \<le> n \<and> n \<le> 122 \<or> 48 \<le> n \<and> n \<le> 57 \<or> c = CHR ''-'' \<or> c = CHR ''_'')"

definition isReservedChildSubType :: "string \<Rightarrow> bool" where
  "isReservedChildSubType s \<longleftrightarrow> s \<in> {''Step'', ''Wait'', ''Callback'', ''ChainedInvoke'', ''WaitForCallback'',
     ''WaitForCondition'', ''Map'', ''MapIteration'', ''Parallel'', ''ParallelBranch''}"

definition subTypeError :: "string \<Rightarrow> goErr" where
  "subTypeError msg = Err (KPlain ''errorString'' msg) []"

text \<open>Which rule a configured subtype breaks; the messages print the value, a character and an index.\<close>

datatype subTypeFault = SubTypeTooLong nat | SubTypeBadChar char nat | SubTypeReserved

definition subTypeFault :: "(string \<Rightarrow> bool) \<Rightarrow> string \<Rightarrow> subTypeFault option" where
  "subTypeFault reserved s =
    (if length s > maxOperationSubTypeLength then Some (SubTypeTooLong (length s))
     else case find (\<lambda>(i, c). \<not> isSubTypeChar c) (enumerate 0 s) of
         Some (i, c) \<Rightarrow> Some (SubTypeBadChar c i)
       | None \<Rightarrow> if reserved s then Some SubTypeReserved else None)"

definition childSubType :: "string \<Rightarrow> subTypeFault + string" where
  "childSubType s = (if s = '''' then Inr ''RunInChildContext''
     else case subTypeFault isReservedChildSubType s of Some f \<Rightarrow> Inl f | None \<Rightarrow> Inr s)"

definition resolveOperationSubType :: "string \<Rightarrow> string \<Rightarrow> subTypeFault + string" where
  "resolveOperationSubType s def = (if s = '''' \<or> s = def then Inr def
     else case subTypeFault (\<lambda>x. isReservedChildSubType x \<or> x = ''RunInChildContext'') s of
       Some f \<Rightarrow> Inl f | None \<Rightarrow> Inr s)"

section \<open>Options and bodies\<close>

definition checkpointSizeLimitBytes :: nat where "checkpointSizeLimitBytes = 262144"

text \<open>A summary function may panic with some text.\<close>

record 'v childOptions =
  co_serdes :: "'v serdes"
  co_errorMapper :: "(goErr \<Rightarrow> goErr option) option"
  co_summary :: "('v \<Rightarrow> string + string) option"

text \<open>A body runs on a child context; a failing one also has the stack trace captured for it.\<close>

type_synonym ('v, 'w) childBody =
  "execContext \<Rightarrow> 'w \<Rightarrow> (((goErr \<times> string list) + 'v) \<times> execContext \<times> 'w) option"

definition childFailure :: "'v childOptions \<Rightarrow> string \<Rightarrow> errorRecord \<Rightarrow> goErr" where
  "childFailure options nm r =
    (let childErr = newChildContextError nm r in
     case co_errorMapper options of None \<Rightarrow> childErr
     | Some f \<Rightarrow> (case f childErr of Some mapped \<Rightarrow> mapped | None \<Rightarrow> childErr))"

definition childSummaryPayload :: "string \<Rightarrow> ('v \<Rightarrow> string + string) option \<Rightarrow> 'v \<Rightarrow> goErr + string option" where
  "childSummaryPayload nm summary result = (case summary of None \<Rightarrow> Inr None
     | Some f \<Rightarrow> (case f result of
          Inl panicText \<Rightarrow> Inl (Err (KPlain ''errorString''
             (''durable: child context '' @ goQuote nm @ '': WithChildSummary function panicked: '' @ panicText)) [])
        | Inr text \<Rightarrow> (let s = truncateUTF8 text checkpointSizeLimitBytes in Inr (if s = '''' then None else Some s))))"

section \<open>Running a child\<close>

definition childUpdate :: "'w engine \<Rightarrow> execContext \<Rightarrow> string \<Rightarrow> string \<Rightarrow> string \<Rightarrow> operationAction \<Rightarrow> operationUpdate" where
  "childUpdate E ec i nm subType act = operationBaseUpdate E ec i nm subType OperationTypeContext act"

definition childFailureRecord :: "operation \<Rightarrow> errorRecord" where
  "childFailureRecord op = (case op_childCtx op of
      None \<Rightarrow> noError \<lparr> er_errType := ''Error'', er_message := ''child context failed'' \<rparr>
    | Some cd \<Rightarrow> cd_record cd)"

definition childReplayMode :: "'w engine \<Rightarrow> string \<Rightarrow> operation option \<Rightarrow> 'w \<Rightarrow> executionMode" where
  "childReplayMode E i po w =
     (if (case po of Some op \<Rightarrow> op_status op = statusSucceeded | None \<Rightarrow> False) then modeReplaySucceededContext
      else if eng_get E w (i @ ''-1'') \<noteq> None \<or> eng_hasChildOf E w i then modeReplay else modeExecution)"

definition bodySuspended :: "goErr \<Rightarrow> bool" where
  "bodySuspended e \<longleftrightarrow> errors_Is e errSuspendExecution \<or> errors_Is e errCheckpointTerminated"

definition replayedChildFailure :: "string \<Rightarrow> 'v childOptions \<Rightarrow> goErr \<Rightarrow> string list \<Rightarrow> goErr" where
  "replayedChildFailure nm options e trace =
     (if bodySuspended e then sentinelErr errSuspendExecution
      else childFailure options nm (withTrace trace (recordOf e)))"

definition roundTripReplayedResult :: "'w engine \<Rightarrow> 'v serdes \<Rightarrow> string \<Rightarrow> string \<Rightarrow> 'v \<Rightarrow> 'w \<Rightarrow> (goErr + 'v \<times> string) \<times> 'w" where
  "roundTripReplayedResult E sd i oper result w =
    (case sz_marshal sd i result of
       Inl c \<Rightarrow> (let (e, w') = serdesFailure E oper ''marshal'' c w in (Inl e, w'))
     | Inr serialized \<Rightarrow> (case decodeLiveResult E sd i oper serialized w of
          (Inl e, w') \<Rightarrow> (Inl e, w') | (Inr out, w') \<Rightarrow> (Inr (out, serialized), w')))"

definition noContextDetails :: "string \<Rightarrow> operation \<Rightarrow> goErr" where
  "noContextDetails nm op = Err (KPlain ''errorString''
     (''durable: child context '' @ goQuote nm @ '': checkpointed '' @ operationStatus_string (op_status op) @
      '' operation has no context details'')) []"

definition replaySucceededChild :: "'w engine \<Rightarrow> execContext \<Rightarrow> string \<Rightarrow> string \<Rightarrow> 'v childOptions \<Rightarrow> ('v, 'w) childBody \<Rightarrow>
    operation \<Rightarrow> 'w \<Rightarrow> ((goErr + 'v) \<times> 'w) option" where
  "replaySucceededChild E ec i nm options fn op w = (case op_childCtx op of
      None \<Rightarrow> Some (Inl (noContextDetails nm op), w)
    | Some cd \<Rightarrow>
        if cd_replayChildren cd
        then (case fn (ec_child i modeReplaySucceededContext ec) w of
                None \<Rightarrow> None
              | Some (Inl (e, trace), _, w1) \<Rightarrow> Some (Inl (replayedChildFailure nm options e trace), w1)
              | Some (Inr v, _, w1) \<Rightarrow> (case roundTripReplayedResult E (co_serdes options) i nm v w1 of
                    (Inl e, w2) \<Rightarrow> Some (Inl e, w2) | (Inr (out, _), w2) \<Rightarrow> Some (Inr out, w2)))
        else (case sz_unmarshal (co_serdes options) i (cd_result cd) of
                Inl c \<Rightarrow> (let (e, w1) = serdesFailure E nm ''unmarshal'' c w in Some (Inl e, w1))
              | Inr v \<Rightarrow> Some (Inr v, w)))"

text \<open>The body's outcome: recorded as FAIL or SUCCEED, or left open when the invocation ends under it.\<close>

definition settleChildFailure :: "'w engine \<Rightarrow> execContext \<Rightarrow> string \<Rightarrow> string \<Rightarrow> string \<Rightarrow> 'v childOptions \<Rightarrow> goErr \<Rightarrow>
    string list \<Rightarrow> 'w \<Rightarrow> (goErr + 'v) \<times> 'w" where
  "settleChildFailure E ec i nm subType options e trace w =
    (if bodySuspended e then (Inl (sentinelErr errSuspendExecution), w)
     else let r = withTrace trace (recordOf e);
              u = (childUpdate E ec i nm subType OperationActionFail) \<lparr> ou_Error := Some (errorObjectFromRecord r) \<rparr>
          in case eng_checkpoint E [u] w of
               (Some ce, w') \<Rightarrow> (Inl (checkpointFailure ce), w')
             | (None, w') \<Rightarrow> (Inl (childFailure options nm r), w'))"

definition childSuccessUpdate :: "'w engine \<Rightarrow> execContext \<Rightarrow> string \<Rightarrow> string \<Rightarrow> string \<Rightarrow> 'v childOptions \<Rightarrow> 'v \<Rightarrow> string \<Rightarrow>
    goErr + operationUpdate" where
  "childSuccessUpdate E ec i nm subType options result serialized =
    (let u = childUpdate E ec i nm subType OperationActionSucceed in
     if length serialized > checkpointSizeLimitBytes
     then (case childSummaryPayload nm (co_summary options) result of
             Inl e \<Rightarrow> Inl e
           | Inr payload \<Rightarrow> Inr (u \<lparr> ou_ReplayChildren := Some True, ou_Payload := payload \<rparr>))
     else Inr (u \<lparr> ou_Payload := Some serialized \<rparr>))"

definition settleChildSuccess :: "'w engine \<Rightarrow> execContext \<Rightarrow> string \<Rightarrow> string \<Rightarrow> string \<Rightarrow> 'v childOptions \<Rightarrow> 'v \<Rightarrow> 'w \<Rightarrow>
    (goErr + 'v) \<times> 'w" where
  "settleChildSuccess E ec i nm subType options result w =
    (case sz_marshal (co_serdes options) i result of
       Inl c \<Rightarrow> (let (e, w1) = serdesFailure E nm ''marshal'' c w in (Inl e, w1))
     | Inr serialized \<Rightarrow>
        (case decodeLiveResult E (co_serdes options) i nm serialized w of (out, w1) \<Rightarrow>
          if (case out of Inl e \<Rightarrow> isSerdesInvocationEnd e | Inr _ \<Rightarrow> False) then (out, w1)
          else (case childSuccessUpdate E ec i nm subType options result serialized of
                  Inl e \<Rightarrow> (Inl e, w1)
                | Inr u \<Rightarrow> (case eng_checkpoint E [u] w1 of
                      (Some ce, w2) \<Rightarrow> (Inl (checkpointFailure ce), w2)
                    | (None, w2) \<Rightarrow> (out, w2)))))"

definition runChildBody :: "'w engine \<Rightarrow> execContext \<Rightarrow> string \<Rightarrow> string \<Rightarrow> string \<Rightarrow> 'v childOptions \<Rightarrow> ('v, 'w) childBody \<Rightarrow>
    operation option \<Rightarrow> 'w \<Rightarrow> ((goErr + 'v) \<times> 'w) option" where
  "runChildBody E ec i nm subType options fn po w =
    (case (if po = None then eng_checkpointNoWait E (childUpdate E ec i nm subType OperationActionStart) w else (None, w)) of
       (Some ce, w1) \<Rightarrow> Some (Inl (checkpointFailure ce), w1)
     | (None, w1) \<Rightarrow>
        (case fn (ec_child i (childReplayMode E i po w1) ec) w1 of
           None \<Rightarrow> None
         | Some (Inl (e, trace), _, w2) \<Rightarrow> Some (settleChildFailure E ec i nm subType options e trace w2)
         | Some (Inr v, _, w2) \<Rightarrow> Some (settleChildSuccess E ec i nm subType options v w2)))"

definition runClaimedChild :: "'w engine \<Rightarrow> execContext \<Rightarrow> string \<Rightarrow> string \<Rightarrow> string \<Rightarrow> 'v childOptions \<Rightarrow> ('v, 'w) childBody \<Rightarrow>
    'w \<Rightarrow> ((goErr + 'v) \<times> execContext \<times> 'w) option" where
  "runClaimedChild E ec i nm subType options fn w =
    (let po = eng_get E w i;
         same = map_option (\<lambda>(out, w'). (out, ec, w'))
     in case validateReplayConsistency po OperationTypeContext subType nm of
          Some e \<Rightarrow> Some (Inl e, ec, w)
        | None \<Rightarrow>
           if unfinishedInSucceededContext ec po
           then (case parkUnfinishedReplay E ec po i OperationTypeContext subType nm w of (e, ec', w') \<Rightarrow> Some (Inl e, ec', w'))
           else (case po of None \<Rightarrow> same (runChildBody E ec i nm subType options fn po w)
              | Some op \<Rightarrow> (case op_status op of
                  statusSucceeded \<Rightarrow> same (replaySucceededChild E ec i nm options fn op w)
                | statusFailed \<Rightarrow> Some (Inl (childFailure options nm (childFailureRecord op)), ec, w)
                | _ \<Rightarrow> same (runChildBody E ec i nm subType options fn po w))))"

definition RunInChildContext :: "'w engine \<Rightarrow> goErr option \<Rightarrow> execContext \<Rightarrow> string \<Rightarrow> string \<Rightarrow> 'v childOptions \<Rightarrow>
    ('v, 'w) childBody \<Rightarrow> 'w \<Rightarrow> ((goErr + 'v) \<times> execContext \<times> 'w) option" where
  "RunInChildContext E callerErr ec nm subType options fn w =
    (case claimOperation E callerErr ec w of
       (Inl e, ec1) \<Rightarrow> Some (Inl e, ec1, w)
     | (Inr i, ec1) \<Rightarrow>
        (case runClaimedChild E ec1 i nm subType options fn w of None \<Rightarrow> None
         | Some (out, ec2, w') \<Rightarrow>
             Some (out, observeOutcome E i (case out of Inl e \<Rightarrow> Some e | Inr _ \<Rightarrow> None) w' ec2, w')))"

section \<open>Virtual children\<close>

definition virtualInsideVirtual :: "string \<Rightarrow> goErr" where
  "virtualInsideVirtual nm = Err (KPlain ''errorString'' (''durable: child context '' @ goQuote nm @
     '': WithChildVirtual cannot be used inside a virtual child context; make one of the two a checkpointed child context'')) []"

definition virtualOverRecord :: "string \<Rightarrow> operation \<Rightarrow> goErr" where
  "virtualOverRecord nm op = Err (KNonDeterministic nm (op_id op)
     \<lparr> nd_currentType = '''', nd_currentSubType = '''', nd_currentName = nm,
       nd_recordedType = operationType_string (op_opType op), nd_recordedSubType = op_subType op, nd_recordedName = op_name op \<rparr>
     '''' (''durable: non-deterministic replay at step '' @ goQuote (op_id op) @ '' (name '' @ goQuote nm @
       ''): the checkpoint records a '' @ operationType_string (op_opType op) @ ''/'' @ op_subType op @
       '' operation named '' @ goQuote (op_name op) @ '', but the code declares a virtual child context, '' @
       ''which records no operation of its own '' @ [CHR 0xE2, CHR 0x80, CHR 0x94] @
       '' the handler code changed between deployments'')) []"

definition claimVirtualChild :: "'w engine \<Rightarrow> goErr option \<Rightarrow> execContext \<Rightarrow> string \<Rightarrow> 'w \<Rightarrow> (goErr + string) \<times> execContext" where
  "claimVirtualChild E callerErr ec nm w =
    (if ec_virtual ec then (Inl (virtualInsideVirtual nm), ec)
     else case claimable E callerErr ec w of Some e \<Rightarrow> (Inl e, ec)
     | None \<Rightarrow> (let (i, ids') = ids_next (ec_ids ec); ec' = ec \<lparr> ec_ids := ids' \<rparr> in
         case eng_get E w i of Some op \<Rightarrow> (Inl (virtualOverRecord nm op), ec') | None \<Rightarrow> (Inr i, ec')))"

definition virtualChildContext :: "string \<Rightarrow> execContext \<Rightarrow> execContext" where
  "virtualChildContext i ec =
     (ec_child i (ec_mode ec) ec) \<lparr> ec_checkpointParent := ec_checkpointParent ec, ec_virtual := True \<rparr>"

definition virtualChildSuccess :: "'w engine \<Rightarrow> string \<Rightarrow> string \<Rightarrow> 'v childOptions \<Rightarrow> 'v \<Rightarrow> 'w \<Rightarrow> (goErr + 'v) \<times> 'w" where
  "virtualChildSuccess E i nm options result w =
    (case sz_marshal (co_serdes options) i result of
       Inl c \<Rightarrow> (let (e, w') = serdesFailure E nm ''marshal'' c w in (Inl e, w'))
     | Inr serialized \<Rightarrow> (case sz_unmarshal (co_serdes options) i serialized of
          Inl c \<Rightarrow> (let (e, w') = serdesFailure E nm ''unmarshal'' c w in (Inl e, w'))
        | Inr out \<Rightarrow> (Inr out, w)))"

definition runVirtualChild :: "'w engine \<Rightarrow> goErr option \<Rightarrow> execContext \<Rightarrow> string \<Rightarrow> 'v childOptions \<Rightarrow> ('v, 'w) childBody \<Rightarrow>
    'w \<Rightarrow> ((goErr + 'v) \<times> execContext \<times> 'w) option" where
  "runVirtualChild E callerErr ec nm options fn w =
    (case claimVirtualChild E callerErr ec nm w of
       (Inl e, ec1) \<Rightarrow> Some (Inl e, ec1, w)
     | (Inr i, ec1) \<Rightarrow>
        (case fn (virtualChildContext i ec1) w of None \<Rightarrow> None
         | Some (r, child, w1) \<Rightarrow>
            (let ec2 = receiveOutcome (case r of Inl (e, _) \<Rightarrow> Some e | Inr _ \<Rightarrow> None) (ec_mode child = modeExecution) ec1
             in case r of
                  Inl (e, trace) \<Rightarrow> Some (Inl (replayedChildFailure nm options e trace), ec2, w1)
                | Inr v \<Rightarrow> (case virtualChildSuccess E i nm options v w1 of (out, w2) \<Rightarrow> Some (out, ec2, w2)))))"

section \<open>What a child records\<close>

text \<open>The record a child's outcome replays from without its body: a failure, or a success whose payload is stored.\<close>

definition childReplays :: "string \<Rightarrow> string \<Rightarrow> 'v childOptions \<Rightarrow> operation \<Rightarrow> goErr + 'v \<Rightarrow> bool" where
  "childReplays nm i options op out \<longleftrightarrow>
     (op_status op = statusFailed \<and> out = Inl (childFailure options nm (childFailureRecord op))) \<or>
     (op_status op = statusSucceeded \<and> (case op_childCtx op of None \<Rightarrow> False
        | Some cd \<Rightarrow> \<not> cd_replayChildren cd \<and>
            (case sz_unmarshal (co_serdes options) i (cd_result cd) of Inr v \<Rightarrow> out = Inr v
             | Inl c \<Rightarrow> \<not> errors_Is c ErrRetryableSerdes \<and> out = Inl (newSerdesError nm ''unmarshal'' c))))"

definition childRecord :: "'w engine \<Rightarrow> string \<Rightarrow> string \<Rightarrow> string \<Rightarrow> 'v childOptions \<Rightarrow> goErr + 'v \<Rightarrow> 'w \<Rightarrow> bool" where
  "childRecord E i nm subType options out w \<longleftrightarrow> (case eng_get E w i of None \<Rightarrow> False
     | Some op \<Rightarrow> identityOf op = (OperationTypeContext, subType, nm) \<and> childReplays nm i options op out)"

definition storedChild :: "'w engine \<Rightarrow> string \<Rightarrow> 'w \<Rightarrow> bool" where
  "storedChild E i w \<longleftrightarrow> (case eng_get E w i of None \<Rightarrow> False
     | Some op \<Rightarrow> (case op_childCtx op of None \<Rightarrow> True | Some cd \<Rightarrow> \<not> cd_replayChildren cd))"

lemma childReplays_core:
  assumes "core op' = core op" shows "childReplays nm i options op' out = childReplays nm i options op out"
  unfolding childReplays_def childFailureRecord_def core_facts(1) [OF assms] core_facts(7) [OF assms] ..

lemma childReplays_terminal: "childReplays nm i options op out \<Longrightarrow> status_terminal (op_status op)"
  by (auto simp: childReplays_def)

lemma childRecord_evolves:
  assumes "childRecord E i nm subType options out w" and ev: "evolves (eng_get E w i) (eng_get E w' i)"
  shows "childRecord E i nm subType options out w'"
proof -
  obtain op where op: "eng_get E w i = Some op" "identityOf op = (OperationTypeContext, subType, nm)"
    "childReplays nm i options op out"
    using assms(1) by (auto simp: childRecord_def split: option.splits)
  obtain op' where op': "eng_get E w' i = Some op'" "identityOf op' = identityOf op" "core op' = core op"
    using ev childReplays_terminal [OF op(3)] by (auto simp: evolves_def op(1) split: option.splits)
  show ?thesis
    unfolding childRecord_def op'(1) option.case childReplays_core [OF op'(3)] op'(2) using op(2,3) by blast
qed

lemma runClaimedChild_replay:
  assumes "childRecord E i nm subType options out w"
  shows "runClaimedChild E ec i nm subType options fn w = Some (out, ec, w)"
proof -
  obtain op where op: "eng_get E w i = Some op" "identityOf op = (OperationTypeContext, subType, nm)"
    "childReplays nm i options op out"
    using assms by (auto simp: childRecord_def split: option.splits)
  have u: "\<not> unfinishedInSucceededContext ec (Some op)"
    using childReplays_terminal [OF op(3)] by (simp add: unfinishedInSucceededContext_def)
  show ?thesis
    using op(3) validate_identity [OF op(2)] u op(1)
    by (auto simp: childReplays_def runClaimedChild_def replaySucceededChild_def serdesFailure_def Let_def
        split: option.splits sum.splits)
qed

context durable_engine begin

lemma child_checkpoint:
  assumes "ok w" and "eng_checkpoint E [u] w = (r, w')" and "ou_Id u = Some (eng_hash E i)" and "ou_Type u = OperationTypeContext"
    and "plainUpdate u" and "liveAt E OperationTypeContext i w"
  shows "others i w w'" "r = Some e \<Longrightarrow> infra e" "r = None \<Longrightarrow> recorded u (eng_get E w i) (eng_get E w' i)"
  using others_checkpoint [OF assms(1-3,5) liveAt_terminalRecord [OF assms(6)]] assms(4) checkpoint_err [OF assms(1)] checkpoint_recorded [OF assms(1)] assms(2-4) by auto

lemma settleChildFailure_post:
  assumes ok: "ok w" and st: "settleChildFailure E ec i nm subType options e tr w = (out, w')"
    and live: "liveAt E OperationTypeContext i w"
  shows "others i w w' \<and> (outcomeSettled out \<longrightarrow> childRecord E i nm subType options out w')"
proof (cases "bodySuspended e")
  case True
  then show ?thesis using st others_refl [OF ok] by (auto simp: settleChildFailure_def)
next
  case False
  let ?r = "withTrace tr (recordOf e)"
  let ?u = "(childUpdate E ec i nm subType OperationActionFail) \<lparr> ou_Error := Some (errorObjectFromRecord ?r) \<rparr>"
  obtain r w1 where ck: "eng_checkpoint E [?u] w = (r, w1)" by fastforce
  have u: "ou_Id ?u = Some (eng_hash E i)" "ou_Type ?u = OperationTypeContext" "plainUpdate ?u"
    by (simp_all add: childUpdate_def plainUpdate_def)
  note c = child_checkpoint [OF ok ck u live]
  show ?thesis
  proof (cases r)
    case None
    have "childRecord E i nm subType options (Inl (childFailure options nm ?r)) w1"
      using c(3) [OF None]
      by (auto simp: recorded_def childRecord_def childReplays_def childUpdate_def childFailureRecord_def split: option.splits)
    then show ?thesis using st False ck None c(1) by (auto simp: settleChildFailure_def Let_def)
  next
    case (Some x)
    then show ?thesis
      using st False ck c(1) infra_not_settled [OF checkpointFailure_infra [OF c(2) [OF Some]]]
      by (auto simp: settleChildFailure_def Let_def)
  qed
qed

lemma decodeLiveResult_post:
  assumes ok: "ok w" and d: "decodeLiveResult E sd i nm serialized w = (out, w1)" and sz: "serdesErrorsOk sd"
  shows "others j w w1 \<and> evolves (eng_get E w p) (eng_get E w1 p)" "case out of Inl e \<Rightarrow> isSerdesInvocationEnd e | Inr _ \<Rightarrow> False \<Longrightarrow> \<not> outcomeSettled out"
    "\<not> (case out of Inl e \<Rightarrow> isSerdesInvocationEnd e | Inr _ \<Rightarrow> False) \<Longrightarrow>
       (case sz_unmarshal sd i serialized of Inr v \<Rightarrow> out = Inr v
         | Inl c \<Rightarrow> \<not> errors_Is c ErrRetryableSerdes \<and> out = Inl (newSerdesError nm ''unmarshal'' c))"
proof -
  have "(others j w w1 \<and> evolves (eng_get E w p) (eng_get E w1 p)) \<and>
    ((case out of Inl e \<Rightarrow> isSerdesInvocationEnd e | Inr _ \<Rightarrow> False) \<and> \<not> outcomeSettled out \<or>
     \<not> (case out of Inl e \<Rightarrow> isSerdesInvocationEnd e | Inr _ \<Rightarrow> False) \<and>
       (case sz_unmarshal sd i serialized of Inr v \<Rightarrow> out = Inr v
         | Inl c \<Rightarrow> \<not> errors_Is c ErrRetryableSerdes \<and> out = Inl (newSerdesError nm ''unmarshal'' c)))"
  proof (cases "sz_unmarshal sd i serialized")
    case (Inl c)
    obtain f w2 where f: "serdesFailure E nm ''unmarshal'' c w = (f, w2)" by fastforce
    then show ?thesis
      using d Inl sz serdesFailure_retryable [OF f] serdesFailure_permanent [OF f] others_serdes [OF ok f]
      by (cases "errors_Is c ErrRetryableSerdes") (auto simp: decodeLiveResult_def serdesErrorsOk_def dest: infra_not_settled)
  next
    case (Inr v)
    then have "out = Inr v" "w1 = w" using d by (simp_all add: decodeLiveResult_def)
    then show ?thesis using Inr others_refl [OF ok] by simp
  qed
  then show "others j w w1 \<and> evolves (eng_get E w p) (eng_get E w1 p)" "case out of Inl e \<Rightarrow> isSerdesInvocationEnd e | Inr _ \<Rightarrow> False \<Longrightarrow> \<not> outcomeSettled out"
    "\<not> (case out of Inl e \<Rightarrow> isSerdesInvocationEnd e | Inr _ \<Rightarrow> False) \<Longrightarrow>
       (case sz_unmarshal sd i serialized of Inr v \<Rightarrow> out = Inr v
         | Inl c \<Rightarrow> \<not> errors_Is c ErrRetryableSerdes \<and> out = Inl (newSerdesError nm ''unmarshal'' c))"
    by blast+
qed

lemma settleChildSuccess_post:
  assumes ok: "ok w" and st: "settleChildSuccess E ec i nm subType options v w = (out, w')"
    and sz: "serdesErrorsOk (co_serdes options)" and live: "liveAt E OperationTypeContext i w"
  shows "others i w w' \<and> (outcomeSettled out \<longrightarrow> storedChild E i w' \<longrightarrow> childRecord E i nm subType options out w')"
proof (cases "sz_marshal (co_serdes options) i v")
  case (Inl c)
  obtain f w1 where f: "serdesFailure E nm ''marshal'' c w = (f, w1)" by fastforce
  have "\<not> outcomeSettled (Inl f :: goErr + 'a)"
    using f by (cases "errors_Is c ErrRetryableSerdes")
      (auto simp: serdesFailure_def newSerdesError_def outcomeSettled_def Let_def)
  then show ?thesis using st Inl f others_serdes [OF ok f] by (auto simp: settleChildSuccess_def)
next
  case (Inr serialized)
  obtain o1 w1 where d: "decodeLiveResult E (co_serdes options) i nm serialized w = (o1, w1)" by fastforce
  note dp = decodeLiveResult_post [OF ok d sz]
  have w1: "ok w1" "others i w w1" "liveAt E OperationTypeContext i w1"
    using dp(1) [of i i] others_ok [of i w w1] liveAt_evolves [OF live, of w1] by (auto simp: selfSettled_def)
  show ?thesis
  proof (cases "case o1 of Inl e \<Rightarrow> isSerdesInvocationEnd e | Inr _ \<Rightarrow> False")
    case True
    then show ?thesis using st Inr d w1(2) dp(2) by (auto simp: settleChildSuccess_def)
  next
    case False
    show ?thesis
    proof (cases "childSuccessUpdate E ec i nm subType options v serialized")
      case (Inl e)
      then have "\<not> outcomeSettled (Inl e :: goErr + 'a)"
        by (auto simp: childSuccessUpdate_def childSummaryPayload_def Let_def outcomeSettled_def
            split: if_splits sum.splits option.splits)
      then show ?thesis using st Inr d False Inl w1(2) by (auto simp: settleChildSuccess_def)
    next
      case u: (Inr u)
      have ut: "ou_Id u = Some (eng_hash E i)" "ou_Type u = OperationTypeContext" "ou_Action u = OperationActionSucceed"
        "toString (ou_SubType u) = subType" "toString (ou_Name u) = nm"
        "ou_ReplayChildren u = Some True \<or> ou_Payload u = Some serialized" "plainUpdate u"
        using u by (auto simp: childSuccessUpdate_def childUpdate_def plainUpdate_def Let_def split: if_splits sum.splits)
      obtain r w2 where ck: "eng_checkpoint E [u] w1 = (r, w2)" by fastforce
      note c = child_checkpoint [OF w1(1) ck ut(1,2,7) w1(3)]
      have o: "others i w w2" using w1(2) c(1) others_trans by blast
      show ?thesis
      proof (cases r)
        case None
        then have eq: "out = o1" "w' = w2" using st Inr d False u ck by (auto simp: settleChildSuccess_def)
        have "childRecord E i nm subType options o1 w2" if "storedChild E i w2"
          using c(3) [OF None] ut dp(3) [OF False] that
          by (auto simp: recorded_def childRecord_def childReplays_def storedChild_def split: option.splits)
        then show ?thesis using eq o by blast
      next
        case (Some x)
        then show ?thesis
          using st Inr d False u ck o infra_not_settled [OF checkpointFailure_infra [OF c(2) [OF Some]]]
          by (auto simp: settleChildSuccess_def)
      qed
    qed
  qed
qed

lemma ec_child_ids: "ec_ids (ec_child i m ec) = ids_child i"
  by (simp add: ec_child_def)

text \<open>A body that only touches the records of a set of positions.\<close>

definition bodyWithin :: "string \<Rightarrow> string set \<Rightarrow> ('v, 'w) childBody \<Rightarrow> bool" where
  "bodyWithin i S fn \<longleftrightarrow> (\<forall>ec w r ec' w'. ok w \<longrightarrow> ec_ids ec = ids_child i \<longrightarrow> fn ec w = Some (r, ec', w') \<longrightarrow> outside S w w')"

lemma bodyWithinD:
  "bodyWithin i S fn \<Longrightarrow> ok w \<Longrightarrow> fn (ec_child i m ec) w = Some (r, ec', w') \<Longrightarrow> outside S w w'"
  by (simp only: bodyWithin_def) (metis ec_child_ids)

text \<open>The START of a child: queued when it has no record, and its record stays open.\<close>

lemma child_start:
  assumes ok: "ok w" and s: "(if po = None then eng_checkpointNoWait E (childUpdate E ec i nm subType OperationActionStart) w else (None, w)) = (c, w1)"
    and live: "liveAt E OperationTypeContext i w"
  shows "others i w w1 \<and> (\<forall>e. c = Some e \<longrightarrow> infra e) \<and> liveAt E OperationTypeContext i w1"
proof -
  let ?u = "childUpdate E ec i nm subType OperationActionStart"
  show ?thesis
  proof (cases "po = None")
    case True
    then have nw: "eng_checkpointNoWait E ?u w = (c, w1)" using s by simp
    have "others i w w1"
      by (rule others_noWait [OF ok nw _ _ liveAt_terminalRecord [OF live]]) (simp_all add: childUpdate_def plainUpdate_def)
    moreover have "recorded ?u (eng_get E w i) (eng_get E w1 i) \<or> evolves (eng_get E w i) (eng_get E w1 i)"
      by (rule noWait_recorded [OF ok nw]) (simp_all add: childUpdate_def)
    then have "liveAt E OperationTypeContext i w1"
      using liveAt_recorded [of ?u E w i w1] liveAt_evolves [OF live, of w1]
      by (auto simp: childUpdate_def selfSettled_def)
    ultimately show ?thesis using noWait_err [OF ok] nw by blast
  next
    case False
    then show ?thesis using s others_refl [OF ok] live by auto
  qed
qed

lemma runChildBody_post:
  assumes ok: "ok w" and st: "runChildBody E ec i nm subType options fn po w = Some (out, w')"
    and sz: "serdesErrorsOk (co_serdes options)" and b: "bodyWithin i S fn"
    and live: "liveAt E OperationTypeContext i w" and i: "eng_hash E i \<notin> eng_hash E ` S" and po: "po = eng_get E w i"
  shows "outside (insert i S) w w' \<and> (outcomeSettled out \<longrightarrow> storedChild E i w' \<longrightarrow> childRecord E i nm subType options out w')"
proof -
  let ?u = "childUpdate E ec i nm subType OperationActionStart"
  obtain c w1 where s: "(if po = None then eng_checkpointNoWait E ?u w else (None, w)) = (c, w1)" by fastforce
  have o1: "outside (insert i S) w w1 \<and> (\<forall>e. c = Some e \<longrightarrow> infra e) \<and> liveAt E OperationTypeContext i w1"
    using child_start [OF ok s live] others_outside by blast
  have ok1: "ok w1" using o1 outside_ok by blast
  show ?thesis
  proof (cases c)
    case (Some e)
    then show ?thesis
      using st s o1 infra_not_settled [OF checkpointFailure_infra, of e] by (auto simp: runChildBody_def)
  next
    case None
    obtain r ec1 w2 where f: "fn (ec_child i (childReplayMode E i po w1) ec) w1 = Some (r, ec1, w2)"
      using st s None by (auto simp: runChildBody_def split: option.splits)
    have ev: "evolves (eng_get E w1 i) (eng_get E w2 i)"
      using bodyWithinD [OF b ok1 f] i by (simp add: outside_def)
    have live2: "liveAt E OperationTypeContext i w2"
      by (rule liveAt_evolves [OF _ _ ev]) (use o1 in \<open>simp_all add: selfSettled_def\<close>)
    have o2: "outside (insert i S) w w2" "ok w2"
      using outside_trans [OF conjunct1 [OF o1] outside_mono [OF bodyWithinD [OF b ok1 f]]] outside_ok by blast+
    have "others i w2 w' \<and> (outcomeSettled out \<longrightarrow> storedChild E i w' \<longrightarrow> childRecord E i nm subType options out w')"
    proof (cases r)
      case (Inl et)
      obtain e tr where et: "et = (e, tr)" by (cases et)
      have "settleChildFailure E ec i nm subType options e tr w2 = (out, w')"
        using st s None f Inl et by (simp add: runChildBody_def)
      then show ?thesis using settleChildFailure_post [OF o2(2) _ live2] by blast
    next
      case (Inr v)
      have "settleChildSuccess E ec i nm subType options v w2 = (out, w')"
        using st s None f Inr by (simp add: runChildBody_def)
      then show ?thesis using settleChildSuccess_post [OF o2(2) _ sz live2] by blast
    qed
    then show ?thesis using o2(1) others_outside outside_trans by blast
  qed
qed

lemma replaySucceededChild_post:
  assumes ok: "ok w" and st: "replaySucceededChild E ec i nm options fn op w = Some (out, w')"
    and op: "eng_get E w i = Some op" "identityOf op = (OperationTypeContext, subType, nm)" "op_status op = statusSucceeded"
    and b: "bodyWithin i S fn" and i: "eng_hash E i \<notin> eng_hash E ` S"
  shows "outside (insert i S) w w' \<and> (outcomeSettled out \<longrightarrow> storedChild E i w' \<longrightarrow> childRecord E i nm subType options out w')"
proof (cases "op_childCtx op")
  case None
  then show ?thesis
    using st outside_refl [OF ok] by (auto simp: replaySucceededChild_def noContextDetails_def outcomeSettled_def)
next
  case (Some cd)
  show ?thesis
  proof (cases "cd_replayChildren cd")
    case False
    show ?thesis
    proof (cases "sz_unmarshal (co_serdes options) i (cd_result cd)")
      case (Inl c)
      obtain f w1 where f: "serdesFailure E nm ''unmarshal'' c w = (f, w1)" by fastforce
      have eq: "out = Inl f" "w' = w1" using st Some False Inl f by (simp_all add: replaySucceededChild_def)
      have "outside (insert i S) w w1" using others_serdes [OF ok f] others_outside by blast
      moreover have "childRecord E i nm subType options (Inl f) w1" if "outcomeSettled (Inl f :: goErr + 'b)"
        using that serdesFailure_retryable [OF f] serdesFailure_permanent [OF f] infra_not_settled [of f] Some False Inl op
        by (cases "errors_Is c ErrRetryableSerdes") (auto simp: childRecord_def childReplays_def)
      ultimately show ?thesis using eq by blast
    next
      case (Inr v)
      then have "out = Inr v" "w' = w" using st Some False by (simp_all add: replaySucceededChild_def)
      then show ?thesis
        using Inr Some False op outside_refl [OF ok] by (simp add: childRecord_def childReplays_def)
    qed
  next
    case True
    obtain r ec1 w1 where f: "fn (ec_child i modeReplaySucceededContext ec) w = Some (r, ec1, w1)"
      using st Some True by (auto simp: replaySucceededChild_def split: option.splits)
    have o1: "outside S w w1" by (rule bodyWithinD [OF b ok f])
    have o2: "others j w1 w' \<and> evolves (eng_get E w1 p) (eng_get E w' p)" for j p
    proof (cases r)
      case (Inl et)
      then show ?thesis
        using st Some True f others_refl [OF outside_ok [OF o1]] by (cases et) (auto simp: replaySucceededChild_def)
    next
      case (Inr v)
      obtain x w2 where x: "roundTripReplayedResult E (co_serdes options) i nm v w1 = (x, w2)" by fastforce
      have "w' = w2"
        using st Some True f Inr x by (auto simp: replaySucceededChild_def split: sum.splits prod.splits)
      moreover have "others j w1 w2 \<and> evolves (eng_get E w1 p) (eng_get E w2 p)"
        using x others_refl [OF outside_ok [OF o1]] others_serdes [OF outside_ok [OF o1]]
        by (auto simp: roundTripReplayedResult_def decodeLiveResult_def split: sum.splits prod.splits)
      ultimately show ?thesis by simp
    qed
    have "evolves (eng_get E w i) (eng_get E w' i)"
      using o1 o2 [of undefined i] i evolves_trans by (auto simp: outside_def)
    then obtain op' where "eng_get E w' i = Some op'" "core op' = core op"
      using op(1,3) by (auto simp: evolves_def split: option.splits)
    then have "\<not> storedChild E i w'"
      using core_facts(7) [of op' op] Some True by (simp add: storedChild_def)
    then show ?thesis
      using outside_trans [OF outside_mono [OF o1] others_outside [OF conjunct1 [OF o2]], of "insert i S" i] by blast
  qed
qed

lemma runClaimedChild_post:
  assumes ok: "ok w" and st: "runClaimedChild E ec i nm subType options fn w = Some (out, ec', w')"
    and sub: "subType \<noteq> []" and sz: "serdesErrorsOk (co_serdes options)"
    and b: "bodyWithin i S fn" and i: "eng_hash E i \<notin> eng_hash E ` S"
  shows "outside (insert i S) w w' \<and> (outcomeSettled out \<longrightarrow> storedChild E i w' \<longrightarrow> childRecord E i nm subType options out w')"
proof -
  let ?po = "eng_get E w i"
  show ?thesis
  proof (cases "validateReplayConsistency ?po OperationTypeContext subType nm")
    case (Some e)
    then show ?thesis using st outside_refl [OF ok] validate_not_settled [OF Some] by (auto simp: runClaimedChild_def)
  next
    case v: None
    show ?thesis
    proof (cases "unfinishedInSucceededContext ec ?po")
      case True
      obtain e ec1 w1 where p: "parkUnfinishedReplay E ec ?po i OperationTypeContext subType nm w = (e, ec1, w1)"
        by (metis prod.collapse)
      have "outside (insert i S) w w1" using parkUnfinishedReplay_others [OF ok p] others_outside by blast
      then show ?thesis using st v True p park_not_settled [OF p] by (auto simp: runClaimedChild_def)
    next
      case False
      have body: ?thesis if "runChildBody E ec i nm subType options fn ?po w = Some (out, w')"
        and "liveAt E OperationTypeContext i w"
        by (rule runChildBody_post [OF ok that(1) sz b that(2) i refl])
      show ?thesis
      proof (cases ?po)
        case None
        then show ?thesis using st v False body by (auto simp: runClaimedChild_def liveAt_def)
      next
        case (Some op)
        have id: "identityOf op = (OperationTypeContext, subType, nm)"
          using v types_known [OF ok Some] Some sub by (intro validated_identity) auto
        consider "op_status op = statusSucceeded" | "op_status op = statusFailed"
          | "op_status op \<noteq> statusSucceeded" "op_status op \<noteq> statusFailed" by blast
        then show ?thesis
        proof cases
          case 1
          then have "replaySucceededChild E ec i nm options fn op w = Some (out, w')"
            using st v False Some by (auto simp: runClaimedChild_def)
          then show ?thesis by (rule replaySucceededChild_post [OF ok _ Some id 1 b i])
        next
          case 2
          then show ?thesis
            using st v False Some id outside_refl [OF ok]
            by (auto simp: runClaimedChild_def childRecord_def childReplays_def)
        next
          case 3
          then have "runChildBody E ec i nm subType options fn ?po w = Some (out, w')"
            using st v False Some by (cases "op_status op") (auto simp: runClaimedChild_def)
          moreover have "liveAt E OperationTypeContext i w"
            using 3 Some id settled_types [OF ok Some] by (auto simp: liveAt_def identityOf_def selfSettled_def)
          ultimately show ?thesis by (rule body)
        qed
      qed
    qed
  qed
qed

end

end
