(* ===== verification/Invoke_Op.thy ===== *)
theory Invoke_Op
  imports Wait_Op
begin

text \<open>
  Invoke (invoke.go): a durable call of another function.  The service runs it
  as an execution of its own and settles the record; the caller starts it once,
  waits for a terminal record and returns that record's outcome, the same one
  a replay of the record returns.
\<close>

section \<open>The operation\<close>

text \<open>The payload and the result have serializers of their own.\<close>

record ('i, 'v) invokeOptions =
  io_payloadSerdes :: "'i serdes"
  io_resultSerdes :: "'v serdes"
  io_tenantID :: string

definition invokeStartUpdate :: "'w engine \<Rightarrow> execContext \<Rightarrow> string \<Rightarrow> string \<Rightarrow> string \<Rightarrow> 'i \<Rightarrow> ('i, 'v) invokeOptions \<Rightarrow>
    'w \<Rightarrow> (goErr + operationUpdate) \<times> 'w" where
  "invokeStartUpdate E ec i nm functionID input options w =
    (case sz_marshal (io_payloadSerdes options) i input of
       Inl c \<Rightarrow> (let (e, w') = serdesFailure E nm ''marshal'' c w in (Inl e, w'))
     | Inr payload \<Rightarrow>
        (Inr ((operationBaseUpdate E ec i nm ''ChainedInvoke'' OperationTypeChainedInvoke OperationActionStart)
           \<lparr> ou_Payload := Some payload,
             ou_ChainedInvokeOptions := Some (Some functionID,
               if io_tenantID options \<noteq> '''' then Some (io_tenantID options) else None) \<rparr>), w))"

definition invokeErrorFromCheckpoint :: "string \<Rightarrow> string \<Rightarrow> operation \<Rightarrow> goErr" where
  "invokeErrorFromCheckpoint nm functionID op =
    (let rec = (case op_invoke op of
           None \<Rightarrow> noError \<lparr> er_errType := ''Error'', er_message := ''invoked function failed'' \<rparr>
         | Some d \<Rightarrow> id_record d);
         (sentinel, status) = (case op_status op of
             statusTimedOut \<Rightarrow> (Some ErrInvokeTimedOut, statusTimedOut)
           | statusStopped \<Rightarrow> (Some ErrExecutionStopped, statusStopped)
           | statusCancelled \<Rightarrow> (Some ErrExecutionCancelled, statusCancelled)
           | statusFailed \<Rightarrow> (None, statusFailed)
           | _ \<Rightarrow> (None, statusOther ''''))
     in Err (KInvoke nm functionID status rec) [cause '''' sentinel rec])"

definition noInvokeDetails :: "string \<Rightarrow> operation \<Rightarrow> goErr" where
  "noInvokeDetails nm op = Err (KPlain ''errorString''
     (''durable: invoke '' @ goQuote nm @ '': checkpointed '' @ operationStatus_string (op_status op) @
      '' operation has no invoke details'')) []"

definition invokeOutcome :: "'w engine \<Rightarrow> operation \<Rightarrow> string \<Rightarrow> string \<Rightarrow> string \<Rightarrow> ('i, 'v) invokeOptions \<Rightarrow> 'w \<Rightarrow>
    (goErr + 'v) \<times> 'w" where
  "invokeOutcome E op i nm functionID options w =
    (if op_status op \<noteq> statusSucceeded then (Inl (invokeErrorFromCheckpoint nm functionID op), w)
     else case op_invoke op of None \<Rightarrow> (Inl (noInvokeDetails nm op), w)
       | Some d \<Rightarrow> (case sz_unmarshal (io_resultSerdes options) i (id_result d) of
            Inl c \<Rightarrow> (let (e, w') = serdesFailure E nm ''unmarshal'' c w in (Inl e, w'))
          | Inr v \<Rightarrow> (Inr v, w)))"

definition awaitInvoke :: "'w engine \<Rightarrow> execContext \<Rightarrow> string \<Rightarrow> string \<Rightarrow> string \<Rightarrow> ('i, 'v) invokeOptions \<Rightarrow> 'w \<Rightarrow>
    (goErr + 'v) \<times> execContext \<times> 'w" where
  "awaitInvoke E ec i nm functionID options w =
    (case awaitOperation E ec i terminalRecord w of
       (Inl e, ec', w') \<Rightarrow> (Inl e, ec', w')
     | (Inr op, ec', w') \<Rightarrow> (let (out, w'') = invokeOutcome E op i nm functionID options w' in (out, ec', w'')))"

definition startedInvoke :: "'w engine \<Rightarrow> execContext \<Rightarrow> string \<Rightarrow> string \<Rightarrow> string \<Rightarrow> ('i, 'v) invokeOptions \<Rightarrow>
    goErr option \<times> 'w \<Rightarrow> (goErr + 'v) \<times> execContext \<times> 'w" where
  "startedInvoke E ec i nm functionID options startResult = (case startResult of
      (Some e, w) \<Rightarrow> (Inl (checkpointFailure e), ec, w)
    | (None, w) \<Rightarrow> awaitInvoke E ec i nm functionID options w)"

definition runInvoke :: "'w engine \<Rightarrow> execContext \<Rightarrow> string \<Rightarrow> string \<Rightarrow> string \<Rightarrow> 'i \<Rightarrow> ('i, 'v) invokeOptions \<Rightarrow>
    'w queuedStart option \<Rightarrow> 'w \<Rightarrow> (goErr + 'v) \<times> execContext \<times> 'w" where
  "runInvoke E ec i nm functionID input options start w = (case start of
      Some await \<Rightarrow> startedInvoke E ec i nm functionID options (await w)
    | None \<Rightarrow>
        (let po = eng_get E w i;
             live = (case invokeStartUpdate E ec i nm functionID input options w of
                 (Inl e, w') \<Rightarrow> (Inl e, ec, w')
               | (Inr u, w') \<Rightarrow> startedInvoke E ec i nm functionID options (eng_checkpoint E [u] w'))
         in case validateReplayConsistency po OperationTypeChainedInvoke ''ChainedInvoke'' nm of
              Some e \<Rightarrow> (Inl e, ec, w)
            | None \<Rightarrow>
               if unfinishedInSucceededContext ec po
               then (case parkUnfinishedReplay E ec po i OperationTypeChainedInvoke ''ChainedInvoke'' nm w of
                       (e, ec', w') \<Rightarrow> (Inl e, ec', w'))
               else (case po of None \<Rightarrow> live
                  | Some op \<Rightarrow>
                      if status_terminal (op_status op)
                      then (let (out, w') = invokeOutcome E op i nm functionID options w in (out, ec, w'))
                      else if op_status op \<in> {statusStarted, statusPending, statusReady}
                      then awaitInvoke E ec i nm functionID options w
                      else live)))"

definition Invoke :: "'w engine \<Rightarrow> goErr option \<Rightarrow> execContext \<Rightarrow> string \<Rightarrow> string \<Rightarrow> 'i \<Rightarrow> ('i, 'v) invokeOptions \<Rightarrow>
    'w \<Rightarrow> (goErr + 'v) \<times> execContext \<times> 'w" where
  "Invoke E callerErr ec nm functionID input options w =
    (case claimOperation E callerErr ec w of
       (Inl e, ec1) \<Rightarrow> (Inl e, ec1, w)
     | (Inr i, ec1) \<Rightarrow> (case runInvoke E ec1 i nm functionID input options None w of
          (out, ec2, w') \<Rightarrow> (out, observeOutcome E i (case out of Inl e \<Rightarrow> Some e | Inr _ \<Rightarrow> None) w' ec2, w')))"

section \<open>What an invoke records\<close>

text \<open>The outcomes the two terminal forms of the record replay to.\<close>

definition invokeReplays :: "string \<Rightarrow> string \<Rightarrow> string \<Rightarrow> ('i, 'v) invokeOptions \<Rightarrow> operation \<Rightarrow> goErr + 'v \<Rightarrow> bool" where
  "invokeReplays nm functionID i options op out \<longleftrightarrow> status_terminal (op_status op) \<and>
     (if op_status op \<noteq> statusSucceeded then out = Inl (invokeErrorFromCheckpoint nm functionID op)
      else case op_invoke op of None \<Rightarrow> False
        | Some d \<Rightarrow> (case sz_unmarshal (io_resultSerdes options) i (id_result d) of Inr v \<Rightarrow> out = Inr v
            | Inl c \<Rightarrow> \<not> errors_Is c ErrRetryableSerdes \<and> out = Inl (newSerdesError nm ''unmarshal'' c)))"

definition invokeIdentity :: "string \<Rightarrow> operationType \<times> string \<times> string" where
  "invokeIdentity nm = (OperationTypeChainedInvoke, ''ChainedInvoke'', nm)"

definition invokeRecord :: "'w engine \<Rightarrow> string \<Rightarrow> string \<Rightarrow> string \<Rightarrow> ('i, 'v) invokeOptions \<Rightarrow> goErr + 'v \<Rightarrow> 'w \<Rightarrow> bool" where
  "invokeRecord E i nm functionID options out w \<longleftrightarrow> (case eng_get E w i of None \<Rightarrow> False
     | Some op \<Rightarrow> identityOf op = invokeIdentity nm \<and> invokeReplays nm functionID i options op out)"

lemma invokeReplays_core:
  assumes "core op' = core op"
  shows "invokeReplays nm functionID i options op' out = invokeReplays nm functionID i options op out"
  by (simp add: invokeReplays_def invokeErrorFromCheckpoint_def core_facts [OF assms])

lemma invokeRecord_evolves:
  assumes "invokeRecord E i nm functionID options out w" and ev: "evolves (eng_get E w i) (eng_get E w' i)"
  shows "invokeRecord E i nm functionID options out w'"
proof -
  obtain op where op: "eng_get E w i = Some op" "identityOf op = invokeIdentity nm" "invokeReplays nm functionID i options op out"
    using assms(1) by (auto simp: invokeRecord_def split: option.splits)
  obtain op' where op': "eng_get E w' i = Some op'" "identityOf op' = identityOf op" "core op' = core op"
    using ev op(3) by (auto simp: evolves_def op(1) invokeReplays_def split: option.splits)
  show ?thesis
    unfolding invokeRecord_def op'(1) option.case invokeReplays_core [OF op'(3)] op'(2) using op(2,3) by blast
qed

lemma invokeOutcome_replays:
  "invokeReplays nm functionID i options op out \<Longrightarrow> invokeOutcome E op i nm functionID options w = (out, w)"
  by (auto simp: invokeReplays_def invokeOutcome_def serdesFailure_def Let_def split: option.splits sum.splits if_splits)

lemma invokeOutcome_settled:
  assumes "invokeOutcome E op i nm functionID options w = (out, w')" and "outcomeSettled out" and "status_terminal (op_status op)"
  shows "invokeReplays nm functionID i options op out \<and> w' = w"
  using assms
  by (auto simp: invokeReplays_def invokeOutcome_def serdesFailure_def Let_def outcomeSettled_def noInvokeDetails_def
      split: option.splits sum.splits if_splits)

lemma runInvoke_replay:
  assumes "invokeRecord E i nm functionID options out w"
  shows "runInvoke E ec i nm functionID input options None w = (out, ec, w)"
proof -
  obtain op where op: "eng_get E w i = Some op" "identityOf op = invokeIdentity nm" "invokeReplays nm functionID i options op out"
    using assms by (auto simp: invokeRecord_def split: option.splits)
  have "status_terminal (op_status op)" using op(3) by (simp add: invokeReplays_def)
  then show ?thesis
    using validate_identity [OF op(2) [unfolded invokeIdentity_def]] op(1) invokeOutcome_replays [OF op(3), of E w]
    by (simp add: runInvoke_def unfinishedInSucceededContext_def Let_def)
qed

context durable_engine begin

lemma invokeOutcome_others:
  assumes "ok w" and "invokeOutcome E op i nm functionID options w = (out, w')"
  shows "others j w w'"
  using assms others_refl others_serdes [OF assms(1)]
  by (fastforce simp: invokeOutcome_def split: if_splits option.splits sum.splits prod.splits)

lemma invokeOutcome_post:
  assumes ok: "ok w" and o: "invokeOutcome E op i nm functionID options w = (out, w')"
    and op: "eng_get E w i = Some op" "identityOf op = invokeIdentity nm" "status_terminal (op_status op)"
  shows "others i w w' \<and> (outcomeSettled out \<longrightarrow> invokeRecord E i nm functionID options out w')"
  using invokeOutcome_others [OF ok o] invokeOutcome_settled [OF o _ op(3)] op(1,2) by (auto simp: invokeRecord_def)

lemma awaitInvoke_post:
  assumes ok: "ok w" and st: "awaitInvoke E ec i nm functionID options w = (out, ec', w')"
    and id: "\<And>op. eng_get E w i = Some op \<Longrightarrow> identityOf op = invokeIdentity nm"
  shows "others i w w' \<and> (outcomeSettled out \<longrightarrow> invokeRecord E i nm functionID options out w')"
proof -
  obtain a w1 where a: "eng_await E i terminalRecord w = (a, w1)" by fastforce
  have o: "others i w w1" by (rule others_await [OF ok a])
  show ?thesis
  proof (cases a)
    case (Inl e)
    then show ?thesis
      using st a o await_err [OF ok, of i terminalRecord e w1] by (auto simp: awaitInvoke_def awaitOperation_def)
  next
    case (Inr op)
    have g: "terminalRecord (Some op)" "eng_get E w1 i = Some op" using await_ready [OF ok] a Inr by auto
    have id': "identityOf op = invokeIdentity nm"
      using await_evolves [OF ok a, of i] id g(2) by (auto simp: evolves_def split: option.splits)
    obtain w2 where out: "invokeOutcome E op i nm functionID options w1 = (out, w2)" "w' = w2"
      using st a Inr by (auto simp: awaitInvoke_def awaitOperation_def split: prod.splits)
    show ?thesis
      using invokeOutcome_post [OF others_ok [OF o] out(1) g(2) id'] g(1) out(2) others_trans [OF o]
      by (auto simp: terminalRecord_def)
  qed
qed

lemma startedInvoke_post:
  assumes ok: "ok w" and u: "invokeStartUpdate E ec0 i nm functionID input options w0 = (Inr u, w1)"
    and st: "startedInvoke E ec i nm functionID options (eng_checkpoint E [u] w) = (out, ec', w')"
    and live: "\<not> terminalRecord (eng_get E w i)"
  shows "others i w w' \<and> (outcomeSettled out \<longrightarrow> invokeRecord E i nm functionID options out w')"
proof -
  obtain e w1 where c: "eng_checkpoint E [u] w = (e, w1)" by fastforce
  have f: "ou_Id u = Some (eng_hash E i)" "plainUpdate u"
    "(ou_Type u, toString (ou_SubType u), toString (ou_Name u)) = invokeIdentity nm"
    using u by (auto simp: invokeStartUpdate_def plainUpdate_def invokeIdentity_def split: sum.splits prod.splits)
  have o: "others i w w1" by (rule others_checkpoint [OF ok c f(1,2) live])
  show ?thesis
  proof (cases e)
    case (Some x)
    then show ?thesis
      using st c o checkpoint_err [OF ok, of "[u]" x w1] by (auto simp: startedInvoke_def dest: infra_not_settled checkpointFailure_infra)
  next
    case None
    have "\<exists>op. eng_get E w1 i = Some op \<and> identityOf op = invokeIdentity nm"
      using checkpoint_identity [OF ok, of u w1 i] c None f by simp
    then have "others i w1 w' \<and> (outcomeSettled out \<longrightarrow> invokeRecord E i nm functionID options out w')"
      using st c None others_ok [OF o] by (intro awaitInvoke_post [of w1 ec i]) (auto simp: startedInvoke_def)
    then show ?thesis using o others_trans by blast
  qed
qed

lemma invokeStartUpdate_others:
  assumes "ok w" and "invokeStartUpdate E ec i nm functionID input options w = (r, w')"
  shows "others j w w'" "r = Inr u \<Longrightarrow> w' = w" "r = Inl e \<Longrightarrow> \<not> outcomeSettled (Inl e)"
  using assms others_refl [OF assms(1)] others_serdes [OF assms(1)]
  by (fastforce simp: invokeStartUpdate_def serdesFailure_def newSerdesError_def outcomeSettled_def Let_def
      split: if_splits option.splits sum.splits prod.splits)+

lemma runInvoke_post:
  assumes ok: "ok w" and st: "runInvoke E ec i nm functionID input options None w = (out, ec', w')"
  shows "others i w w' \<and> (outcomeSettled out \<longrightarrow> invokeRecord E i nm functionID options out w')"
proof -
  let ?po = "eng_get E w i"
  let ?live = "case invokeStartUpdate E ec i nm functionID input options w of (Inl e, w') \<Rightarrow> (Inl e, ec, w')
     | (Inr u, w') \<Rightarrow> startedInvoke E ec i nm functionID options (eng_checkpoint E [u] w')"
  have live: ?thesis if h: "?live = (out, ec', w')" and t: "\<not> terminalRecord ?po"
  proof -
    obtain r w1 where s: "invokeStartUpdate E ec i nm functionID input options w = (r, w1)" by fastforce
    show ?thesis
    proof (cases r)
      case (Inl e)
      then show ?thesis using h s invokeStartUpdate_others(1,3) [OF ok s] by auto
    next
      case (Inr u)
      have "w1 = w" by (rule invokeStartUpdate_others(2) [OF ok s Inr])
      then show ?thesis
        using h s Inr startedInvoke_post [OF ok, of ec i nm functionID input options w u w1 ec out ec' w'] t by simp
    qed
  qed
  show ?thesis
  proof (cases "validateReplayConsistency ?po OperationTypeChainedInvoke ''ChainedInvoke'' nm")
    case (Some e)
    then show ?thesis using st others_refl [OF ok] validate_not_settled [OF Some] by (auto simp: runInvoke_def)
  next
    case v: None
    show ?thesis
    proof (cases "unfinishedInSucceededContext ec ?po")
      case True
      obtain e ec1 w1 where p: "parkUnfinishedReplay E ec ?po i OperationTypeChainedInvoke ''ChainedInvoke'' nm w = (e, ec1, w1)"
        by (metis prod.collapse)
      then show ?thesis
        using st v True parkUnfinishedReplay_others [OF ok p] park_not_settled [OF p] by (auto simp: runInvoke_def)
    next
      case False
      show ?thesis
      proof (cases ?po)
        case None
        then show ?thesis using st v False live by (simp add: runInvoke_def terminalRecord_def)
      next
        case (Some op)
        have id: "identityOf op = invokeIdentity nm"
          unfolding invokeIdentity_def using v types_known [OF ok Some] Some by (intro validated_identity) auto
        obtain o2 w2 where r: "invokeOutcome E op i nm functionID options w = (o2, w2)" by fastforce
        consider (terminal) "status_terminal (op_status op)"
          | (waiting) "\<not> status_terminal (op_status op)" "op_status op \<in> {statusStarted, statusPending, statusReady}"
          | (other) "\<not> status_terminal (op_status op)" "op_status op \<notin> {statusStarted, statusPending, statusReady}" by blast
        then show ?thesis
        proof cases
          case terminal
          then show ?thesis using st v False Some r invokeOutcome_post [OF ok r Some id] by (simp add: runInvoke_def)
        next
          case waiting
          then show ?thesis using st v False Some id by (intro awaitInvoke_post [OF ok]) (auto simp: runInvoke_def)
        next
          case other
          then show ?thesis using st v False Some live by (auto simp: runInvoke_def terminalRecord_def)
        qed
      qed
    qed
  qed
qed

end

end
