(* ===== verification/Condition_Op.thy ===== *)
theory Condition_Op
  imports Invoke_Op
begin

text \<open>
  WaitForCondition (wait_for_condition.go): a polled check on a STEP record.
  Every attempt starts from the state the last one recorded, the wait strategy
  decides on the round-tripped state whether to poll again, and the state is
  recorded with the decision.
\<close>

section \<open>Configuration\<close>

record waitDecision =
  wdc_Continue :: bool
  wdc_Delay :: int
  wdc_Err :: "goErr option"

text \<open>The strategy is required; the trace is the one captured for an error it returns.\<close>

record 'v conditionConfig =
  cc_InitialState :: 'v
  cc_WaitStrategy :: "('v \<Rightarrow> int \<Rightarrow> waitDecision) option"
  cc_strategyTrace :: "goErr \<Rightarrow> string list"
  cc_serdes :: "'v serdes"

type_synonym ('v, 'w) conditionCheck = "int \<Rightarrow> 'v \<Rightarrow> 'w \<Rightarrow> ((goErr \<times> string list) + 'v) \<times> 'w"

section \<open>One attempt\<close>

definition waitForConditionUpdate :: "'w engine \<Rightarrow> execContext \<Rightarrow> string \<Rightarrow> string \<Rightarrow> operationAction \<Rightarrow> operationUpdate" where
  "waitForConditionUpdate E ec i nm act = operationBaseUpdate E ec i nm ''WaitForCondition'' OperationTypeStep act"

datatype 'v conditionAttempt = ConditionRetry string | ConditionSettled "goErr + 'v"

definition failCondition :: "'w engine \<Rightarrow> execContext \<Rightarrow> string \<Rightarrow> string \<Rightarrow> goErr \<Rightarrow> string list \<Rightarrow> int \<Rightarrow> 'w \<Rightarrow>
    'v conditionAttempt \<times> 'w" where
  "failCondition E ec i nm c trace attempt w =
    (let r = withTrace trace (recordOf c);
         u = (waitForConditionUpdate E ec i nm OperationActionFail) \<lparr> ou_Error := Some (errorObjectFromRecord r) \<rparr>
     in case eng_checkpoint E [u] w of
          (Some e, w') \<Rightarrow> (ConditionSettled (Inl (checkpointFailure e)), w')
        | (None, w') \<Rightarrow> (ConditionSettled (Inl (newWaitForConditionError nm attempt r)), w'))"

definition conditionDelayError :: "string \<Rightarrow> goErr \<Rightarrow> goErr" where
  "conditionDelayError nm e =
     Err (KPlain ''wrapError'' (''durable: WaitForCondition '' @ goQuote nm @ '': retry delay: '' @ errText e)) [e]"

text \<open>What the strategy decided on the round-tripped state.\<close>

definition settleCondition :: "'w engine \<Rightarrow> execContext \<Rightarrow> string \<Rightarrow> string \<Rightarrow> 'v conditionConfig \<Rightarrow> waitDecision \<Rightarrow> 'v \<Rightarrow>
    string \<Rightarrow> int \<Rightarrow> 'w \<Rightarrow> 'v conditionAttempt \<times> 'w" where
  "settleCondition E ec i nm cfg decision state serialized attempt w =
    (if \<not> wdc_Continue decision
     then (case wdc_Err decision of
         Some e \<Rightarrow> failCondition E ec i nm e (cc_strategyTrace cfg e) attempt w
       | None \<Rightarrow>
          (let u = (waitForConditionUpdate E ec i nm OperationActionSucceed) \<lparr> ou_Payload := Some serialized \<rparr>
           in case eng_checkpoint E [u] w of
                (Some e, w') \<Rightarrow> (ConditionSettled (Inl (checkpointFailure e)), w')
              | (None, w') \<Rightarrow> (ConditionSettled (Inr state), w')))
     else (case durationToSeconds (eng_durationText E) (wdc_Delay decision) of
         Inl e \<Rightarrow> (ConditionSettled (Inl (conditionDelayError nm e)), w)
       | Inr delaySec \<Rightarrow>
          (let u = (waitForConditionUpdate E ec i nm OperationActionRetry)
                 \<lparr> ou_Payload := Some serialized, ou_NextAttemptDelaySeconds := Some (max 1 delaySec) \<rparr>
           in case eng_checkpoint E [u] w of
                (Some e, w') \<Rightarrow> (ConditionSettled (Inl (checkpointFailure e)), w')
              | (None, w') \<Rightarrow> (ConditionRetry serialized, w'))))"

definition conditionSerdesFailure :: "'w engine \<Rightarrow> string \<Rightarrow> string \<Rightarrow> goErr \<Rightarrow> 'w \<Rightarrow> 'v conditionAttempt \<times> 'w" where
  "conditionSerdesFailure E nm direction c w =
    (let (e, w') = serdesFailure E nm direction c w in (ConditionSettled (Inl e), w'))"

definition conditionState :: "'v conditionConfig \<Rightarrow> string \<Rightarrow> operation option \<Rightarrow> goErr + 'v" where
  "conditionState cfg i po = (case po of None \<Rightarrow> Inr (cc_InitialState cfg)
     | Some op \<Rightarrow> (case op_step op of None \<Rightarrow> Inr (cc_InitialState cfg)
        | Some sd \<Rightarrow> if sd_result sd \<noteq> '''' then sz_unmarshal (cc_serdes cfg) i (sd_result sd)
                     else Inr (cc_InitialState cfg)))"

definition executeWaitForConditionAttempt :: "'w engine \<Rightarrow> execContext \<Rightarrow> string \<Rightarrow> string \<Rightarrow> ('v, 'w) conditionCheck \<Rightarrow>
    ('v \<Rightarrow> int \<Rightarrow> waitDecision) \<Rightarrow> 'v conditionConfig \<Rightarrow> operation option \<Rightarrow> int \<Rightarrow> 'w \<Rightarrow> 'v conditionAttempt \<times> 'w" where
  "executeWaitForConditionAttempt E ec i nm check strategy cfg po attempt w =
    (case (if (case po of None \<Rightarrow> True | Some op \<Rightarrow> op_status op \<noteq> statusStarted)
           then eng_checkpointNoWait E (waitForConditionUpdate E ec i nm OperationActionStart) w else (None, w)) of
       (Some e, w1) \<Rightarrow> (ConditionSettled (Inl (checkpointFailure e)), w1)
     | (None, w1) \<Rightarrow>
        (case conditionState cfg i po of
           Inl c \<Rightarrow> conditionSerdesFailure E nm ''unmarshal'' c w1
         | Inr current \<Rightarrow>
            (case check attempt current w1 of
               (Inl (checkErr, trace), w2) \<Rightarrow> failCondition E ec i nm checkErr trace attempt w2
             | (Inr newState, w2) \<Rightarrow>
                (case sz_marshal (cc_serdes cfg) i newState of
                   Inl c \<Rightarrow> conditionSerdesFailure E nm ''marshal'' c w2
                 | Inr serialized \<Rightarrow>
                    (case sz_unmarshal (cc_serdes cfg) i serialized of
                       Inl c \<Rightarrow> conditionSerdesFailure E nm ''unmarshal'' c w2
                     | Inr state \<Rightarrow>
                        settleCondition E ec i nm cfg (strategy state attempt) state serialized attempt w2)))))"

section \<open>The loop\<close>

definition withConditionState :: "operation \<Rightarrow> operation option \<Rightarrow> operation" where
  "withConditionState next prev =
    (case (op_step next, prev) of
       (Some sd, Some p) \<Rightarrow> if sd_result sd \<noteq> '''' then next
         else (case op_step p of None \<Rightarrow> next
            | Some ps \<Rightarrow> next \<lparr> op_step := Some (sd \<lparr> sd_result := sd_result ps, sd_attempt := max (sd_attempt sd) (sd_attempt ps) \<rparr>) \<rparr>)
     | (None, Some p) \<Rightarrow> (case op_step p of None \<Rightarrow> next
            | Some ps \<Rightarrow> next \<lparr> op_step := Some \<lparr> sd_attempt = sd_attempt ps, sd_nextAttempt = zeroTime,
                sd_result = sd_result ps, sd_record = noError \<rparr> \<rparr>)
     | _ \<Rightarrow> next)"

definition noConditionDetails :: "string \<Rightarrow> operation \<Rightarrow> goErr" where
  "noConditionDetails nm op = Err (KPlain ''errorString''
     (''durable: WaitForCondition '' @ goQuote nm @ '': checkpointed '' @ operationStatus_string (op_status op) @
      '' operation has no step details'')) []"

definition replaySucceededCondition :: "'w engine \<Rightarrow> string \<Rightarrow> string \<Rightarrow> 'v conditionConfig \<Rightarrow> operation \<Rightarrow> 'w \<Rightarrow> (goErr + 'v) \<times> 'w" where
  "replaySucceededCondition E i nm cfg op w =
    (case op_step op of None \<Rightarrow> (Inl (noConditionDetails nm op), w)
     | Some sd \<Rightarrow> (case sz_unmarshal (cc_serdes cfg) i (sd_result sd) of
          Inl c \<Rightarrow> (let (e, w') = serdesFailure E nm ''unmarshal'' c w in (Inl e, w'))
        | Inr v \<Rightarrow> (Inr v, w)))"

definition replayFailedCondition :: "string \<Rightarrow> operation \<Rightarrow> goErr" where
  "replayFailedCondition nm op = (case op_step op of None \<Rightarrow> noConditionDetails nm op
     | Some sd \<Rightarrow> newWaitForConditionError nm (sd_attempt sd) (sd_record sd))"

text \<open>The operation the loop falls back to after a retry: the attempt and the state just recorded.\<close>

definition conditionFallback :: "int \<Rightarrow> string \<Rightarrow> operation" where
  "conditionFallback attempt serialized =
     (newOperation '''' '''' (statusOther '''') (OperationTypeOther '''') '''' '''')
       \<lparr> op_step := Some \<lparr> sd_attempt = attempt, sd_nextAttempt = zeroTime, sd_result = serialized, sd_record = noError \<rparr> \<rparr>"

definition awaitCondition :: "'w engine \<Rightarrow> execContext \<Rightarrow> string \<Rightarrow> operation option \<Rightarrow> int \<Rightarrow> 'w \<Rightarrow> 'v stepTurn \<times> execContext \<times> 'w" where
  "awaitCondition E ec i prev lastAttempt w =
    (case awaitOperation E ec i attemptDueRecord w of
       (Inl e, ec', w') \<Rightarrow> (StepDone (Inl e), ec', w')
     | (Inr next, ec', w') \<Rightarrow> (StepAgain (withConditionState next prev) lastAttempt, ec', w'))"

definition conditionTurn :: "'w engine \<Rightarrow> execContext \<Rightarrow> string \<Rightarrow> string \<Rightarrow> ('v, 'w) conditionCheck \<Rightarrow>
    ('v \<Rightarrow> int \<Rightarrow> waitDecision) \<Rightarrow> 'v conditionConfig \<Rightarrow> operation option \<Rightarrow> int \<Rightarrow> 'w \<Rightarrow> 'v stepTurn \<times> execContext \<times> 'w" where
  "conditionTurn E ec i nm check strategy cfg po lastAttempt w =
    (let attempt = nextAttempt lastAttempt po;
         execute = (case executeWaitForConditionAttempt E ec i nm check strategy cfg po attempt w of
             (ConditionRetry serialized, w') \<Rightarrow> awaitCondition E ec i (Some (conditionFallback attempt serialized)) attempt w'
           | (ConditionSettled out, w') \<Rightarrow> (StepDone out, ec, w'))
     in case po of None \<Rightarrow> execute
        | Some op \<Rightarrow> (case op_status op of
            statusSucceeded \<Rightarrow> (let (out, w') = replaySucceededCondition E i nm cfg op w in (StepDone out, ec, w'))
          | statusFailed \<Rightarrow> (StepDone (Inl (replayFailedCondition nm op)), ec, w)
          | statusPending \<Rightarrow> awaitCondition E ec i (Some op) lastAttempt w
          | _ \<Rightarrow> execute))"

fun conditionLoop :: "nat \<Rightarrow> 'w engine \<Rightarrow> execContext \<Rightarrow> string \<Rightarrow> string \<Rightarrow> ('v, 'w) conditionCheck \<Rightarrow>
    ('v \<Rightarrow> int \<Rightarrow> waitDecision) \<Rightarrow> 'v conditionConfig \<Rightarrow> operation option \<Rightarrow> int \<Rightarrow> 'w \<Rightarrow>
    ((goErr + 'v) \<times> execContext \<times> 'w) option" where
  "conditionLoop 0 E ec i nm check strategy cfg po lastAttempt w = None"
| "conditionLoop (Suc n) E ec i nm check strategy cfg po lastAttempt w =
    (case conditionTurn E ec i nm check strategy cfg po lastAttempt w of
       (StepDone out, ec', w') \<Rightarrow> Some (out, ec', w')
     | (StepAgain next last', ec', w') \<Rightarrow> conditionLoop n E ec' i nm check strategy cfg (Some next) last' w')"

definition runWaitForCondition :: "nat \<Rightarrow> 'w engine \<Rightarrow> execContext \<Rightarrow> string \<Rightarrow> string \<Rightarrow> ('v, 'w) conditionCheck \<Rightarrow>
    ('v \<Rightarrow> int \<Rightarrow> waitDecision) \<Rightarrow> 'v conditionConfig \<Rightarrow> 'w \<Rightarrow> ((goErr + 'v) \<times> execContext \<times> 'w) option" where
  "runWaitForCondition n E ec i nm check strategy cfg w =
    (let po = eng_get E w i in
     case validateReplayConsistency po OperationTypeStep ''WaitForCondition'' nm of
       Some e \<Rightarrow> Some (Inl e, ec, w)
     | None \<Rightarrow>
        if unfinishedInSucceededContext ec po
        then (let (e, ec', w') = parkUnfinishedReplay E ec po i OperationTypeStep ''WaitForCondition'' nm w
              in Some (Inl e, ec', w'))
        else conditionLoop n E ec i nm check strategy cfg po 0 w)"

definition WaitForCondition :: "nat \<Rightarrow> 'w engine \<Rightarrow> goErr option \<Rightarrow> execContext \<Rightarrow> string \<Rightarrow> ('v, 'w) conditionCheck \<Rightarrow>
    'v conditionConfig \<Rightarrow> 'w \<Rightarrow> ((goErr + 'v) \<times> execContext \<times> 'w) option" where
  "WaitForCondition n E callerErr ec nm check cfg w = (case cc_WaitStrategy cfg of
      None \<Rightarrow> Some (Inl (Err (KPlain ''errorString''
         (''durable: WaitForCondition '' @ goQuote nm @ '': ConditionConfig.WaitStrategy must not be nil'')) []), ec, w)
    | Some strategy \<Rightarrow>
       (case claimOperation E callerErr ec w of
          (Inl e, ec1) \<Rightarrow> Some (Inl e, ec1, w)
        | (Inr i, ec1) \<Rightarrow>
           (case runWaitForCondition n E ec1 i nm check strategy cfg w of None \<Rightarrow> None
            | Some (out, ec2, w') \<Rightarrow>
                Some (out, observeOutcome E i (case out of Inl e \<Rightarrow> Some e | Inr _ \<Rightarrow> None) w' ec2, w'))))"

section \<open>What a polled condition records\<close>

definition conditionIdentity :: "string \<Rightarrow> operationType \<times> string \<times> string" where
  "conditionIdentity nm = (OperationTypeStep, ''WaitForCondition'', nm)"

definition conditionReplays :: "string \<Rightarrow> string \<Rightarrow> 'v conditionConfig \<Rightarrow> operation \<Rightarrow> goErr + 'v \<Rightarrow> bool" where
  "conditionReplays nm i cfg op out \<longleftrightarrow> (case op_step op of None \<Rightarrow> False
     | Some sd \<Rightarrow>
        (op_status op = statusSucceeded \<and>
           (case sz_unmarshal (cc_serdes cfg) i (sd_result sd) of Inr v \<Rightarrow> out = Inr v
            | Inl c \<Rightarrow> \<not> errors_Is c ErrRetryableSerdes \<and> out = Inl (newSerdesError nm ''unmarshal'' c))) \<or>
        (op_status op = statusFailed \<and> out = Inl (newWaitForConditionError nm (sd_attempt sd) (sd_record sd))))"

definition conditionRecord :: "'w engine \<Rightarrow> string \<Rightarrow> string \<Rightarrow> 'v conditionConfig \<Rightarrow> goErr + 'v \<Rightarrow> 'w \<Rightarrow> bool" where
  "conditionRecord E i nm cfg out w \<longleftrightarrow> (case eng_get E w i of None \<Rightarrow> False
     | Some op \<Rightarrow> identityOf op = conditionIdentity nm \<and> conditionReplays nm i cfg op out)"

text \<open>A check that performs no durable operation.\<close>

definition quietCheck :: "'w engine \<Rightarrow> ('w \<Rightarrow> bool) \<Rightarrow> ('v, 'w) conditionCheck \<Rightarrow> bool" where
  "quietCheck E ok check \<longleftrightarrow>
     (\<forall>a v w r w'. ok w \<longrightarrow> check a v w = (r, w') \<longrightarrow> ok w' \<and> (\<forall>p. eng_get E w' p = eng_get E w p))"

lemma conditionReplays_terminal: "conditionReplays nm i cfg op out \<Longrightarrow> status_terminal (op_status op)"
  by (auto simp: conditionReplays_def split: option.splits)

lemma conditionReplays_fields:
  assumes "op_status op' = op_status op"
    "map_option sd_attempt (op_step op') = map_option sd_attempt (op_step op)"
    "map_option sd_result (op_step op') = map_option sd_result (op_step op)"
    "map_option sd_record (op_step op') = map_option sd_record (op_step op)"
  shows "conditionReplays nm i cfg op' out = conditionReplays nm i cfg op out"
proof (cases "op_step op")
  case None
  then show ?thesis using assms(2) by (simp add: conditionReplays_def)
next
  case (Some sd)
  then obtain sd' where sd': "op_step op' = Some sd'" "sd_attempt sd' = sd_attempt sd" "sd_result sd' = sd_result sd" "sd_record sd' = sd_record sd"
    using assms(2-4) by (cases "op_step op'") auto
  show ?thesis unfolding conditionReplays_def Some sd'(1) option.case assms(1) sd'(2-4) ..
qed

lemma conditionReplays_core:
  assumes "core op' = core op" shows "conditionReplays nm i cfg op' out = conditionReplays nm i cfg op out"
  by (rule conditionReplays_fields; rule core_facts [OF assms])

lemma conditionRecord_evolves:
  assumes "conditionRecord E i nm cfg out w" and ev: "evolves (eng_get E w i) (eng_get E w' i)"
  shows "conditionRecord E i nm cfg out w'"
proof -
  obtain op where op: "eng_get E w i = Some op" "identityOf op = conditionIdentity nm" "conditionReplays nm i cfg op out"
    using assms(1) by (auto simp: conditionRecord_def split: option.splits)
  obtain op' where op': "eng_get E w' i = Some op'" "identityOf op' = identityOf op" "core op' = core op"
    using ev conditionReplays_terminal [OF op(3)] by (auto simp: evolves_def op(1) split: option.splits)
  show ?thesis
    unfolding conditionRecord_def op'(1) option.case conditionReplays_core [OF op'(3)] op'(2) using op(2,3) by blast
qed

lemma runWaitForCondition_replay:
  assumes "conditionRecord E i nm cfg out w"
  shows "runWaitForCondition (Suc n) E ec i nm check strategy cfg w = Some (out, ec, w)"
proof -
  obtain op where op: "eng_get E w i = Some op" "identityOf op = conditionIdentity nm" "conditionReplays nm i cfg op out"
    using assms by (auto simp: conditionRecord_def split: option.splits)
  have v: "validateReplayConsistency (Some op) OperationTypeStep ''WaitForCondition'' nm = None"
    using op(2) by (intro validate_identity) (simp add: conditionIdentity_def)
  have u: "\<not> unfinishedInSucceededContext ec (Some op)"
    using conditionReplays_terminal [OF op(3)] by (simp add: unfinishedInSucceededContext_def)
  have "conditionTurn E ec i nm check strategy cfg (Some op) 0 w = (StepDone out, ec, w)"
    using op(3) by (auto simp: conditionReplays_def conditionTurn_def replaySucceededCondition_def replayFailedCondition_def
        serdesFailure_def Let_def split: option.splits sum.splits)
  then show ?thesis using v u op(1) by (simp add: runWaitForCondition_def)
qed

text \<open>
  A settled outcome counts when the record is terminal too: a state that does
  not decode between two attempts ends the call without settling the record.
\<close>

definition conditionPost :: "'w engine \<Rightarrow> string \<Rightarrow> string \<Rightarrow> 'v conditionConfig \<Rightarrow> goErr + 'v \<Rightarrow> 'w \<Rightarrow> bool" where
  "conditionPost E i nm cfg out w \<longleftrightarrow>
     (outcomeSettled out \<and> terminalRecord (eng_get E w i) \<longrightarrow> conditionRecord E i nm cfg out w)"

definition conditionAttemptPost :: "'w engine \<Rightarrow> string \<Rightarrow> string \<Rightarrow> 'v conditionConfig \<Rightarrow> int \<Rightarrow> 'v conditionAttempt \<Rightarrow> 'w \<Rightarrow> bool" where
  "conditionAttemptPost E i nm cfg attempt res w \<longleftrightarrow> (case res of
      ConditionRetry s \<Rightarrow> (case eng_get E w i of None \<Rightarrow> False
         | Some op \<Rightarrow> identityOf op = conditionIdentity nm \<and> attemptOf (Some op) = attempt \<and> \<not> status_terminal (op_status op))
    | ConditionSettled out \<Rightarrow> conditionPost E i nm cfg out w)"

lemma conditionPost_infra: "infra e \<Longrightarrow> conditionPost E i nm cfg (Inl e) w"
  by (simp add: conditionPost_def infra_not_settled)

lemma conditionPost_record: "conditionRecord E i nm cfg out w \<Longrightarrow> conditionPost E i nm cfg out w"
  by (simp add: conditionPost_def)

lemma conditionPost_live: "liveAt E OperationTypeStep i w \<Longrightarrow> conditionPost E i nm cfg out w"
  using liveAt_terminalRecord [of E _ i w] by (auto simp: conditionPost_def)

lemma recorded_failed_condition:
  assumes "recorded u (eng_get E w i) (eng_get E w' i)"
    and "u = waitForConditionUpdate E ec i nm OperationActionFail \<lparr> ou_Error := Some (errorObjectFromRecord r) \<rparr>"
    and "attempt = attemptOf (eng_get E w i) + 1"
  shows "conditionRecord E i nm cfg (Inl (newWaitForConditionError nm attempt r)) w'"
  using assms by (auto simp: recorded_def conditionRecord_def conditionIdentity_def waitForConditionUpdate_def attemptOf_def
      conditionReplays_def split: option.splits)

lemma recorded_succeeded_condition:
  assumes "recorded u (eng_get E w i) (eng_get E w' i)"
    and "u = waitForConditionUpdate E ec i nm OperationActionSucceed \<lparr> ou_Payload := Some serialized \<rparr>"
    and "sz_unmarshal (cc_serdes cfg) i serialized = Inr v"
  shows "conditionRecord E i nm cfg (Inr v) w'"
  using assms by (auto simp: recorded_def conditionRecord_def conditionIdentity_def waitForConditionUpdate_def
      conditionReplays_def split: option.splits)

context durable_engine begin

lemma failCondition_post:
  assumes "ok w" and "failCondition E ec i nm c tr attempt w = (res, w')"
    and "attempt = attemptOf (eng_get E w i) + 1" and live: "liveAt E OperationTypeStep i w"
  shows "others i w w' \<and> conditionAttemptPost E i nm cfg attempt res w'"
proof -
  let ?r = "withTrace tr (recordOf c)"
  let ?u = "waitForConditionUpdate E ec i nm OperationActionFail \<lparr> ou_Error := Some (errorObjectFromRecord ?r) \<rparr>"
  obtain r w1 where ck: "eng_checkpoint E [?u] w = (r, w1)" by fastforce
  have u: "ou_Id ?u = Some (eng_hash E i)" "ou_Type ?u = OperationTypeStep" "plainUpdate ?u"
    by (simp_all add: waitForConditionUpdate_def plainUpdate_def)
  note c = step_checkpoint [OF assms(1) ck u live]
  show ?thesis
  proof (cases r)
    case None
    then show ?thesis
      using assms(2) ck c(1) recorded_failed_condition [OF c(3) refl assms(3)]
      by (auto simp: failCondition_def Let_def conditionAttemptPost_def conditionPost_def)
  next
    case (Some e)
    then show ?thesis
      using assms(2) ck c(1) checkpointFailure_infra [OF c(2)]
      by (auto simp: failCondition_def Let_def conditionAttemptPost_def intro: conditionPost_infra)
  qed
qed

lemma settleCondition_post:
  assumes ok: "ok w" and st: "settleCondition E ec i nm cfg decision state serialized attempt w = (res, w')"
    and at: "attempt = attemptOf (eng_get E w i) + 1" and live: "liveAt E OperationTypeStep i w"
    and sz: "sz_unmarshal (cc_serdes cfg) i serialized = Inr state"
  shows "others i w w' \<and> conditionAttemptPost E i nm cfg attempt res w'"
proof (cases "wdc_Continue decision")
  case False
  show ?thesis
  proof (cases "wdc_Err decision")
    case (Some e)
    then show ?thesis using st False by (intro failCondition_post [OF ok _ at live]) (simp add: settleCondition_def)
  next
    case None
    let ?u = "waitForConditionUpdate E ec i nm OperationActionSucceed \<lparr> ou_Payload := Some serialized \<rparr>"
    obtain r w1 where ck: "eng_checkpoint E [?u] w = (r, w1)" by fastforce
    have u: "ou_Id ?u = Some (eng_hash E i)" "ou_Type ?u = OperationTypeStep" "plainUpdate ?u"
      by (simp_all add: waitForConditionUpdate_def plainUpdate_def)
    note c = step_checkpoint [OF ok ck u live]
    show ?thesis
      using st False None ck c(1) recorded_succeeded_condition [OF c(3) refl sz] checkpointFailure_infra [OF c(2)]
      by (cases r) (auto simp: settleCondition_def Let_def conditionAttemptPost_def intro: conditionPost_infra conditionPost_record)
  qed
next
  case True
  show ?thesis
  proof (cases "durationToSeconds (eng_durationText E) (wdc_Delay decision)")
    case (Inl e)
    then show ?thesis
      using st True others_refl [OF ok] conditionPost_live [OF live] by (auto simp: settleCondition_def conditionAttemptPost_def)
  next
    case (Inr secs)
    let ?u = "waitForConditionUpdate E ec i nm OperationActionRetry
       \<lparr> ou_Payload := Some serialized, ou_NextAttemptDelaySeconds := Some (max 1 secs) \<rparr>"
    obtain r w1 where ck: "eng_checkpoint E [?u] w = (r, w1)" by fastforce
    have u: "ou_Id ?u = Some (eng_hash E i)" "ou_Type ?u = OperationTypeStep" "plainUpdate ?u"
      by (simp_all add: waitForConditionUpdate_def plainUpdate_def)
    note c = step_checkpoint [OF ok ck u live]
    show ?thesis
    proof (cases r)
      case None
      then have "conditionAttemptPost E i nm cfg attempt (ConditionRetry serialized) w1"
        using c(3) at by (auto simp: conditionAttemptPost_def recorded_def conditionIdentity_def waitForConditionUpdate_def split: option.splits)
      then show ?thesis using st True Inr ck c(1) None by (simp add: settleCondition_def Let_def)
    next
      case (Some e)
      then show ?thesis
        using st True Inr ck c(1) checkpointFailure_infra [OF c(2) [OF Some]]
        by (simp add: settleCondition_def Let_def) (auto simp: conditionAttemptPost_def intro: conditionPost_infra)
    qed
  qed
qed

lemma conditionSerdesFailure_post:
  assumes ok: "ok w" and st: "conditionSerdesFailure E nm dir c w = (res, w')" and live: "liveAt E OperationTypeStep i w"
  shows "others i w w' \<and> conditionAttemptPost E i nm cfg attempt res w'"
proof -
  obtain e w1 where f: "serdesFailure E nm dir c w = (e, w1)" by fastforce
  note o = others_serdes [OF ok f]
  have "liveAt E OperationTypeStep i w1" using liveAt_evolves [OF live] o by (simp add: selfSettled_def)
  then show ?thesis
    using st f o conditionPost_live by (auto simp: conditionSerdesFailure_def conditionAttemptPost_def)
qed

end

context durable_engine begin

lemma startCondition_post:
  assumes ok: "ok w" and live: "liveAt E OperationTypeStep i w"
    and st: "(if c then eng_checkpointNoWait E (waitForConditionUpdate E ec i nm OperationActionStart) w else (None, w)) = (r, w')"
  shows "others i w w'" "r = Some e \<Longrightarrow> infra e" "attemptOf (eng_get E w' i) = attemptOf (eng_get E w i)" "liveAt E OperationTypeStep i w'"
proof -
  let ?u = "waitForConditionUpdate E ec i nm OperationActionStart"
  have u: "ou_Id ?u = Some (eng_hash E i)" "ou_Type ?u = OperationTypeStep" "plainUpdate ?u" "ou_Action ?u = OperationActionStart"
    by (simp_all add: waitForConditionUpdate_def plainUpdate_def)
  have same: "recorded ?u (eng_get E w i) (eng_get E w' i) \<Longrightarrow>
      attemptOf (eng_get E w' i) = attemptOf (eng_get E w i) \<and> liveAt E OperationTypeStep i w'"
    using liveAt_recorded [of ?u E w i w'] u by (auto simp: recorded_def split: option.splits)
  have all: "others i w w' \<and> (\<forall>e. r = Some e \<longrightarrow> infra e) \<and>
     attemptOf (eng_get E w' i) = attemptOf (eng_get E w i) \<and> liveAt E OperationTypeStep i w'"
  proof (cases c)
    case True
    then have nw: "eng_checkpointNoWait E ?u w = (r, w')" using st by simp
    have "recorded ?u (eng_get E w i) (eng_get E w' i) \<or> evolves (eng_get E w i) (eng_get E w' i)"
      by (rule noWait_recorded [OF ok nw]) (simp_all add: waitForConditionUpdate_def)
    then show ?thesis
      using others_noWait [OF ok nw u(1,3) liveAt_terminalRecord [OF live]] noWait_err [OF ok, of ?u] nw
        same evolves_attempt liveAt_evolves [OF live] by (auto simp: selfSettled_def)
  next
    case False
    then show ?thesis using st others_refl [OF ok] live by auto
  qed
  show "others i w w'" "r = Some e \<Longrightarrow> infra e" "attemptOf (eng_get E w' i) = attemptOf (eng_get E w i)" "liveAt E OperationTypeStep i w'"
    using all by blast+
qed

lemma executeCondition_post:
  assumes ok: "ok w" and st: "executeWaitForConditionAttempt E ec i nm check strategy cfg po attempt w = (res, w')"
    and at: "attempt = attemptOf (eng_get E w i) + 1" and q: "quietCheck E ok check" and live: "liveAt E OperationTypeStep i w"
  shows "others i w w' \<and> conditionAttemptPost E i nm cfg attempt res w'"
proof -
  let ?c = "case po of None \<Rightarrow> True | Some op \<Rightarrow> op_status op \<noteq> statusStarted"
  obtain r w1 where s: "(if ?c then eng_checkpointNoWait E (waitForConditionUpdate E ec i nm OperationActionStart) w
      else (None, w)) = (r, w1)" by fastforce
  note p = startCondition_post [OF ok live s]
  have body: "executeWaitForConditionAttempt E ec i nm check strategy cfg po attempt w =
     (case r of Some e \<Rightarrow> (ConditionSettled (Inl (checkpointFailure e)), w1) | None \<Rightarrow>
        (case conditionState cfg i po of
           Inl c \<Rightarrow> conditionSerdesFailure E nm ''unmarshal'' c w1
         | Inr current \<Rightarrow>
            (case check attempt current w1 of
               (Inl (checkErr, trace), w2) \<Rightarrow> failCondition E ec i nm checkErr trace attempt w2
             | (Inr newState, w2) \<Rightarrow>
                (case sz_marshal (cc_serdes cfg) i newState of
                   Inl c \<Rightarrow> conditionSerdesFailure E nm ''marshal'' c w2
                 | Inr serialized \<Rightarrow>
                    (case sz_unmarshal (cc_serdes cfg) i serialized of
                       Inl c \<Rightarrow> conditionSerdesFailure E nm ''unmarshal'' c w2
                     | Inr state \<Rightarrow>
                        settleCondition E ec i nm cfg (strategy state attempt) state serialized attempt w2)))))"
    unfolding executeWaitForConditionAttempt_def s by (simp split: option.split)
  show ?thesis
  proof (cases r)
    case (Some e)
    then show ?thesis
      using st [unfolded body] p(1) checkpointFailure_infra [OF p(2) [OF Some]]
      by (auto simp: conditionAttemptPost_def intro: conditionPost_infra)
  next
    case None
    have at1: "attempt = attemptOf (eng_get E w1 i) + 1" using at p(3) by simp
    note st1 = st [unfolded body None option.case]
    show ?thesis
    proof (cases "conditionState cfg i po")
      case (Inl c)
      then have "others i w1 w' \<and> conditionAttemptPost E i nm cfg attempt res w'"
        using st1 by (intro conditionSerdesFailure_post [OF others_ok [OF p(1)] _ p(4)]) simp
      then show ?thesis using others_trans [OF p(1)] by blast
    next
      case (Inr current)
      obtain b w2 where b: "check attempt current w1 = (b, w2)" by fastforce
      have w2: "ok w2" "eng_get E w2 = eng_get E w1"
        using q b others_ok [OF p(1)] unfolding quietCheck_def by (blast, blast)
      have o2: "others i w w2" using p(1) w2 by (simp add: others_def)
      have at2: "attempt = attemptOf (eng_get E w2 i) + 1" "liveAt E OperationTypeStep i w2"
        using at1 p(4) w2(2) by (simp_all add: liveAt_def)
      have "others i w2 w' \<and> conditionAttemptPost E i nm cfg attempt res w'"
      proof (cases b)
        case (Inl et)
        obtain e tr where et: "et = (e, tr)" by (cases et)
        show ?thesis
          using st1 Inr b Inl et by (intro failCondition_post [OF w2(1) _ at2]) simp
      next
        case v: (Inr v)
        show ?thesis
        proof (cases "sz_marshal (cc_serdes cfg) i v")
          case (Inl c)
          then show ?thesis
            using st1 Inr b v by (intro conditionSerdesFailure_post [OF w2(1) _ at2(2)]) simp
        next
          case ser: (Inr serialized)
          show ?thesis
          proof (cases "sz_unmarshal (cc_serdes cfg) i serialized")
            case (Inl c)
            then show ?thesis
              using st1 Inr b v ser by (intro conditionSerdesFailure_post [OF w2(1) _ at2(2)]) simp
          next
            case state: (Inr state)
            show ?thesis
              using st1 Inr b v ser state by (intro settleCondition_post [OF w2(1) _ at2 state]) simp
          qed
        qed
      qed
      then show ?thesis using o2 others_trans by blast
    qed
  qed
qed

end

text \<open>
  Where the loop stands: the operation it looks at is the record of the log,
  except that one that is not settled may carry the state of the last attempt.
\<close>

definition conditionAt :: "'w engine \<Rightarrow> string \<Rightarrow> string \<Rightarrow> operation option \<Rightarrow> int \<Rightarrow> 'w \<Rightarrow> bool" where
  "conditionAt E i nm po la w \<longleftrightarrow> 0 \<le> la \<and> la \<le> attemptOf po \<and> attemptOf po = attemptOf (eng_get E w i) \<and>
     (case po of None \<Rightarrow> eng_get E w i = None
      | Some op \<Rightarrow> (case eng_get E w i of None \<Rightarrow> False
          | Some op' \<Rightarrow> identityOf op' = conditionIdentity nm \<and> op_status op = op_status op' \<and>
              (status_terminal (op_status op') \<longrightarrow> op = op')))"

definition conditionTurnPost :: "'w engine \<Rightarrow> string \<Rightarrow> string \<Rightarrow> 'v conditionConfig \<Rightarrow> 'v stepTurn \<Rightarrow> 'w \<Rightarrow> bool" where
  "conditionTurnPost E i nm cfg turn w \<longleftrightarrow> (case turn of
      StepDone out \<Rightarrow> conditionPost E i nm cfg out w
    | StepAgain op la \<Rightarrow> conditionAt E i nm (Some op) la w)"

lemma nextAttempt_eq: "0 \<le> la \<Longrightarrow> la \<le> attemptOf po \<Longrightarrow> nextAttempt la po = attemptOf po + 1"
  by (auto simp: nextAttempt_def attemptOf_def split: option.splits)

lemma withConditionState_status [simp]: "op_status (withConditionState next prev) = op_status next"
  by (simp add: withConditionState_def split: option.split)

lemma withConditionState_attempt:
  assumes "attemptOf prev \<le> attemptOf (Some next)" and "0 \<le> attemptOf prev"
  shows "attemptOf (Some (withConditionState next prev)) = attemptOf (Some next)"
  using assms by (auto simp: withConditionState_def attemptOf_def split: option.splits)

context durable_engine begin

lemma awaitCondition_post:
  assumes ok: "ok w" and st: "awaitCondition E ec i prev la w = (turn, ec', w')"
    and rec: "eng_get E w i = Some op" "identityOf op = conditionIdentity nm" "\<not> status_terminal (op_status op)"
    and at: "attemptOf prev \<le> attemptOf (Some op)" "0 \<le> attemptOf prev" "0 \<le> la" "la \<le> attemptOf (Some op)"
  shows "others i w w' \<and> conditionTurnPost E i nm cfg turn w'"
proof -
  obtain r w1 where a: "eng_await E i attemptDueRecord w = (r, w1)" by fastforce
  have o: "others i w w1" by (rule others_await [OF ok a])
  show ?thesis
  proof (cases r)
    case (Inl e)
    then show ?thesis
      using st a o await_err [OF ok, of i attemptDueRecord e w1]
      by (auto simp: awaitCondition_def awaitOperation_def conditionTurnPost_def conditionPost_infra)
  next
    case (Inr nx)
    have g: "eng_get E w1 i = Some nx" using await_ready [OF ok] a Inr by auto
    have ev: "evolves (Some op) (Some nx)" using await_evolves [OF ok a, of i] rec g by simp
    have n: "identityOf nx = conditionIdentity nm" "\<not> status_terminal (op_status nx)" "attemptOf (Some nx) = attemptOf (Some op)"
      using ev rec by (auto simp: evolves_def identityOf_def conditionIdentity_def selfSettled_def)
    have "conditionAt E i nm (Some (withConditionState nx prev)) la w1"
      using withConditionState_attempt [of prev nx] at n g by (simp add: conditionAt_def)
    then show ?thesis
      using st a o Inr by (auto simp: awaitCondition_def awaitOperation_def conditionTurnPost_def)
  qed
qed

lemma conditionTurn_post:
  assumes ok: "ok w" and st: "conditionTurn E ec i nm check strategy cfg po la w = (turn, ec', w')"
    and at: "conditionAt E i nm po la w" and q: "quietCheck E ok check"
  shows "others i w w' \<and> conditionTurnPost E i nm cfg turn w'"
proof -
  let ?a = "nextAttempt la po"
  have a: "?a = attemptOf (eng_get E w i) + 1" and nn: "0 \<le> attemptOf (eng_get E w i)"
    using at nextAttempt_eq [of la po] by (simp_all add: conditionAt_def)
  let ?execute = "case executeWaitForConditionAttempt E ec i nm check strategy cfg po ?a w of
             (ConditionRetry serialized, w') \<Rightarrow> awaitCondition E ec i (Some (conditionFallback ?a serialized)) ?a w'
           | (ConditionSettled out, w') \<Rightarrow> (StepDone out, ec, w')"
  have exec: ?thesis if h: "?execute = (turn, ec', w')" and live: "liveAt E OperationTypeStep i w"
  proof -
    obtain res w1 where e: "executeWaitForConditionAttempt E ec i nm check strategy cfg po ?a w = (res, w1)" by fastforce
    note p = executeCondition_post [OF ok e a q live]
    show ?thesis
    proof (cases res)
      case (ConditionRetry serialized)
      obtain op where op: "eng_get E w1 i = Some op" "identityOf op = conditionIdentity nm" "attemptOf (Some op) = ?a"
        "\<not> status_terminal (op_status op)"
        using p ConditionRetry by (auto simp: conditionAttemptPost_def split: option.splits)
      have "attemptOf (Some (conditionFallback ?a serialized)) = ?a" by (simp add: attemptOf_def conditionFallback_def)
      then have "others i w1 w' \<and> conditionTurnPost E i nm cfg turn w'"
        using h e ConditionRetry op a nn p
        by (intro awaitCondition_post [of w1 ec i "Some (conditionFallback ?a serialized)" ?a turn ec' w' op]) (auto simp: others_def)
      then show ?thesis using p others_trans by blast
    next
      case (ConditionSettled out)
      then show ?thesis using h e p by (auto simp: conditionTurnPost_def conditionAttemptPost_def)
    qed
  qed
  show ?thesis
  proof (cases po)
    case None
    show ?thesis
      by (rule exec, unfold None) (use st [unfolded None] at [unfolded None] in \<open>simp_all add: conditionTurn_def Let_def liveAt_def conditionAt_def\<close>)
  next
    case (Some op)
    then obtain op' where g: "eng_get E w i = Some op'" "identityOf op' = conditionIdentity nm" "op_status op = op_status op'"
      "status_terminal (op_status op') \<Longrightarrow> op = op'" "0 \<le> la" "la \<le> attemptOf (Some op')" "attemptOf (Some op) = attemptOf (Some op')"
      using at by (auto simp: conditionAt_def split: option.splits)
    have live: "liveAt E OperationTypeStep i w" if "op_status op \<notin> {statusSucceeded, statusFailed}"
      using that g(1-3) settled_types [OF ok g(1)] by (auto simp: liveAt_def identityOf_def conditionIdentity_def selfSettled_def)
    consider "op_status op = statusSucceeded" | "op_status op = statusFailed" | "op_status op = statusPending"
      | "op_status op \<notin> {statusSucceeded, statusFailed, statusPending}" by blast
    then show ?thesis
    proof cases
      case 1
      have eq: "op = op'" using 1 g(3,4) by simp
      obtain out w1 where r: "replaySucceededCondition E i nm cfg op w = (out, w1)" by fastforce
      have t: "turn = StepDone out" "w' = w1" using st Some 1 r by (simp_all add: conditionTurn_def Let_def)
      have o: "others i w w1"
        using r others_refl [OF ok] others_serdes [OF ok]
        by (fastforce simp: replaySucceededCondition_def split: option.splits sum.splits prod.splits)
      have "conditionRecord E i nm cfg out w1" if "outcomeSettled out"
        using that r g(1,2) eq 1
        by (auto simp: replaySucceededCondition_def conditionRecord_def conditionReplays_def noConditionDetails_def
            outcomeSettled_def serdesFailure_def Let_def split: option.splits sum.splits if_splits)
      then show ?thesis using t o by (simp add: conditionTurnPost_def conditionPost_def)
    next
      case 2
      have eq: "op = op'" using 2 g(3,4) by simp
      have "conditionRecord E i nm cfg (Inl (replayFailedCondition nm op)) w"
        if "outcomeSettled (Inl (replayFailedCondition nm op) :: goErr + 'b)" for cfg :: "'b conditionConfig"
        using that g(1,2) eq 2
        by (auto simp: replayFailedCondition_def conditionRecord_def conditionReplays_def noConditionDetails_def
            outcomeSettled_def split: option.splits)
      then show ?thesis
        using st Some 2 others_refl [OF ok] by (auto simp: conditionTurn_def Let_def conditionTurnPost_def conditionPost_def)
    next
      case 3
      then show ?thesis
        using st Some g nn by (intro awaitCondition_post [OF ok _ g(1,2)]) (auto simp: conditionTurn_def Let_def)
    next
      case 4
      then show ?thesis
        using st [unfolded Some] live
        by (intro exec, unfold Some; cases "op_status op") (simp_all add: conditionTurn_def Let_def)
    qed
  qed
qed

lemma conditionLoop_post:
  assumes "ok w" and "conditionLoop n E ec i nm check strategy cfg po la w = Some (out, ec', w')"
    and "conditionAt E i nm po la w" and "quietCheck E ok check"
  shows "others i w w' \<and> conditionPost E i nm cfg out w'"
  using assms
proof (induction n arbitrary: ec po la w)
  case (Suc n)
  obtain turn ec1 w1 where t: "conditionTurn E ec i nm check strategy cfg po la w = (turn, ec1, w1)" by (metis prod.collapse)
  note p = conditionTurn_post [OF Suc.prems(1) t Suc.prems(3,4)]
  show ?case
  proof (cases turn)
    case (StepDone o')
    then show ?thesis using Suc.prems(2) t p by (simp add: conditionTurnPost_def)
  next
    case (StepAgain op la')
    have "others i w1 w' \<and> conditionPost E i nm cfg out w'"
      using Suc.prems(2) t p StepAgain others_ok Suc.prems(4)
      by (intro Suc.IH [of w1 ec1 "Some op" la']) (auto simp: conditionTurnPost_def)
    then show ?thesis using p others_trans by blast
  qed
qed simp

lemma runWaitForCondition_post:
  assumes ok: "ok w" and st: "runWaitForCondition n E ec i nm check strategy cfg w = Some (out, ec', w')"
    and q: "quietCheck E ok check"
  shows "others i w w' \<and> conditionPost E i nm cfg out w'"
proof -
  let ?po = "eng_get E w i"
  show ?thesis
  proof (cases "validateReplayConsistency ?po OperationTypeStep ''WaitForCondition'' nm")
    case (Some e)
    then show ?thesis
      using st others_refl [OF ok] validate_not_settled [OF Some] by (auto simp: runWaitForCondition_def conditionPost_def)
  next
    case None
    show ?thesis
    proof (cases "unfinishedInSucceededContext ec ?po")
      case True
      obtain e ec1 w1 where p: "parkUnfinishedReplay E ec ?po i OperationTypeStep ''WaitForCondition'' nm w = (e, ec1, w1)"
        by (metis prod.collapse)
      then show ?thesis
        using st None True parkUnfinishedReplay_others [OF ok p] park_not_settled [OF p]
        by (auto simp: runWaitForCondition_def Let_def conditionPost_def)
    next
      case False
      have "conditionAt E i nm ?po 0 w"
        using None types_known [OF ok] attempts_nonneg [OF ok, of i] validated_identity
        by (auto simp: conditionAt_def conditionIdentity_def split: option.splits)
      then show ?thesis
        using st None False by (intro conditionLoop_post [OF ok _ _ q]) (auto simp: runWaitForCondition_def Let_def)
    qed
  qed
qed

end

end
