(* ===== verification/Handler_Ops.thy ===== *)
theory Handler_Ops
  imports Condition_Op Child_Op
begin

text \<open>
  The operations of a handler, seen alike.  Each claims its position and runs
  from the record found there; an outcome the operation settled is an outcome
  its record replays to.
\<close>

section \<open>Claims\<close>

lemma refreshReplayMode_frame [simp]:
  "ec_ids (refreshReplayMode E w ec) = ec_ids ec" "ec_blocked (refreshReplayMode E w ec) = ec_blocked ec"
  "ec_abandoned (refreshReplayMode E w ec) = ec_abandoned ec"
  by (simp_all add: refreshReplayMode_def Let_def)

lemma observeOutcome_frame [simp]:
  "ec_ids (observeOutcome E i e w ec) = ec_ids ec" "ec_blocked (observeOutcome E i e w ec) = ec_blocked ec"
  "ec_abandoned (observeOutcome E i e w ec) = ec_abandoned ec"
  by (simp_all add: observeOutcome_def receiveOutcome_def)

lemma claimOperation_id:
  "claimOperation E None ec w = (Inr i, ec1) \<Longrightarrow> ids_next (ec_ids ec) = (i, ec_ids ec1)"
  by (auto simp: claimOperation_def Let_def split: option.splits prod.splits)

lemma claimOperation_refused: "claimOperation E None ec w = (Inl e, ec1) \<Longrightarrow> e = sentinelErr errSuspendExecution \<and> ec1 = ec"
  by (auto simp: claimOperation_def claimable_def Let_def split: option.splits prod.splits if_splits)

text \<open>A context that may claim.\<close>

definition canClaim :: "'w engine \<Rightarrow> opIDs \<Rightarrow> execContext \<Rightarrow> 'w \<Rightarrow> bool" where
  "canClaim E ids ec w \<longleftrightarrow> \<not> eng_fired E w \<and> ec_ids ec = ids \<and> \<not> ec_blocked ec \<and> \<not> ec_abandoned ec"

lemma claimOperation_can:
  assumes "canClaim E ids ec w" and "ids_next ids = (i, ids')"
  obtains ec1 where "claimOperation E None ec w = (Inr i, ec1)" "canClaim E ids' ec1 w"
proof -
  have "claimOperation E None ec w = (Inr i, (refreshReplayMode E w ec) \<lparr> ec_ids := ids' \<rparr>)"
    using assms by (simp add: claimOperation_def claimable_def canClaim_def)
  then show ?thesis using that assms(1) by (simp add: canClaim_def)
qed

section \<open>Operations keep the context's minter\<close>

lemma awaitOperation_ids: "awaitOperation E ec i rd w = (r, ec', w') \<Longrightarrow> ec_ids ec' = ec_ids ec"
  by (auto simp: awaitOperation_def split: prod.splits sum.splits)

lemma parkUnfinishedReplay_ids: "parkUnfinishedReplay E ec po i ty sub nm w = (e, ec', w') \<Longrightarrow> ec_ids ec' = ec_ids ec"
  by (auto simp: parkUnfinishedReplay_def split: prod.splits if_splits)

lemma awaitAttempt_ids: "awaitAttempt E ec i la w = (t, ec', w') \<Longrightarrow> ec_ids ec' = ec_ids ec"
  by (auto simp: awaitAttempt_def dest: awaitOperation_ids split: prod.splits sum.splits)

lemma afterAttempt_ids: "afterAttempt E ec i a rw = (t, ec', w') \<Longrightarrow> ec_ids ec' = ec_ids ec"
  by (auto simp: afterAttempt_def dest: awaitAttempt_ids split: prod.splits attemptResult.splits)

lemma stepTurn_ids:
  "stepTurn E ec i nm fn options po la start w = (t, ec', w') \<Longrightarrow> ec_ids ec' = ec_ids ec"
  unfolding stepTurn_def Let_def
  by (cases po; simp split: operationStatus.splits if_splits prod.splits) (auto dest: awaitAttempt_ids afterAttempt_ids)

lemma stepLoop_ids:
  "stepLoop n E ec i nm fn options po la start w = Some (out, ec', w') \<Longrightarrow> ec_ids ec' = ec_ids ec"
proof (induction n arbitrary: ec po la start w)
  case (Suc n)
  then show ?case by (auto split: prod.splits stepTurn.splits dest: stepTurn_ids Suc.IH)
qed simp

lemma runStep_ids: "runStep n E ec i nm fn options start w = Some (out, ec', w') \<Longrightarrow> ec_ids ec' = ec_ids ec"
  by (auto simp: runStep_def Let_def dest: stepLoop_ids parkUnfinishedReplay_ids split: option.splits if_splits prod.splits)

lemma awaitWait_ids: "awaitWait E ec i nm w = (r, ec', w') \<Longrightarrow> ec_ids ec' = ec_ids ec"
  by (auto simp: awaitWait_def dest: awaitOperation_ids split: prod.splits sum.splits if_splits)

lemma startedWait_ids: "startedWait E ec i nm rw = (r, ec', w') \<Longrightarrow> ec_ids ec' = ec_ids ec"
  by (auto simp: startedWait_def dest: awaitWait_ids split: prod.splits option.splits)

lemma runWait_ids: "runWait E ec i nm d None w = (r, ec', w') \<Longrightarrow> ec_ids ec' = ec_ids ec"
  unfolding runWait_def Let_def option.case
  by (cases "validateReplayConsistency (eng_get E w i) OperationTypeWait ''Wait'' nm"; cases "eng_get E w i";
      simp split: if_splits sum.splits prod.splits operationStatus.splits)
     (auto dest: startedWait_ids awaitWait_ids parkUnfinishedReplay_ids)

lemma runClaimedChild_ids: "runClaimedChild E ec i nm sub options fn w = Some (r, ec', w') \<Longrightarrow> ec_ids ec' = ec_ids ec"
  unfolding runClaimedChild_def Let_def
  by (cases "validateReplayConsistency (eng_get E w i) OperationTypeContext sub nm"; cases "eng_get E w i";
      simp split: if_splits prod.splits operationStatus.splits)
     (auto dest: parkUnfinishedReplay_ids)


lemma awaitInvoke_ids: "awaitInvoke E ec i nm f options w = (r, ec', w') \<Longrightarrow> ec_ids ec' = ec_ids ec"
  by (auto simp: awaitInvoke_def dest: awaitOperation_ids split: prod.splits sum.splits)

lemma startedInvoke_ids: "startedInvoke E ec i nm f options rw = (r, ec', w') \<Longrightarrow> ec_ids ec' = ec_ids ec"
  by (auto simp: startedInvoke_def dest: awaitInvoke_ids split: prod.splits option.splits)

lemma runInvoke_ids: "runInvoke E ec i nm f input options None w = (r, ec', w') \<Longrightarrow> ec_ids ec' = ec_ids ec"
  unfolding runInvoke_def Let_def option.case
  by (cases "validateReplayConsistency (eng_get E w i) OperationTypeChainedInvoke ''ChainedInvoke'' nm"; cases "eng_get E w i";
      simp split: if_splits sum.splits prod.splits)
     (auto dest: startedInvoke_ids awaitInvoke_ids parkUnfinishedReplay_ids)

lemma awaitCondition_ids: "awaitCondition E ec i prev la w = (t, ec', w') \<Longrightarrow> ec_ids ec' = ec_ids ec"
  by (auto simp: awaitCondition_def dest: awaitOperation_ids split: prod.splits sum.splits)

lemma conditionTurn_ids:
  "conditionTurn E ec i nm check strategy cfg po la w = (t, ec', w') \<Longrightarrow> ec_ids ec' = ec_ids ec"
  unfolding conditionTurn_def Let_def
  by (cases po; simp split: operationStatus.splits prod.splits conditionAttempt.splits) (auto dest: awaitCondition_ids)

lemma conditionLoop_ids:
  "conditionLoop n E ec i nm check strategy cfg po la w = Some (out, ec', w') \<Longrightarrow> ec_ids ec' = ec_ids ec"
proof (induction n arbitrary: ec po la w)
  case (Suc n)
  then show ?case by (auto split: prod.splits stepTurn.splits dest: conditionTurn_ids Suc.IH)
qed simp

lemma runWaitForCondition_ids:
  "runWaitForCondition n E ec i nm check strategy cfg w = Some (out, ec', w') \<Longrightarrow> ec_ids ec' = ec_ids ec"
  by (auto simp: runWaitForCondition_def Let_def dest: conditionLoop_ids parkUnfinishedReplay_ids
      split: option.splits if_splits prod.splits)

section \<open>The positions a handler touches\<close>

definition region :: "opIDs \<Rightarrow> string set" where
  "region ids = {p. \<exists>k > ids_counter ids. below (ids_format (ids_child (ids_prefix ids)) k) p}"

lemma region_of_child: "region (ids_child i) = {p. \<exists>k > 0. below (ids_format (ids_child i) k) p}"
proof -
  have "ids_prefix (ids_child i) = i" "ids_counter (ids_child i) = 0" by (simp_all add: ids_child_def)
  then show ?thesis by (simp only: region_def)
qed

lemma below_trans: "below b c \<Longrightarrow> below a b \<Longrightarrow> below a c"
  by (induction rule: below.induct) (auto intro: below.intros)

lemma region_next: "ids_next ids = (i, ids') \<Longrightarrow> i \<in> region ids \<and> region ids' \<subseteq> region ids \<and> i \<notin> region ids'"
proof -
  assume n: "ids_next ids = (i, ids')"
  have i: "i = ids_format (ids_child (ids_prefix ids)) (ids_counter ids + 1)" "ids_prefix ids' = ids_prefix ids"
    "ids_counter ids' = ids_counter ids + 1"
    using ids_next_simps [of ids] ids_next_fst_child [of ids] n by simp_all
  have "i \<in> region ids" unfolding region_def i(1) by (auto intro: below_self)
  moreover have "region ids' \<subseteq> region ids" unfolding region_def i(2,3) by (auto dest: Suc_lessD)
  moreover have "i \<notin> region ids'"
    unfolding region_def i(2,3) using below_disjoint [of "ids_prefix ids" _ i "ids_counter ids + 1"] below_self i(1) by auto
  ultimately show ?thesis by blast
qed

lemma region_child: "ids_next ids = (i, ids') \<Longrightarrow> region (ids_child i) \<subseteq> region ids \<and> region (ids_child i) \<inter> region ids' = {} \<and>
    i \<notin> region (ids_child i)"
proof -
  assume n: "ids_next ids = (i, ids')"
  have i: "i = ids_format (ids_child (ids_prefix ids)) (ids_counter ids + 1)" "ids_prefix ids' = ids_prefix ids"
    "ids_counter ids' = ids_counter ids + 1"
    using ids_next_simps [of ids] ids_next_fst_child [of ids] n by simp_all
  have b: "below i p" if pr: "p \<in> region (ids_child i)" for p
  proof -
    obtain k where "below (ids_format (ids_child i) k) p" using pr by (auto simp: region_of_child)
    moreover have "below i (ids_format (ids_child i) k)"
      by (rule below_child [OF below_self]) (simp add: i(1))
    ultimately show ?thesis by (rule below_trans)
  qed
  have "region (ids_child i) \<subseteq> region ids"
  proof
    fix p assume "p \<in> region (ids_child i)"
    from b [OF this] have "below (ids_format (ids_child (ids_prefix ids)) (ids_counter ids + 1)) p" using i(1) by simp
    then show "p \<in> region ids" unfolding region_def by (auto intro!: exI [of _ "ids_counter ids + 1"])
  qed
  moreover have "region (ids_child i) \<inter> region ids' = {}"
  proof (intro equals0I)
    fix p assume p: "p \<in> region (ids_child i) \<inter> region ids'"
    then obtain k where k: "k > ids_counter ids + 1" "below (ids_format (ids_child (ids_prefix ids)) k) p"
      by (auto simp: region_def i(2,3))
    have "below (ids_format (ids_child (ids_prefix ids)) (ids_counter ids + 1)) p" using b p i(1) by blast
    from below_disjoint [OF this k(2)] k(1) show False by simp
  qed
  moreover have "i \<notin> region (ids_child i)"
    using not_below_longer [of i] i(1) by (auto simp: region_of_child)
  ultimately show ?thesis by blast
qed

section \<open>Claim and run\<close>

text \<open>Every operation claims its position, runs from there, and reports what it observed to its context.\<close>

definition claimThen :: "'w engine \<Rightarrow> (execContext \<Rightarrow> string \<Rightarrow> 'w \<Rightarrow> ((goErr + 'v) \<times> execContext \<times> 'w) option) \<Rightarrow>
    execContext \<Rightarrow> 'w \<Rightarrow> ((goErr + 'v) \<times> execContext \<times> 'w) option" where
  "claimThen E run ec w =
    (case claimOperation E None ec w of
       (Inl e, ec1) \<Rightarrow> Some (Inl e, ec1, w)
     | (Inr i, ec1) \<Rightarrow>
        (case run ec1 i w of None \<Rightarrow> None
         | Some (out, ec2, w') \<Rightarrow>
             Some (out, observeOutcome E i (case out of Inl e \<Rightarrow> Some e | Inr _ \<Rightarrow> None) w' ec2, w')))"

definition waitOutcome :: "goErr option \<Rightarrow> goErr + unit" where
  "waitOutcome r = (case r of Some e \<Rightarrow> Inl e | None \<Rightarrow> Inr ())"

lemma operations_claim:
  "Step n E None ec nm fn options w = claimThen E (\<lambda>ec i. runStep n E ec i nm fn options None) ec w"
  "RunInChildContext E None ec nm sub copts body w = claimThen E (\<lambda>ec i. runClaimedChild E ec i nm sub copts body) ec w"
  "Some (Invoke E None ec nm f input iopts w) = claimThen E (\<lambda>ec i w. Some (runInvoke E ec i nm f input iopts None w)) ec w"
  "cc_WaitStrategy cfg = Some strategy \<Longrightarrow> WaitForCondition n E None ec nm check cfg w =
     claimThen E (\<lambda>ec i. runWaitForCondition n E ec i nm check strategy cfg) ec w"
  "validateWaitDuration ''Wait'' nm d = None \<Longrightarrow> Some (map_prod waitOutcome id (Wait E None ec nm d w)) =
     claimThen E (\<lambda>ec i w. Some (map_prod waitOutcome id (runWait E ec i nm d None w))) ec w"
  by (auto simp: Step_def RunInChildContext_def Invoke_def WaitForCondition_def Wait_def claimThen_def waitOutcome_def
      map_prod_def split: prod.split sum.split option.split)

definition keepsIDs :: "(execContext \<Rightarrow> string \<Rightarrow> 'w \<Rightarrow> (('r \<times> execContext \<times> 'w) option)) \<Rightarrow> bool" where
  "keepsIDs run \<longleftrightarrow> (\<forall>ec i w out ec' w'. run ec i w = Some (out, ec', w') \<longrightarrow> ec_ids ec' = ec_ids ec)"

lemma operations_keepIDs:
  "keepsIDs (\<lambda>ec i. runStep n E ec i nm fn options None)"
  "keepsIDs (\<lambda>ec i. runClaimedChild E ec i nm sub copts body)"
  "keepsIDs (\<lambda>ec i w. Some (runInvoke E ec i nm f input iopts None w))"
  "keepsIDs (\<lambda>ec i. runWaitForCondition n E ec i nm check strategy cfg)"
  "keepsIDs (\<lambda>ec i w. Some (map_prod waitOutcome id (runWait E ec i nm d None w)))"
  unfolding keepsIDs_def
  by (auto dest: runStep_ids runClaimedChild_ids runInvoke_ids runWaitForCondition_ids runWait_ids simp: map_prod_def
      split: prod.splits)

lemma claimThen_run:
  assumes "claimThen E run ec w = Some (out, ec', w')" and ids: "keepsIDs run"
  obtains (unclaimed) "out = Inl (sentinelErr errSuspendExecution)" "ec' = ec" "w' = w"
    | (claimed) i ec1 ec2 where "ids_next (ec_ids ec) = (i, ec_ids ec')" "run ec1 i w = Some (out, ec2, w')"
proof (cases "claimOperation E None ec w")
  case (Pair c ec1)
  show ?thesis
  proof (cases c)
    case (Inl e)
    then show ?thesis using assms(1) Pair claimOperation_refused [of E ec w e ec1] unclaimed by (simp add: claimThen_def)
  next
    case (Inr i)
    obtain ec2 where r: "run ec1 i w = Some (out, ec2, w')" "ec_ids ec' = ec_ids ec2"
      using assms(1) Pair Inr by (auto simp: claimThen_def split: option.splits)
    moreover have "ec_ids ec2 = ec_ids ec1" using ids r(1) unfolding keepsIDs_def by blast
    ultimately show ?thesis using claimed claimOperation_id [of E ec w i ec1] Pair Inr by simp
  qed
qed

lemma claimThen_replay:
  assumes "canClaim E ids ec w" and "ids_next ids = (i, ids')" and run: "\<And>ec. run ec i w = Some (out, ec, w)"
  obtains ec' where "claimThen E run ec w = Some (out, ec', w)" "canClaim E ids' ec' w"
proof -
  obtain ec1 where c: "claimOperation E None ec w = (Inr i, ec1)" "canClaim E ids' ec1 w"
    using claimOperation_can [OF assms(1,2)] by blast
  have "canClaim E ids' (observeOutcome E i e w ec1) w" for e using c(2) by (simp add: canClaim_def)
  then show ?thesis using c(1) run that by (simp add: claimThen_def)
qed

lemma Step_replay:
  assumes "canClaim E ids ec w" and "ids_next ids = (i, ids')" and "stepRecord E i nm options out w"
  obtains ec' where "Step (Suc n) E None ec nm fn options w = Some (out, ec', w)" "canClaim E ids' ec' w"
  by (rule claimThen_replay [OF assms(1,2)], rule runStep_replay [OF assms(3)]) (simp add: operations_claim)

section \<open>What one log holds of another\<close>

text \<open>What one log holds of another: every settled record, up to times and parents.\<close>

definition holds :: "'w engine \<Rightarrow> 'w \<Rightarrow> 'w \<Rightarrow> bool" where
  "holds E w w2 \<longleftrightarrow> (\<forall>q op. eng_get E w q = Some op \<longrightarrow> status_terminal (op_status op) \<longrightarrow>
     (\<exists>op2. eng_get E w2 q = Some op2 \<and> core op2 = core op))"

lemma holds_evolves:
  assumes "holds E w w2" and "eng_get E w q = Some op" and "status_terminal (op_status op)"
  shows "evolves (eng_get E w q) (eng_get E w2 q)"
proof -
  obtain op2 where op2: "eng_get E w2 q = Some op2" "core op2 = core op" using assms by (auto simp: holds_def)
  have "attemptOf (Some op2) = attemptOf (Some op)"
    using core_facts(3) [OF op2(2)] by (auto simp: attemptOf_def split: option.splits)
  then show ?thesis using op2 core_facts(1,2) [OF op2(2)] assms(2) by (simp add: evolves_def)
qed

lemma childRecord_terminal:
  assumes "childRecord E i nm sub options out w"
  obtains op where "eng_get E w i = Some op" "status_terminal (op_status op)"
  using assms by (auto simp: childRecord_def dest: childReplays_terminal split: option.splits)

lemma childRecord_holds: "holds E w w2 \<Longrightarrow> childRecord E i nm sub options out w \<Longrightarrow> childRecord E i nm sub options out w2"
  by (meson childRecord_evolves childRecord_terminal holds_evolves)

lemma storedChild_evolves:
  assumes "storedChild E i w" and "childRecord E i nm sub options out w" and "evolves (eng_get E w i) (eng_get E w' i)"
  shows "storedChild E i w'"
proof -
  obtain op where op: "eng_get E w i = Some op" "status_terminal (op_status op)" using assms(2) by (rule childRecord_terminal)
  then obtain op' where "eng_get E w' i = Some op'" "op_childCtx op' = op_childCtx op"
    using assms(3) by (auto simp: evolves_def dest: core_facts(7) split: option.splits)
  then show ?thesis using assms(1) op by (simp add: storedChild_def)
qed

section \<open>The operations without a body of operations\<close>

datatype ('v, 'w) leaf =
    LStep string "('v, 'w) stepBody" "'v stepOptions"
  | LWait string int
  | LInvoke string string 'v "('v, 'v) invokeOptions"
  | LCondition string "('v, 'w) conditionCheck" "'v conditionConfig"

text \<open>What the handler observed.\<close>

datatype 'v observed = ObsValue "goErr + 'v" | ObsWait "goErr option"

definition runLeaf :: "nat \<Rightarrow> 'w engine \<Rightarrow> ('v, 'w) leaf \<Rightarrow> execContext \<Rightarrow> 'w \<Rightarrow> ('v observed \<times> execContext \<times> 'w) option" where
  "runLeaf n E lf ec w = (case lf of
      LStep nm fn options \<Rightarrow> map_option (map_prod ObsValue id) (Step n E None ec nm fn options w)
    | LWait nm d \<Rightarrow> Some (map_prod ObsWait id (Wait E None ec nm d w))
    | LInvoke nm f input options \<Rightarrow> Some (map_prod ObsValue id (Invoke E None ec nm f input options w))
    | LCondition nm check cfg \<Rightarrow> map_option (map_prod ObsValue id) (WaitForCondition n E None ec nm check cfg w))"

definition settledObs :: "'v observed \<Rightarrow> bool" where
  "settledObs obs = (case obs of ObsValue out \<Rightarrow> outcomeSettled out | ObsWait r \<Rightarrow> r = None)"

text \<open>The log holds what the handler observed at a position.\<close>

definition leafRecord :: "'w engine \<Rightarrow> string \<Rightarrow> ('v, 'w) leaf \<Rightarrow> 'v observed \<Rightarrow> 'w \<Rightarrow> bool" where
  "leafRecord E i lf obs w = (case (lf, obs) of
      (LStep nm fn options, ObsValue out) \<Rightarrow> stepRecord E i nm options out w
    | (LWait nm d, ObsWait r) \<Rightarrow> r = None \<and> validateWaitDuration ''Wait'' nm d = None \<and> waitRecord E i nm w
    | (LInvoke nm f input options, ObsValue out) \<Rightarrow> invokeRecord E i nm f options out w
    | (LCondition nm check cfg, ObsValue out) \<Rightarrow> cc_WaitStrategy cfg \<noteq> None \<and> conditionRecord E i nm cfg out w
    | _ \<Rightarrow> False)"

definition leafOk :: "'w engine \<Rightarrow> ('w \<Rightarrow> bool) \<Rightarrow> ('v, 'w) leaf \<Rightarrow> bool" where
  "leafOk E ok lf = (case lf of
      LStep nm fn options \<Rightarrow> so_subType options \<noteq> '''' \<and> serdesErrorsOk (so_serdes options) \<and> quietBody E ok fn
    | LCondition nm check cfg \<Rightarrow> quietCheck E ok check
    | _ \<Rightarrow> True)"

text \<open>Bodies that leave the engine's world alone suit every engine.\<close>

definition pureBody :: "('v, 'w) stepBody \<Rightarrow> bool" where
  "pureBody fn \<longleftrightarrow> (\<forall>a w. snd (fn a w) = w)"

definition pureCheck :: "('v, 'w) conditionCheck \<Rightarrow> bool" where
  "pureCheck check \<longleftrightarrow> (\<forall>a v w. snd (check a v w) = w)"

definition leafPure :: "('v, 'w) leaf \<Rightarrow> bool" where
  "leafPure lf = (case lf of
      LStep nm fn options \<Rightarrow> so_subType options \<noteq> '''' \<and> serdesErrorsOk (so_serdes options) \<and> pureBody fn
    | LCondition nm check cfg \<Rightarrow> pureCheck check
    | _ \<Rightarrow> True)"

lemma pureBody_quiet: "pureBody fn \<Longrightarrow> quietBody E ok fn"
  by (auto simp: pureBody_def quietBody_def) (metis snd_conv)+

lemma leafPure_ok: "leafPure lf \<Longrightarrow> leafOk E ok lf"
proof -
  have "quietCheck E ok check" if "pureCheck check" for check :: "('a, 'b) conditionCheck"
    using that by (auto simp: pureCheck_def quietCheck_def) (metis snd_conv)+
  then show "leafPure lf \<Longrightarrow> leafOk E ok lf" by (auto simp: leafPure_def leafOk_def pureBody_quiet split: leaf.splits)
qed

lemma leafRecord_terminal:
  assumes "leafRecord E i lf obs w"
  obtains op where "eng_get E w i = Some op" "status_terminal (op_status op)"
  using assms
  by (auto simp: leafRecord_def stepRecord_def waitRecord_def invokeRecord_def conditionRecord_def invokeReplays_def
      dest: stepReplays_terminal conditionReplays_terminal split: leaf.splits observed.splits option.splits)

lemma leafRecord_evolves:
  "leafRecord E i lf obs w \<Longrightarrow> evolves (eng_get E w i) (eng_get E w' i) \<Longrightarrow> leafRecord E i lf obs w'"
  by (auto simp: leafRecord_def intro: stepRecord_evolves waitRecord_evolves invokeRecord_evolves conditionRecord_evolves
      split: leaf.splits observed.splits)

lemma leafRecord_holds: "holds E w w2 \<Longrightarrow> leafRecord E i lf obs w \<Longrightarrow> leafRecord E i lf obs w2"
  by (meson leafRecord_evolves leafRecord_terminal holds_evolves)

lemma leafRecord_same: "eng_get E2 = eng_get E \<Longrightarrow> leafRecord E2 i lf obs w = leafRecord E i lf obs w"
  by (simp add: leafRecord_def stepRecord_def waitRecord_def invokeRecord_def conditionRecord_def
      split: leaf.split observed.split)

text \<open>A recorded operation replays at once, with the world unchanged.\<close>

lemma runLeaf_replay:
  assumes can: "canClaim E ids ec w" and n: "ids_next ids = (i, ids')" and r: "leafRecord E i lf obs w"
  obtains ec' where "runLeaf (Suc m) E lf ec w = Some (obs, ec', w)" "canClaim E ids' ec' w"
proof (cases lf)
  case (LStep nm fn options)
  then obtain out where out: "obs = ObsValue out" "stepRecord E i nm options out w"
    using r by (auto simp: leafRecord_def split: observed.splits)
  show ?thesis
    by (rule Step_replay [OF can n out(2)]) (rule that, simp_all add: runLeaf_def LStep out(1))
next
  case (LWait nm d)
  then have out: "obs = ObsWait None" "waitRecord E i nm w" "validateWaitDuration ''Wait'' nm d = None"
    using r by (auto simp: leafRecord_def split: observed.splits)
  obtain ec' where c: "claimThen E (\<lambda>ec i w. Some (map_prod waitOutcome id (runWait E ec i nm d None w))) ec w = Some (Inr (), ec', w)"
      "canClaim E ids' ec' w"
    by (rule claimThen_replay [OF can n, where run = "\<lambda>ec i w. Some (map_prod waitOutcome id (runWait E ec i nm d None w))"
          and out = "Inr ()"]) (simp add: runWait_replay [OF out(2)] waitOutcome_def)
  have "map_prod waitOutcome id (Wait E None ec nm d w) = (Inr (), ec', w)"
    using c(1) operations_claim(5) [OF out(3), of E ec w] by simp
  then have "Wait E None ec nm d w = (None, ec', w)"
    by (cases "Wait E None ec nm d w") (auto simp: waitOutcome_def split: option.splits)
  then show ?thesis using that c(2) out(1) by (simp add: runLeaf_def LWait)
next
  case (LInvoke nm f input options)
  then obtain out where out: "obs = ObsValue out" "invokeRecord E i nm f options out w"
    using r by (auto simp: leafRecord_def split: observed.splits)
  obtain ec' where c: "claimThen E (\<lambda>ec i w. Some (runInvoke E ec i nm f input options None w)) ec w = Some (out, ec', w)"
      "canClaim E ids' ec' w"
    by (rule claimThen_replay [OF can n, where run = "\<lambda>ec i w. Some (runInvoke E ec i nm f input options None w)"
          and out = out]) (simp add: runInvoke_replay [OF out(2)])
  then have "Invoke E None ec nm f input options w = (out, ec', w)"
    using operations_claim(3) [of E ec nm f input options w] by simp
  then show ?thesis using that c(2) out(1) by (simp add: runLeaf_def LInvoke)
next
  case (LCondition nm check cfg)
  then obtain out strategy where out: "obs = ObsValue out" "conditionRecord E i nm cfg out w" "cc_WaitStrategy cfg = Some strategy"
    using r by (auto simp: leafRecord_def split: observed.splits)
  obtain ec' where "claimThen E (\<lambda>ec i. runWaitForCondition (Suc m) E ec i nm check strategy cfg) ec w = Some (out, ec', w)"
      "canClaim E ids' ec' w"
    by (rule claimThen_replay [OF can n]) (rule runWaitForCondition_replay [OF out(2)])
  then show ?thesis using that out(1,3) by (simp add: runLeaf_def LCondition operations_claim)
qed

context durable_engine begin

text \<open>What one operation does: nothing, or a run at its position that leaves a settled outcome in the log.\<close>

lemma runLeaf_post:
  assumes ok: "ok w" and lf: "leafOk E ok lf" and run: "runLeaf n E lf ec w = Some (obs, ec', w')"
  obtains (refused) "\<not> settledObs obs" "ec' = ec" "w' = w"
    | (ran) i where "ids_next (ec_ids ec) = (i, ec_ids ec')" "others i w w'"
        "settledObs obs \<Longrightarrow> terminalRecord (eng_get E w' i) \<Longrightarrow> leafRecord E i lf obs w'"
proof (cases lf)
  case (LStep nm fn options)
  then obtain out where out: "obs = ObsValue out"
    "claimThen E (\<lambda>ec i. runStep n E ec i nm fn options None) ec w = Some (out, ec', w')"
    using run by (auto simp: runLeaf_def operations_claim)
  from out(2) operations_keepIDs(1) show ?thesis
  proof (cases rule: claimThen_run)
    case (claimed i ec1 ec2)
    then show ?thesis
      using runStep_post [OF ok claimed(2)] lf LStep out(1) by (intro that(2) [of i]) (auto simp: leafOk_def leafRecord_def settledObs_def)
  qed (use out(1) that(1) in \<open>auto simp: settledObs_def\<close>)
next
  case (LWait nm d)
  obtain r where r: "obs = ObsWait r" "Wait E None ec nm d w = (r, ec', w')"
    using run LWait by (auto simp: runLeaf_def map_prod_def split: prod.splits)
  show ?thesis
  proof (cases "validateWaitDuration ''Wait'' nm d")
    case (Some e)
    then have "r = Some e" "ec' = ec" "w' = w" using r(2) by (simp_all add: Wait_def)
    then show ?thesis using r(1) that(1) by (simp add: settledObs_def)
  next
    case None
    have "claimThen E (\<lambda>ec i w. Some (map_prod waitOutcome id (runWait E ec i nm d None w))) ec w = Some (waitOutcome r, ec', w')"
      using operations_claim(5) [OF None, of E ec w] r(2) by simp
    from this operations_keepIDs(5) show ?thesis
    proof (cases rule: claimThen_run)
      case unclaimed
      then show ?thesis using that(1) r(1) by (auto simp: waitOutcome_def settledObs_def split: option.splits)
    next
      case (claimed i ec1 ec2)
      obtain r2 where r2: "runWait E ec1 i nm d None w = (r2, ec2, w')" "waitOutcome r2 = waitOutcome r"
        using claimed(2) by (auto simp: map_prod_def split: prod.splits)
      then have "r2 = r" by (auto simp: waitOutcome_def split: option.splits)
      then show ?thesis
        using runWait_post [OF ok r2(1)] claimed(1) LWait r(1) None
        by (intro that(2) [of i]) (auto simp: leafRecord_def settledObs_def)
    qed
  qed
next
  case (LInvoke nm f input options)
  then obtain out where out: "obs = ObsValue out" "Invoke E None ec nm f input options w = (out, ec', w')"
    using run by (auto simp: runLeaf_def map_prod_def split: prod.splits)
  have "claimThen E (\<lambda>ec i w. Some (runInvoke E ec i nm f input options None w)) ec w = Some (out, ec', w')"
    using operations_claim(3) [of E ec nm f input options w] out(2) by simp
  from this operations_keepIDs(3) show ?thesis
  proof (cases rule: claimThen_run)
    case (claimed i ec1 ec2)
    then show ?thesis
      using runInvoke_post [OF ok, of ec1 i nm f input options out ec2 w'] LInvoke out(1)
      by (intro that(2) [of i]) (auto simp: leafRecord_def settledObs_def)
  qed (use out(1) that(1) in \<open>auto simp: settledObs_def\<close>)
next
  case (LCondition nm check cfg)
  then obtain out where out: "obs = ObsValue out" "WaitForCondition n E None ec nm check cfg w = Some (out, ec', w')"
    using run by (auto simp: runLeaf_def)
  show ?thesis
  proof (cases "cc_WaitStrategy cfg")
    case None
    then show ?thesis using out that(1) by (auto simp: WaitForCondition_def settledObs_def outcomeSettled_def)
  next
    case (Some strategy)
    have "claimThen E (\<lambda>ec i. runWaitForCondition n E ec i nm check strategy cfg) ec w = Some (out, ec', w')"
      using operations_claim(4) [OF Some, of n E ec nm check w] out(2) by simp
    from this operations_keepIDs(4) show ?thesis
    proof (cases rule: claimThen_run)
      case (claimed i ec1 ec2)
      then show ?thesis
        using runWaitForCondition_post [OF ok claimed(2)] lf LCondition out(1) Some
        by (intro that(2) [of i]) (auto simp: leafOk_def leafRecord_def settledObs_def conditionPost_def)
    qed (use out(1) that(1) in \<open>auto simp: settledObs_def\<close>)
  qed
qed

end

end
