(* ===== verification/Callback_Op.thy ===== *)
theory Callback_Op
  imports Handler_Ops
begin

text \<open>
  Callbacks (callback.go): CreateCallback records a callback the service hands
  an identifier for, its future settles with the record an external system or
  a timeout made terminal, and WaitForCallback runs both halves inside a child
  context: the callback at the first position, the submitter step at the
  second.  The future of a callback is watched from its first Result on.
\<close>

section \<open>Options\<close>

text \<open>
  The subtype and the serializer are the resolved ones; the zero value is what
  an empty submission decodes to.
\<close>

record 'v callbackOptions =
  cbo_timeout :: int
  cbo_heartbeatTimeout :: int
  cbo_retryStrategy :: "goErr \<Rightarrow> int \<Rightarrow> bool \<times> int"
  cbo_serdes :: "'v serdes"
  cbo_zero :: 'v
  cbo_subType :: string

definition callbackSeconds :: "'w engine \<Rightarrow> string \<Rightarrow> int \<Rightarrow> goErr + int" where
  "callbackSeconds E label d =
     (if d = 0 then Inr 0
      else case durationToSeconds (eng_durationText E) d of
        Inl e \<Rightarrow> Inl (Err (KPlain ''wrapError'' (label @ '': '' @ errText e)) [e])
      | Inr sec \<Rightarrow> Inr sec)"

definition buildCallbackOptions :: "'w engine \<Rightarrow> 'v callbackOptions \<Rightarrow> goErr + (int \<times> int) option" where
  "buildCallbackOptions E options =
    (case callbackSeconds E ''timeout'' (cbo_timeout options) of Inl e \<Rightarrow> Inl e
     | Inr timeout \<Rightarrow>
        (case callbackSeconds E ''heartbeat timeout'' (cbo_heartbeatTimeout options) of Inl e \<Rightarrow> Inl e
         | Inr heartbeat \<Rightarrow> Inr (if timeout = 0 \<and> heartbeat = 0 then None else Some (timeout, heartbeat))))"

section \<open>A callback\<close>

text \<open>A future is settled, watches the record once awaited, or settles only with a suspension.\<close>

datatype 'v callbackFuture = CbSettled "goErr + 'v" | CbPending | CbUnfinished

record 'v callback =
  cbk_id :: string
  cbk_future :: "'v callbackFuture"

definition callbackIDOf :: "operation option \<Rightarrow> string" where
  "callbackIDOf po = (case po of None \<Rightarrow> ''''
     | Some op \<Rightarrow> (case op_callback op of None \<Rightarrow> '''' | Some d \<Rightarrow> cb_callbackID d))"

definition callbackUpdate :: "'w engine \<Rightarrow> execContext \<Rightarrow> string \<Rightarrow> string \<Rightarrow> string \<Rightarrow> operationAction \<Rightarrow> operationUpdate" where
  "callbackUpdate E ec i nm subType act = operationBaseUpdate E ec i nm subType OperationTypeCallback act"

definition noCallbackDetails :: "string \<Rightarrow> goErr" where
  "noCallbackDetails nm = Err (KPlain ''errorString''
     (''durable: callback '' @ goQuote nm @ '': SUCCEEDED but no callback details'')) []"

definition resolveCallbackSuccess :: "'w engine \<Rightarrow> operation \<Rightarrow> string \<Rightarrow> string \<Rightarrow> 'v callbackOptions \<Rightarrow> 'w \<Rightarrow> 'v callback \<times> 'w" where
  "resolveCallbackSuccess E op i nm options w = (case op_callback op of
      None \<Rightarrow> (\<lparr> cbk_id = '''', cbk_future = CbSettled (Inl (noCallbackDetails nm)) \<rparr>, w)
    | Some d \<Rightarrow>
        if cb_result d = '''' then (\<lparr> cbk_id = cb_callbackID d, cbk_future = CbSettled (Inr (cbo_zero options)) \<rparr>, w)
        else (case sz_unmarshal (cbo_serdes options) i (cb_result d) of
            Inl c \<Rightarrow> (let (e, w') = serdesFailure E nm ''unmarshal'' c w
                     in (\<lparr> cbk_id = cb_callbackID d, cbk_future = CbSettled (Inl e) \<rparr>, w'))
          | Inr out \<Rightarrow> (\<lparr> cbk_id = cb_callbackID d, cbk_future = CbSettled (Inr out) \<rparr>, w)))"

definition callbackFailure :: "operation \<Rightarrow> string \<Rightarrow> goErr" where
  "callbackFailure op nm =
    (let rec = (case op_callback op of None \<Rightarrow> noError | Some d \<Rightarrow> cb_record d)
     in if op_status op = statusTimedOut then newCallbackTimeoutError nm (callbackIDOf (Some op)) rec
        else newCallbackExternalError nm (callbackIDOf (Some op)) rec)"

definition resolveCallbackFailure :: "operation \<Rightarrow> string \<Rightarrow> 'v callback" where
  "resolveCallbackFailure op nm =
     \<lparr> cbk_id = callbackIDOf (Some op), cbk_future = CbSettled (Inl (callbackFailure op nm)) \<rparr>"

definition unexpectedCallbackStatus :: "string \<Rightarrow> operation \<Rightarrow> goErr" where
  "unexpectedCallbackStatus nm op = Err (KPlain ''errorString''
     (''durable: callback '' @ goQuote nm @ '': unexpected checkpointed status '' @ operationStatus_string (op_status op))) []"

definition observeCallbackOutcome :: "'w engine \<Rightarrow> operation \<Rightarrow> string \<Rightarrow> string \<Rightarrow> 'v callbackOptions \<Rightarrow> 'w \<Rightarrow> (goErr + 'v) \<times> 'w" where
  "observeCallbackOutcome E op i nm options w = (case op_status op of
      statusSucceeded \<Rightarrow> (case resolveCallbackSuccess E op i nm options w of
          (cb, w') \<Rightarrow> (case cbk_future cb of CbSettled r \<Rightarrow> r | _ \<Rightarrow> Inr (cbo_zero options), w'))
    | statusFailed \<Rightarrow> (Inl (callbackFailure op nm), w)
    | statusTimedOut \<Rightarrow> (Inl (callbackFailure op nm), w)
    | _ \<Rightarrow> (Inl (unexpectedCallbackStatus nm op), w))"

definition createCallbackError :: "string \<Rightarrow> goErr \<Rightarrow> goErr" where
  "createCallbackError nm e =
     Err (KPlain ''wrapError'' (''durable: CreateCallback '' @ goQuote nm @ '': '' @ errText e)) [e]"

definition createClaimedCallback :: "'w engine \<Rightarrow> execContext \<Rightarrow> string \<Rightarrow> string \<Rightarrow> 'v callbackOptions \<Rightarrow> 'w \<Rightarrow>
    (goErr + 'v callback) \<times> 'w" where
  "createClaimedCallback E ec i nm options w =
    (let po = eng_get E w i in
     case validateReplayConsistency po OperationTypeCallback (cbo_subType options) nm of
       Some e \<Rightarrow> (Inl e, w)
     | None \<Rightarrow>
        if unfinishedInSucceededContext ec po
        then (Inr \<lparr> cbk_id = callbackIDOf po, cbk_future = CbUnfinished \<rparr>, w)
        else (case po of
            Some op \<Rightarrow> (case op_status op of
                statusSucceeded \<Rightarrow> (case resolveCallbackSuccess E op i nm options w of (cb, w') \<Rightarrow> (Inr cb, w'))
              | statusFailed \<Rightarrow> (Inr (resolveCallbackFailure op nm), w)
              | statusTimedOut \<Rightarrow> (Inr (resolveCallbackFailure op nm), w)
              | statusStarted \<Rightarrow> (Inr \<lparr> cbk_id = callbackIDOf po, cbk_future = CbPending \<rparr>, w)
              | statusPending \<Rightarrow> (Inr \<lparr> cbk_id = callbackIDOf po, cbk_future = CbPending \<rparr>, w)
              | _ \<Rightarrow> (Inl (unexpectedCallbackStatus nm op), w))
          | None \<Rightarrow> (case buildCallbackOptions E options of
                Inl e \<Rightarrow> (Inl (createCallbackError nm e), w)
              | Inr wire \<Rightarrow>
                  (let u = (callbackUpdate E ec i nm (cbo_subType options) OperationActionStart) \<lparr> ou_CallbackOptions := wire \<rparr>
                   in case eng_checkpoint E [u] w of
                        (Some e, w') \<Rightarrow> (Inl (checkpointFailure e), w')
                      | (None, w') \<Rightarrow>
                          (Inr \<lparr> cbk_id = callbackIDOf (eng_get E w' i), cbk_future = CbPending \<rparr>, w')))))"

definition CreateCallback :: "'w engine \<Rightarrow> goErr option \<Rightarrow> execContext \<Rightarrow> string \<Rightarrow> 'v callbackOptions \<Rightarrow> 'w \<Rightarrow>
    (goErr + string \<times> 'v callback) \<times> execContext \<times> 'w" where
  "CreateCallback E callerErr ec nm options w =
    (case claimOperation E callerErr ec w of
       (Inl e, ec1) \<Rightarrow> (Inl e, ec1, w)
     | (Inr i, ec1) \<Rightarrow> (case createClaimedCallback E ec1 i nm options w of
          (Inl e, w') \<Rightarrow> (Inl e, ec1, w') | (Inr cb, w') \<Rightarrow> (Inr (i, cb), ec1, w')))"

text \<open>
  Result of the callback at position i.  A pending future parks a branch on the
  record; an unfinished one never settles unless the invocation suspends.
\<close>

definition callbackOutcome :: "'w engine \<Rightarrow> string \<Rightarrow> string \<Rightarrow> 'v callbackOptions \<Rightarrow> 'v callback \<Rightarrow> 'w \<Rightarrow> ((goErr + 'v) \<times> 'w) option" where
  "callbackOutcome E i nm options cb w = (case cbk_future cb of
      CbSettled r \<Rightarrow> Some (r, w)
    | CbPending \<Rightarrow> (case eng_await E i terminalRecord w of
          (Inl e, w') \<Rightarrow> Some (Inl e, w')
        | (Inr op, w') \<Rightarrow> Some (observeCallbackOutcome E op i nm options w'))
    | CbUnfinished \<Rightarrow> (case eng_park E w of
          (True, w') \<Rightarrow> Some (Inl (sentinelErr errSuspendExecution), w') | (False, w') \<Rightarrow> None))"

definition callbackResult :: "'w engine \<Rightarrow> execContext \<Rightarrow> string \<Rightarrow> string \<Rightarrow> 'v callbackOptions \<Rightarrow> 'v callback \<Rightarrow> 'w \<Rightarrow>
    ((goErr + 'v) \<times> execContext \<times> 'w) option" where
  "callbackResult E ec i nm options cb w = (case callbackOutcome E i nm options cb w of None \<Rightarrow> None
     | Some (out, w') \<Rightarrow> Some (out, observeOutcome E i (case out of Inl e \<Rightarrow> Some e | Inr _ \<Rightarrow> None) w' ec, w'))"

section \<open>WaitForCallback\<close>

definition wfcbContextUpdate :: "'w engine \<Rightarrow> execContext \<Rightarrow> string \<Rightarrow> string \<Rightarrow> operationAction \<Rightarrow> operationUpdate" where
  "wfcbContextUpdate E ec i nm act = operationBaseUpdate E ec i nm ''WaitForCallback'' OperationTypeContext act"

definition rawSerdes :: "string serdes" where
  "rawSerdes = \<lparr> sz_marshal = (\<lambda>i v. Inr v), sz_unmarshal = (\<lambda>i s. Inr s) \<rparr>"

definition innerCallbackOptions :: "'v callbackOptions \<Rightarrow> string callbackOptions" where
  "innerCallbackOptions options =
     \<lparr> cbo_timeout = cbo_timeout options, cbo_heartbeatTimeout = cbo_heartbeatTimeout options,
       cbo_retryStrategy = cbo_retryStrategy options, cbo_serdes = rawSerdes, cbo_zero = '''',
       cbo_subType = cbo_subType options \<rparr>"

definition submitterStepOptions :: "unit serdes \<Rightarrow> 'v callbackOptions \<Rightarrow> unit stepOptions" where
  "submitterStepOptions voidSerdes options =
     \<lparr> so_retry = cbo_retryStrategy options, so_serdes = voidSerdes, so_semantics = AtLeastOncePerRetry, so_subType = ''Step'' \<rparr>"

text \<open>The submitter gets the callback's identifier; the body returns the submitted bytes.\<close>

definition runWaitForCallbackBody :: "nat \<Rightarrow> 'w engine \<Rightarrow> execContext \<Rightarrow> unit serdes \<Rightarrow> (string \<Rightarrow> (unit, 'w) stepBody) \<Rightarrow>
    'v callbackOptions \<Rightarrow> 'w \<Rightarrow> ((goErr + string) \<times> 'w) option" where
  "runWaitForCallbackBody n E child voidSerdes submitter options w =
    (case CreateCallback E None child '''' (innerCallbackOptions options) w of
       (Inl e, _, w1) \<Rightarrow> Some (Inl e, w1)
     | (Inr (j, cb), child1, w1) \<Rightarrow>
        (case Step n E None child1 '''' (submitter (cbk_id cb)) (submitterStepOptions voidSerdes options) w1 of
           None \<Rightarrow> None
         | Some (Inl e, _, w2) \<Rightarrow> Some (Inl e, w2)
         | Some (Inr _, child2, w2) \<Rightarrow>
             map_option (\<lambda>(out, _, w3). (out, w3)) (callbackResult E child2 j '''' (innerCallbackOptions options) cb w2)))"

definition decodeWaitForCallbackResult :: "'w engine \<Rightarrow> 'v callbackOptions \<Rightarrow> string \<Rightarrow> string \<Rightarrow> string \<Rightarrow> 'w \<Rightarrow> (goErr + 'v) \<times> 'w" where
  "decodeWaitForCallbackResult E options i nm submitted w =
     (if submitted = '''' then (Inr (cbo_zero options), w)
      else decodeLiveResult E (cbo_serdes options) i nm submitted w)"

definition wfcbMapError :: "string \<Rightarrow> goErr \<Rightarrow> goErr" where
  "wfcbMapError nm e = (case e of Err k cs \<Rightarrow> (case k of
      KCallbackTimeout _ cid r hb \<Rightarrow> Err (KCallbackTimeout nm cid r hb) cs
    | KCallbackExternal _ cid r \<Rightarrow> Err (KCallbackExternal nm cid r) cs
    | KCallbackSubmitter _ cid r \<Rightarrow> Err (KCallbackSubmitter nm cid r) cs
    | KCallback _ cid r \<Rightarrow> Err (KCallback nm cid r) cs
    | KStep _ _ r \<Rightarrow> newCallbackSubmitterError nm '''' r
    | _ \<Rightarrow> e))"

text \<open>The failure record: the error's own, with the message of an operation error.\<close>

definition wfcbErrorObject :: "goErr \<Rightarrow> errorObject" where
  "wfcbErrorObject e =
    (let eo = errorObjectFromRecord (recordOf e)
     in case operationErrorOf e of None \<Rightarrow> eo | Some (_, r) \<Rightarrow> eo \<lparr> eo_ErrorMessage := Some (er_message r) \<rparr>)"

definition wfcbFailedError :: "'w engine \<Rightarrow> operation \<Rightarrow> string \<Rightarrow> string \<Rightarrow> 'w \<Rightarrow> goErr" where
  "wfcbFailedError E op i nm w =
    (let cbOp = eng_get E w (i @ ''-1''); stepOp = eng_get E w (i @ ''-2'');
         fromRecord = (let rec = (case op_childCtx op of
               None \<Rightarrow> noError \<lparr> er_errType := ''Error'', er_message := ''wait-for-callback failed'' \<rparr>
             | Some cd \<Rightarrow> cd_record cd)
           in if isCallbackTimeoutType (er_errType rec) then newCallbackTimeoutError nm '''' rec
              else if er_errType rec = ''CallbackExternalError'' \<or> er_errType rec = ''CallbackError''
              then newCallbackExternalError nm '''' rec
              else if er_errType rec = ''CallbackSubmitterError'' then newCallbackSubmitterError nm '''' rec
              else newChildContextError nm rec);
         fromStep = (case stepOp of None \<Rightarrow> fromRecord
           | Some so \<Rightarrow> (case op_step so of None \<Rightarrow> fromRecord
              | Some sd \<Rightarrow> if op_status so = statusFailed
                          then newCallbackSubmitterError nm (callbackIDOf cbOp) (sd_record sd) else fromRecord))
     in case cbOp of None \<Rightarrow> fromStep
        | Some co \<Rightarrow> (case op_callback co of None \<Rightarrow> fromStep
           | Some d \<Rightarrow>
              if op_status co = statusTimedOut then newCallbackTimeoutError nm (cb_callbackID d) (cb_record d)
              else if op_status co = statusFailed then newCallbackExternalError nm (cb_callbackID d) (cb_record d)
              else fromStep))"

definition wfcbNoDetails :: "string \<Rightarrow> goErr" where
  "wfcbNoDetails nm = Err (KPlain ''errorString''
     (''durable: WaitForCallback '' @ goQuote nm @ '': checkpointed SUCCEEDED has no context details'')) []"

definition wfcbUnexpectedStatus :: "string \<Rightarrow> operation \<Rightarrow> goErr" where
  "wfcbUnexpectedStatus nm op = Err (KPlain ''errorString''
     (''durable: WaitForCallback '' @ goQuote nm @ '': unexpected status '' @ operationStatus_string (op_status op))) []"

text \<open>The settling of the body: its failure recorded under the name of the failure mode, or its bytes.\<close>

definition settleWaitForCallback :: "'w engine \<Rightarrow> execContext \<Rightarrow> string \<Rightarrow> string \<Rightarrow> 'v callbackOptions \<Rightarrow> goErr + string \<Rightarrow>
    'w \<Rightarrow> (goErr + 'v) \<times> 'w" where
  "settleWaitForCallback E ec i nm options submitted w = (case submitted of
      Inl fnErr \<Rightarrow>
        if errors_Is fnErr errSuspendExecution then (Inl fnErr, w)
        else let e = wfcbMapError nm fnErr;
                 u = (wfcbContextUpdate E ec i nm OperationActionFail) \<lparr> ou_Error := Some (wfcbErrorObject e) \<rparr>
             in (case eng_checkpoint E [u] w of
                   (Some ce, w') \<Rightarrow> (Inl (checkpointFailure ce), w') | (None, w') \<Rightarrow> (Inl e, w'))
    | Inr serialized \<Rightarrow>
        (case decodeWaitForCallbackResult E options i nm serialized w of (out, w1) \<Rightarrow>
          if (case out of Inl e \<Rightarrow> isSerdesInvocationEnd e | Inr _ \<Rightarrow> False) then (out, w1)
          else let u = (wfcbContextUpdate E ec i nm OperationActionSucceed) \<lparr> ou_Payload := Some serialized \<rparr>
               in (case eng_checkpoint E [u] w1 of
                     (Some ce, w2) \<Rightarrow> (Inl (checkpointFailure ce), w2) | (None, w2) \<Rightarrow> (out, w2))))"

definition runWaitForCallbackLive :: "nat \<Rightarrow> 'w engine \<Rightarrow> execContext \<Rightarrow> string \<Rightarrow> string \<Rightarrow> unit serdes \<Rightarrow>
    (string \<Rightarrow> (unit, 'w) stepBody) \<Rightarrow> 'v callbackOptions \<Rightarrow> operation option \<Rightarrow> 'w \<Rightarrow> ((goErr + 'v) \<times> 'w) option" where
  "runWaitForCallbackLive n E ec i nm voidSerdes submitter options po w =
    (case (if po = None then eng_checkpointNoWait E (wfcbContextUpdate E ec i nm OperationActionStart) w else (None, w)) of
       (Some ce, w1) \<Rightarrow> Some (Inl (checkpointFailure ce), w1)
     | (None, w1) \<Rightarrow>
        (case runWaitForCallbackBody n E (ec_child i (childReplayMode E i po w1) ec) voidSerdes submitter options w1 of
           None \<Rightarrow> None
         | Some (submitted, w2) \<Rightarrow> Some (settleWaitForCallback E ec i nm options submitted w2)))"

definition runClaimedWaitForCallback :: "nat \<Rightarrow> 'w engine \<Rightarrow> execContext \<Rightarrow> string \<Rightarrow> string \<Rightarrow> unit serdes \<Rightarrow>
    (string \<Rightarrow> (unit, 'w) stepBody) \<Rightarrow> 'v callbackOptions \<Rightarrow> 'w \<Rightarrow> ((goErr + 'v) \<times> execContext \<times> 'w) option" where
  "runClaimedWaitForCallback n E ec i nm voidSerdes submitter options w =
    (let po = eng_get E w i;
         live = map_option (\<lambda>(out, w'). (out, ec, w')) (runWaitForCallbackLive n E ec i nm voidSerdes submitter options po w)
     in case validateReplayConsistency po OperationTypeContext ''WaitForCallback'' nm of
          Some e \<Rightarrow> Some (Inl e, ec, w)
        | None \<Rightarrow>
           if unfinishedInSucceededContext ec po
           then (case parkUnfinishedReplay E ec po i OperationTypeContext ''WaitForCallback'' nm w of
                   (e, ec', w') \<Rightarrow> Some (Inl e, ec', w'))
           else (case po of None \<Rightarrow> live
              | Some op \<Rightarrow> (case op_status op of
                  statusSucceeded \<Rightarrow> (case op_childCtx op of
                      None \<Rightarrow> Some (Inl (wfcbNoDetails nm), ec, w)
                    | Some cd \<Rightarrow> (case decodeWaitForCallbackResult E options i nm (cd_result cd) w of
                         (out, w') \<Rightarrow> Some (out, ec, w')))
                | statusFailed \<Rightarrow> Some (Inl (wfcbFailedError E op i nm w), ec, w)
                | statusStarted \<Rightarrow> live
                | statusPending \<Rightarrow> live
                | statusReady \<Rightarrow> live
                | _ \<Rightarrow> Some (Inl (wfcbUnexpectedStatus nm op), ec, w))))"

definition WaitForCallback :: "nat \<Rightarrow> 'w engine \<Rightarrow> goErr option \<Rightarrow> execContext \<Rightarrow> string \<Rightarrow> unit serdes \<Rightarrow>
    (string \<Rightarrow> (unit, 'w) stepBody) \<Rightarrow> 'v callbackOptions \<Rightarrow> 'w \<Rightarrow> ((goErr + 'v) \<times> execContext \<times> 'w) option" where
  "WaitForCallback n E callerErr ec nm voidSerdes submitter options w =
    (case claimOperation E callerErr ec w of
       (Inl e, ec1) \<Rightarrow> Some (Inl e, ec1, w)
     | (Inr i, ec1) \<Rightarrow>
        (case runClaimedWaitForCallback n E ec1 i nm voidSerdes submitter options w of None \<Rightarrow> None
         | Some (out, ec2, w') \<Rightarrow>
             Some (out, observeOutcome E i (case out of Inl e \<Rightarrow> Some e | Inr _ \<Rightarrow> None) w' ec2, w')))"

section \<open>The outcome of a callback\<close>

text \<open>What a terminal record replays to is what the branch that watched it returned.\<close>

definition callbackSettled :: "operation \<Rightarrow> bool" where
  "callbackSettled op \<longleftrightarrow> op_status op \<in> {statusSucceeded, statusFailed, statusTimedOut}"

text \<open>Creating a callback again and reading its result, without any effect.\<close>

definition callbackReplays :: "'w engine \<Rightarrow> execContext \<Rightarrow> string \<Rightarrow> string \<Rightarrow> 'v callbackOptions \<Rightarrow> goErr + 'v \<Rightarrow> 'w \<Rightarrow> bool" where
  "callbackReplays E ec i nm options out w = (case createClaimedCallback E ec i nm options w of
      (Inl e, w') \<Rightarrow> out = Inl e \<and> w' = w
    | (Inr cb, w') \<Rightarrow> w' = w \<and> callbackOutcome E i nm options cb w = Some (out, w))"

lemma observeCallbackOutcome_stable:
  assumes "observeCallbackOutcome E op i nm options w = (out, w')" and "\<And>e. out = Inl e \<Longrightarrow> \<not> infra e"
  shows "w' = w" "observeCallbackOutcome E2 op i nm options w2 = (out, w2)"
  using assms
  by (auto simp: observeCallbackOutcome_def resolveCallbackSuccess_def serdesFailure_def infra_def Let_def
      split: operationStatus.splits option.splits sum.splits if_splits)

lemma observeCallbackOutcome_core:
  assumes "core op' = core op"
  shows "observeCallbackOutcome E op' i nm options w = observeCallbackOutcome E op i nm options w"
proof -
  have "resolveCallbackSuccess E op' i nm options w = resolveCallbackSuccess E op i nm options w"
    "callbackFailure op' nm = callbackFailure op nm" "unexpectedCallbackStatus nm op' = unexpectedCallbackStatus nm op"
    by (simp_all add: resolveCallbackSuccess_def callbackFailure_def callbackIDOf_def unexpectedCallbackStatus_def
        Let_def core_facts [OF assms])
  then show ?thesis by (simp only: observeCallbackOutcome_def core_facts(1) [OF assms])
qed

lemma terminal_callback_replays:
  assumes op: "eng_get E w i = Some op" "identityOf op = (OperationTypeCallback, cbo_subType options, nm)" "status_terminal (op_status op)"
    and obs: "observeCallbackOutcome E op i nm options w = (out, w)"
  shows "callbackReplays E ec i nm options out w"
proof -
  have "\<not> unfinishedInSucceededContext ec (Some op)" using op(3) by (simp add: unfinishedInSucceededContext_def)
  then show ?thesis
    using op(3) obs validate_identity [OF op(2)]
    by (cases "op_status op")
       (auto simp: callbackReplays_def createClaimedCallback_def op(1) callbackOutcome_def observeCallbackOutcome_def
          resolveCallbackSuccess_def resolveCallbackFailure_def Let_def split: option.splits sum.splits prod.splits if_splits)
qed

context durable_engine begin

lemma callbackOutcome_record:
  assumes ok: "ok w" and st: "callbackOutcome E i nm options \<lparr> cbk_id = cid, cbk_future = CbPending \<rparr> w = Some (out, w')"
    and "\<And>e. out = Inl e \<Longrightarrow> \<not> infra e"
  obtains op where "eng_get E w' i = Some op" "status_terminal (op_status op)"
    "observeCallbackOutcome E op i nm options w' = (out, w')" "others i w w'" "evolves (eng_get E w i) (eng_get E w' i)"
proof -
  obtain a w1 where a: "eng_await E i terminalRecord w = (a, w1)" by fastforce
  show ?thesis
  proof (cases a)
    case (Inl e)
    then have "out = Inl e" using st a by (simp add: callbackOutcome_def)
    then show ?thesis using await_err [OF ok, of i terminalRecord e w1] a Inl assms(3) by simp
  next
    case (Inr op)
    have o: "observeCallbackOutcome E op i nm options w1 = (out, w')" using st a Inr by (simp add: callbackOutcome_def)
    note s = observeCallbackOutcome_stable [OF o assms(3)]
    have "eng_get E w1 i = Some op" "terminalRecord (Some op)" using await_ready [OF ok] a Inr by auto
    moreover have "evolves (eng_get E w i) (eng_get E w1 i)" by (rule await_evolves [OF ok a])
    ultimately show ?thesis
      using that [of op] s(1) s(2) [of E w1] others_await [OF ok a] by (simp add: terminalRecord_def)
  qed
qed

text \<open>What a callback does to the log: its own record only.\<close>

lemma resolveCallbackSuccess_others:
  assumes "ok w" and "resolveCallbackSuccess E op i nm options w = (cb, w')"
  shows "others j w w'"
  using assms others_refl others_serdes [OF assms(1)]
  by (fastforce simp: resolveCallbackSuccess_def split: option.splits sum.splits prod.splits if_splits)

lemma createClaimedCallback_others:
  assumes ok: "ok w" and st: "createClaimedCallback E ec i nm options w = (r, w')"
  shows "others i w w'"
proof -
  have live: "others i w w'" if none: "eng_get E w i = None"
    and h: "(case buildCallbackOptions E options of
                Inl e \<Rightarrow> (Inl (createCallbackError nm e), w)
              | Inr wire \<Rightarrow>
                  (let u = (callbackUpdate E ec i nm (cbo_subType options) OperationActionStart) \<lparr> ou_CallbackOptions := wire \<rparr>
                   in case eng_checkpoint E [u] w of
                        (Some e, w') \<Rightarrow> (Inl (checkpointFailure e), w')
                      | (None, w') \<Rightarrow>
                          (Inr \<lparr> cbk_id = callbackIDOf (eng_get E w' i), cbk_future = CbPending \<rparr>, w'))) = (r, w')"
  proof (cases "buildCallbackOptions E options")
    case (Inl e)
    then show ?thesis using h others_refl [OF ok] by simp
  next
    case (Inr wire)
    let ?u = "(callbackUpdate E ec i nm (cbo_subType options) OperationActionStart) \<lparr> ou_CallbackOptions := wire \<rparr>"
    obtain e w1 where c: "eng_checkpoint E [?u] w = (e, w1)" by fastforce
    have "others i w w1"
      by (rule others_checkpoint [OF ok c]) (use none in \<open>simp_all add: callbackUpdate_def plainUpdate_def terminalRecord_def\<close>)
    then show ?thesis using h Inr c by (auto simp: Let_def split: option.splits)
  qed
  show ?thesis
  proof (cases "eng_get E w i")
    case None
    show ?thesis
      using st None live [OF None] others_refl [OF ok]
      by (simp add: createClaimedCallback_def Let_def split: if_splits option.splits)
  next
    case (Some op)
    then show ?thesis
      using st others_refl [OF ok] resolveCallbackSuccess_others [OF ok]
      by (auto simp: createClaimedCallback_def Let_def split: if_splits option.splits operationStatus.splits prod.splits)
  qed
qed

lemma observeCallbackOutcome_others:
  assumes ok: "ok w" and "observeCallbackOutcome E op i nm options w = (out, w')"
  shows "others j w w'"
  using assms(2) others_refl [OF ok] resolveCallbackSuccess_others [OF ok]
  by (auto simp: observeCallbackOutcome_def split: operationStatus.splits prod.splits)

lemma callbackOutcome_others:
  assumes ok: "ok w" and st: "callbackOutcome E i nm options cb w = Some (out, w')"
  shows "others j w w'"
proof (cases "cbk_future cb")
  case (CbSettled r)
  then show ?thesis using st others_refl [OF ok] by (simp add: callbackOutcome_def)
next
  case CbPending
  obtain a w1 where a: "eng_await E i terminalRecord w = (a, w1)" by fastforce
  have o: "others j w w1" by (rule others_await [OF ok a])
  show ?thesis
    using st CbPending a o observeCallbackOutcome_others [OF others_ok [OF o], of _ i nm options out w' j] others_trans [OF o]
    by (auto simp: callbackOutcome_def split: sum.splits)
next
  case CbUnfinished
  then show ?thesis
    using st others_park [OF ok] by (auto simp: callbackOutcome_def split: prod.splits bool.splits)
qed

end

section \<open>What WaitForCallback records\<close>

definition wfcbSucceeded :: "'w engine \<Rightarrow> string \<Rightarrow> string \<Rightarrow> 'v callbackOptions \<Rightarrow> 'v \<Rightarrow> 'w \<Rightarrow> bool" where
  "wfcbSucceeded E i nm options v w \<longleftrightarrow> (case eng_get E w i of None \<Rightarrow> False
     | Some op \<Rightarrow> identityOf op = (OperationTypeContext, ''WaitForCallback'', nm) \<and> op_status op = statusSucceeded \<and>
         (case op_childCtx op of None \<Rightarrow> False
          | Some cd \<Rightarrow> if cd_result cd = '''' then v = cbo_zero options
                      else sz_unmarshal (cbo_serdes options) i (cd_result cd) = Inr v))"

lemma wfcbUpdate_child: "wfcbContextUpdate E ec i nm act = childUpdate E ec i nm ''WaitForCallback'' act"
  by (simp add: wfcbContextUpdate_def childUpdate_def)

lemma runClaimedWaitForCallback_replay:
  assumes "wfcbSucceeded E i nm options v w"
  shows "runClaimedWaitForCallback n E ec i nm voidSerdes submitter options w = Some (Inr v, ec, w)"
proof -
  obtain op cd where op: "eng_get E w i = Some op" "identityOf op = (OperationTypeContext, ''WaitForCallback'', nm)"
    "op_status op = statusSucceeded" "op_childCtx op = Some cd"
    "if cd_result cd = '''' then v = cbo_zero options else sz_unmarshal (cbo_serdes options) i (cd_result cd) = Inr v"
    using assms by (auto simp: wfcbSucceeded_def split: option.splits)
  then show ?thesis
    using validate_identity [OF op(2)]
    by (auto simp: runClaimedWaitForCallback_def unfinishedInSucceededContext_def decodeWaitForCallbackResult_def
        decodeLiveResult_def Let_def split: if_splits)
qed

lemma wfcbSucceeded_evolves:
  assumes "wfcbSucceeded E i nm options v w" and ev: "evolves (eng_get E w i) (eng_get E w' i)"
  shows "wfcbSucceeded E i nm options v w'"
proof -
  obtain op where op: "eng_get E w i = Some op" "status_terminal (op_status op)"
    using assms(1) by (auto simp: wfcbSucceeded_def split: option.splits)
  then obtain op' where op': "eng_get E w' i = Some op'" "core op' = core op"
    using ev by (auto simp: evolves_def split: option.splits)
  show ?thesis
    using assms(1) unfolding wfcbSucceeded_def op(1) op'(1) option.case core_facts(1,2,7) [OF op'(2)] .
qed

lemma wfcbSucceeded_holds: "holds E w w2 \<Longrightarrow> wfcbSucceeded E i nm options v w \<Longrightarrow> wfcbSucceeded E i nm options v w2"
proof -
  assume h: "holds E w w2" and s: "wfcbSucceeded E i nm options v w"
  then obtain op where "eng_get E w i = Some op" "status_terminal (op_status op)"
    by (auto simp: wfcbSucceeded_def split: option.splits)
  then show ?thesis using wfcbSucceeded_evolves [OF s] holds_evolves [OF h] by blast
qed

context durable_engine begin

lemma runWaitForCallbackBody_within:
  assumes ok: "ok w" and ids: "ec_ids child = ids_child i"
    and st: "runWaitForCallbackBody n E child voidSerdes submitter options w = Some (r, w')"
    and sz: "serdesErrorsOk voidSerdes" and q: "\<And>cid. quietBody E ok (submitter cid)"
  shows "outside (region (ids_child i)) w w'"
proof -
  obtain c child1 w1 where c: "CreateCallback E None child '''' (innerCallbackOptions options) w = (c, child1, w1)"
    by (metis prod.collapse)
  have c1: "outside (region (ids_child i)) w w1 \<and>
     (\<forall>j cb. c = Inr (j, cb) \<longrightarrow> j \<in> region (ids_child i) \<and> region (ec_ids child1) \<subseteq> region (ids_child i))"
  proof (cases "claimOperation E None child w")
    case (Pair cl ec1)
    show ?thesis
    proof (cases cl)
      case (Inl e)
      then show ?thesis using c Pair outside_refl [OF ok] by (auto simp: CreateCallback_def)
    next
      case (Inr j)
      have n: "ids_next (ids_child i) = (j, ec_ids ec1)" using claimOperation_id [of E child w j ec1] Pair Inr ids by simp
      obtain r2 w2 where r2: "createClaimedCallback E ec1 j '''' (innerCallbackOptions options) w = (r2, w2)" by fastforce
      have "outside (region (ids_child i)) w w2"
        using createClaimedCallback_others [OF ok r2] region_next [OF n] others_outside by blast
      then show ?thesis
        using c Pair Inr r2 region_next [OF n] by (auto simp: CreateCallback_def split: sum.splits)
    qed
  qed
  show ?thesis
  proof (cases c)
    case (Inl e)
    then show ?thesis using st c c1 by (simp add: runWaitForCallbackBody_def)
  next
    case (Inr jc)
    obtain j cb where jc: "jc = (j, cb)" by (cases jc)
    have j: "j \<in> region (ids_child i)" "region (ec_ids child1) \<subseteq> region (ids_child i)" using c1 Inr jc by auto
    have ok1: "ok w1" using c1 outside_ok by blast
    obtain out child2 w2 where s: "Step n E None child1 '''' (submitter (cbk_id cb)) (submitterStepOptions voidSerdes options) w1 =
        Some (out, child2, w2)"
      using st c Inr jc by (auto simp: runWaitForCallbackBody_def split: option.splits)
    have "outside (region (ids_child i)) w1 w2"
    proof -
      from s [unfolded operations_claim] operations_keepIDs(1) show ?thesis
      proof (cases rule: claimThen_run)
        case unclaimed
        then show ?thesis using outside_refl [OF ok1] by simp
      next
        case (claimed k ec1 ec2)
        have "others k w1 w2"
          using runStep_post [OF ok1 claimed(2)] sz q by (auto simp: submitterStepOptions_def)
        then show ?thesis using region_next [OF claimed(1)] j(2) others_outside by blast
      qed
    qed
    then have o2: "outside (region (ids_child i)) w w2" using c1 outside_trans by blast
    show ?thesis
    proof (cases out)
      case (Inl e)
      then show ?thesis using st c Inr jc s o2 by (simp add: runWaitForCallbackBody_def)
    next
      case v: (Inr u)
      obtain out3 w3 where "callbackOutcome E j '''' (innerCallbackOptions options) cb w2 = Some (out3, w3)" "w' = w3"
        using st c Inr jc s v by (auto simp: runWaitForCallbackBody_def callbackResult_def split: option.splits)
      then have "outside (region (ids_child i)) w2 w'"
        using callbackOutcome_others [OF outside_ok [OF o2]] j(1) others_outside by blast
      then show ?thesis by (rule outside_trans [OF o2])
    qed
  qed
qed

lemma settleWaitForCallback_post:
  assumes ok: "ok w" and st: "settleWaitForCallback E ec i nm options submitted w = (out, w')"
    and live: "liveAt E OperationTypeContext i w" and sz: "serdesErrorsOk (cbo_serdes options)"
  shows "others i w w' \<and> (\<forall>v. out = Inr v \<longrightarrow> wfcbSucceeded E i nm options v w')"
proof (cases submitted)
  case (Inl fnErr)
  show ?thesis
  proof (cases "errors_Is fnErr errSuspendExecution")
    case True
    then show ?thesis using st Inl others_refl [OF ok] by (auto simp: settleWaitForCallback_def)
  next
    case False
    let ?u = "(wfcbContextUpdate E ec i nm OperationActionFail) \<lparr> ou_Error := Some (wfcbErrorObject (wfcbMapError nm fnErr)) \<rparr>"
    obtain ce w1 where c: "eng_checkpoint E [?u] w = (ce, w1)" by fastforce
    have "others i w w1"
      by (rule child_checkpoint(1) [OF ok c _ _ _ live]) (simp_all add: wfcbContextUpdate_def plainUpdate_def)
    then show ?thesis using st Inl False c by (auto simp: settleWaitForCallback_def Let_def split: option.splits)
  qed
next
  case (Inr serialized)
  obtain o1 w1 where d: "decodeWaitForCallbackResult E options i nm serialized w = (o1, w1)" by fastforce
  have dp: "others i w w1 \<and> evolves (eng_get E w i) (eng_get E w1 i)"
  proof (cases "serialized = ''''")
    case True
    then show ?thesis using d others_refl [OF ok] by (auto simp: decodeWaitForCallbackResult_def)
  next
    case False
    then show ?thesis using d decodeLiveResult_post(1) [OF ok _ sz] by (simp add: decodeWaitForCallbackResult_def)
  qed
  have dv: "if serialized = '''' then v = cbo_zero options else sz_unmarshal (cbo_serdes options) i serialized = Inr v"
    if "o1 = Inr v" for v
    using d that by (auto simp: decodeWaitForCallbackResult_def decodeLiveResult_def Let_def split: if_splits sum.splits prod.splits)
  have live1: "liveAt E OperationTypeContext i w1" using liveAt_evolves [OF live] dp by (simp add: selfSettled_def)
  show ?thesis
  proof (cases "case o1 of Inl e \<Rightarrow> isSerdesInvocationEnd e | Inr _ \<Rightarrow> False")
    case True
    then show ?thesis using st Inr d dp by (auto simp: settleWaitForCallback_def split: sum.splits)
  next
    case False
    let ?u = "(wfcbContextUpdate E ec i nm OperationActionSucceed) \<lparr> ou_Payload := Some serialized \<rparr>"
    obtain ce w2 where c: "eng_checkpoint E [?u] w1 = (ce, w2)" by fastforce
    have u: "ou_Id ?u = Some (eng_hash E i)" "ou_Type ?u = OperationTypeContext" "plainUpdate ?u"
      by (simp_all add: wfcbContextUpdate_def plainUpdate_def)
    note ck = child_checkpoint [OF others_ok [OF conjunct1 [OF dp]] c u live1]
    have o: "others i w w2" using dp ck(1) others_trans by blast
    show ?thesis
    proof (cases ce)
      case None
      then have eq: "out = o1" "w' = w2" using st Inr d False c by (simp_all add: settleWaitForCallback_def Let_def)
      have "wfcbSucceeded E i nm options v w2" if "o1 = Inr v" for v
        using ck(3) [OF None] dv [OF that]
        by (auto simp: recorded_def wfcbSucceeded_def wfcbContextUpdate_def split: option.splits)
      then show ?thesis using eq o by simp
    next
      case (Some e)
      then have "out = Inl (checkpointFailure e)" "w' = w2" using st Inr d False c by (simp_all add: settleWaitForCallback_def Let_def)
      then show ?thesis using o by simp
    qed
  qed
qed

lemma runWaitForCallbackLive_post:
  assumes ok: "ok w" and st: "runWaitForCallbackLive n E ec i nm voidSerdes submitter options po w = Some (out, w')"
    and live: "liveAt E OperationTypeContext i w" and sz: "serdesErrorsOk (cbo_serdes options)"
    and vs: "serdesErrorsOk voidSerdes" and q: "\<And>cid. quietBody E ok (submitter cid)"
    and i: "eng_hash E i \<notin> eng_hash E ` region (ids_child i)"
  shows "outside (insert i (region (ids_child i))) w w' \<and> (\<forall>v. out = Inr v \<longrightarrow> wfcbSucceeded E i nm options v w')"
proof -
  obtain c w1 where s: "(if po = None then eng_checkpointNoWait E (wfcbContextUpdate E ec i nm OperationActionStart) w
      else (None, w)) = (c, w1)" by fastforce
  note p = child_start [OF ok s [unfolded wfcbUpdate_child] live]
  show ?thesis
  proof (cases c)
    case (Some e)
    then have "out = Inl (checkpointFailure e)" "w' = w1" using st s by (simp_all add: runWaitForCallbackLive_def)
    then show ?thesis using p others_outside by blast
  next
    case None
    obtain submitted w2 where b: "runWaitForCallbackBody n E (ec_child i (childReplayMode E i po w1) ec) voidSerdes submitter options w1 =
        Some (submitted, w2)" "settleWaitForCallback E ec i nm options submitted w2 = (out, w')"
      using st s None by (auto simp: runWaitForCallbackLive_def split: option.splits)
    have o2: "outside (region (ids_child i)) w1 w2"
      by (rule runWaitForCallbackBody_within [OF others_ok [OF conjunct1 [OF p]] _ b(1) vs q]) (simp add: ec_child_def)
    have "evolves (eng_get E w1 i) (eng_get E w2 i)" using o2 i by (simp add: outside_def)
    then have live2: "liveAt E OperationTypeContext i w2"
      by (rule liveAt_evolves [rotated 2]) (use p in \<open>simp_all add: selfSettled_def\<close>)
    note f = settleWaitForCallback_post [OF outside_ok [OF o2] b(2) live2 sz]
    have "outside (insert i (region (ids_child i))) w w1" "outside (insert i (region (ids_child i))) w1 w2"
      "outside (insert i (region (ids_child i))) w2 w'"
      using p others_outside f outside_mono [OF o2] by blast+
    then show ?thesis using f outside_trans by blast
  qed
qed

text \<open>WaitForCallback keeps to its positions, and a value it returned is in its record.\<close>

lemma runClaimedWaitForCallback_post:
  assumes ok: "ok w" and st: "runClaimedWaitForCallback n E ec i nm voidSerdes submitter options w = Some (out, ec', w')"
    and sz: "serdesErrorsOk (cbo_serdes options)" and vs: "serdesErrorsOk voidSerdes"
    and q: "\<And>cid. quietBody E ok (submitter cid)" and i: "eng_hash E i \<notin> eng_hash E ` region (ids_child i)"
  shows "outside (insert i (region (ids_child i))) w w' \<and> (\<forall>v. out = Inr v \<longrightarrow> wfcbSucceeded E i nm options v w')"
proof -
  let ?po = "eng_get E w i"
  have live: ?thesis if "runWaitForCallbackLive n E ec i nm voidSerdes submitter options ?po w = Some (out, w')"
    "liveAt E OperationTypeContext i w"
    using runWaitForCallbackLive_post [OF ok that sz vs q i] by simp
  show ?thesis
  proof (cases "validateReplayConsistency ?po OperationTypeContext ''WaitForCallback'' nm")
    case (Some e)
    then show ?thesis using st outside_refl [OF ok] by (auto simp: runClaimedWaitForCallback_def)
  next
    case v: None
    show ?thesis
    proof (cases "unfinishedInSucceededContext ec ?po")
      case True
      obtain e ec1 w1 where p: "parkUnfinishedReplay E ec ?po i OperationTypeContext ''WaitForCallback'' nm w = (e, ec1, w1)"
        by (metis prod.collapse)
      have "outside (insert i (region (ids_child i))) w w1" using parkUnfinishedReplay_others [OF ok p] others_outside by blast
      then show ?thesis using st v True p by (auto simp: runClaimedWaitForCallback_def)
    next
      case u: False
      show ?thesis
      proof (cases ?po)
        case None
        then show ?thesis using st v u live by (auto simp: runClaimedWaitForCallback_def Let_def liveAt_def)
      next
        case (Some op)
        have id: "identityOf op = (OperationTypeContext, ''WaitForCallback'', nm)"
          using v types_known [OF ok Some] Some by (intro validated_identity) auto
        have open': "liveAt E OperationTypeContext i w" if "op_status op \<in> {statusStarted, statusPending, statusReady}"
          using that Some id by (auto simp: liveAt_def identityOf_def)
        consider "op_status op = statusSucceeded" "op_childCtx op = None"
          | cd where "op_status op = statusSucceeded" "op_childCtx op = Some cd"
          | "op_status op \<in> {statusStarted, statusPending, statusReady}"
          | "op_status op \<notin> {statusSucceeded, statusStarted, statusPending, statusReady}" by blast
        then show ?thesis
        proof cases
          case 1
          then show ?thesis
            using st v u Some outside_refl [OF ok] by (auto simp: runClaimedWaitForCallback_def Let_def)
        next
          case (2 cd)
          have d: "decodeWaitForCallbackResult E options i nm (cd_result cd) w = (out, w')"
            using st v u Some 2 by (auto simp: runClaimedWaitForCallback_def Let_def split: prod.splits)
          have "outside (insert i (region (ids_child i))) w w'"
          proof (cases "cd_result cd = ''''")
            case True
            then show ?thesis using d outside_refl [OF ok] by (simp add: decodeWaitForCallbackResult_def)
          next
            case False
            then have "decodeLiveResult E (cbo_serdes options) i nm (cd_result cd) w = (out, w')"
              using d by (simp add: decodeWaitForCallbackResult_def)
            then show ?thesis using decodeLiveResult_post(1) [OF ok _ sz] others_outside by blast
          qed
          moreover have "wfcbSucceeded E i nm options v w'" if "out = Inr v" for v
            using d that Some id 2
            by (auto simp: wfcbSucceeded_def decodeWaitForCallbackResult_def decodeLiveResult_def Let_def
                split: if_splits sum.splits prod.splits)
          ultimately show ?thesis by blast
        next
          case 3
          then show ?thesis using st v u Some live open' by (auto simp: runClaimedWaitForCallback_def Let_def)
        next
          case 4
          then show ?thesis
            using st v u Some outside_refl [OF ok]
            by (cases "op_status op") (auto simp: runClaimedWaitForCallback_def Let_def)
        qed
      qed
    qed
  qed
qed

end

section \<open>The claim\<close>

lemma wfcb_claim: "WaitForCallback n E None ec nm voidSerdes submitter options w =
     claimThen E (\<lambda>ec i. runClaimedWaitForCallback n E ec i nm voidSerdes submitter options) ec w"
  by (simp add: WaitForCallback_def claimThen_def)

lemma wfcb_keepsIDs: "keepsIDs (\<lambda>ec i. runClaimedWaitForCallback n E ec i nm voidSerdes submitter options)"
  unfolding keepsIDs_def
proof (intro allI impI)
  fix ec i w out ec' w'
  assume "runClaimedWaitForCallback n E ec i nm voidSerdes submitter options w = Some (out, ec', w')"
  then show "ec_ids ec' = ec_ids ec"
    unfolding runClaimedWaitForCallback_def Let_def
    by (cases "validateReplayConsistency (eng_get E w i) OperationTypeContext ''WaitForCallback'' nm"; cases "eng_get E w i";
        simp split: if_splits prod.splits operationStatus.splits option.splits)
       (auto dest: parkUnfinishedReplay_ids)
qed

end
