(* ===== verification/Handler_Replay.thy ===== *)
theory Handler_Replay
  imports Callback_Op "HOL-Library.Sublist"
begin

text \<open>
  Replay of a whole handler.  A handler is a program over steps, waits,
  invokes, polled conditions, child contexts and WaitForCallback whose
  continuation depends on the outcomes it observed; child contexts run programs
  of their own.  A failed WaitForCallback does not count as recorded: its
  replay is not always the outcome of the first run.  Run
  again on an operation log that still holds what the first run recorded, a
  handler observes the outcomes of the first run again, up to the first one
  that was not recorded, and nothing is executed for them.
\<close>

section \<open>Handlers\<close>

text \<open>A child's function also determines the stack trace captured when its body fails.\<close>

datatype ('v, 'w) prog =
    PReturn "goErr + 'v"
  | POp "('v, 'w) leaf" "'v observed \<Rightarrow> ('v, 'w) prog"
  | PChild string string "'v childOptions" "goErr \<Rightarrow> string list" "('v, 'w) prog" "goErr + 'v \<Rightarrow> ('v, 'w) prog"
  | PCallback string "unit serdes" "string \<Rightarrow> (unit, 'w) stepBody" "'v callbackOptions" "goErr + 'v \<Rightarrow> ('v, 'w) prog"

text \<open>The result, what the handler observed and whether the log holds it, the context and the world.\<close>

type_synonym ('v, 'w) progResult = "((goErr + 'v) \<times> (bool \<times> 'v observed) list \<times> execContext \<times> 'w) option"

definition observe :: "bool \<Rightarrow> 'v observed \<Rightarrow> ('v, 'w) progResult \<Rightarrow> ('v, 'w) progResult" where
  "observe recd x rest = map_option (\<lambda>(r, tr, s). (r, (recd, x) # tr, s)) rest"

definition childBodyOf :: "(goErr \<Rightarrow> string list) \<Rightarrow> (execContext \<Rightarrow> 'w \<Rightarrow> ('v, 'w) progResult) \<Rightarrow> ('v, 'w) childBody" where
  "childBodyOf trace run ec w = map_option (\<lambda>(r, _, s).
     (case r of Inl e \<Rightarrow> Inl (e, trace e) | Inr v \<Rightarrow> Inr v, s)) (run ec w)"

text \<open>The operation the handler runs next is the one at the position its context mints next.\<close>

definition leafHeld :: "'w engine \<Rightarrow> execContext \<Rightarrow> 'v observed \<Rightarrow> 'w \<Rightarrow> bool" where
  "leafHeld E ec obs w \<longleftrightarrow> settledObs obs \<and> terminalRecord (eng_get E w (ids_peek (ec_ids ec)))"

definition childHeld :: "'w engine \<Rightarrow> execContext \<Rightarrow> goErr + 'v \<Rightarrow> 'w \<Rightarrow> bool" where
  "childHeld E ec out w \<longleftrightarrow> outcomeSettled out \<and> storedChild E (ids_peek (ec_ids ec)) w"

primrec runProg :: "nat \<Rightarrow> 'w engine \<Rightarrow> ('v, 'w) prog \<Rightarrow> execContext \<Rightarrow> 'w \<Rightarrow> ('v, 'w) progResult" where
  "runProg n E (PReturn r) = (\<lambda>ec w. Some (r, [], ec, w))"
| "runProg n E (POp lf k) = (\<lambda>ec w.
     case runLeaf n E lf ec w of None \<Rightarrow> None
     | Some (obs, ec', w') \<Rightarrow> observe (leafHeld E ec obs w') obs (runProg n E (k obs) ec' w'))"
| "runProg n E (PChild nm subType options trace body k) = (\<lambda>ec w.
     case RunInChildContext E None ec nm subType options (childBodyOf trace (runProg n E body)) w of None \<Rightarrow> None
     | Some (out, ec', w') \<Rightarrow> observe (childHeld E ec out w') (ObsValue out) (runProg n E (k out) ec' w'))"
| "runProg n E (PCallback nm voidSerdes submitter options k) = (\<lambda>ec w.
     case WaitForCallback n E None ec nm voidSerdes submitter options w of None \<Rightarrow> None
     | Some (out, ec', w') \<Rightarrow> observe (\<not> isl out) (ObsValue out) (runProg n E (k out) ec' w'))"

text \<open>What is asked of the handler: valid subtypes, serializers whose errors are their own, quiet bodies.\<close>

primrec progOk :: "'w engine \<Rightarrow> ('w \<Rightarrow> bool) \<Rightarrow> ('v, 'w) prog \<Rightarrow> bool" where
  "progOk E ok (PReturn r) = True"
| "progOk E ok (POp lf k) = (leafOk E ok lf \<and> (\<forall>out. progOk E ok (k out)))"
| "progOk E ok (PChild nm subType options trace body k) =
     (subType \<noteq> '''' \<and> serdesErrorsOk (co_serdes options) \<and> progOk E ok body \<and> (\<forall>out. progOk E ok (k out)))"
| "progOk E ok (PCallback nm voidSerdes submitter options k) =
     (serdesErrorsOk (cbo_serdes options) \<and> serdesErrorsOk voidSerdes \<and> (\<forall>cid. quietBody E ok (submitter cid)) \<and>
      (\<forall>out. progOk E ok (k out)))"

primrec progPure :: "('v, 'w) prog \<Rightarrow> bool" where
  "progPure (PReturn r) = True"
| "progPure (POp lf k) = (leafPure lf \<and> (\<forall>out. progPure (k out)))"
| "progPure (PChild nm subType options trace body k) =
     (subType \<noteq> '''' \<and> serdesErrorsOk (co_serdes options) \<and> progPure body \<and> (\<forall>out. progPure (k out)))"
| "progPure (PCallback nm voidSerdes submitter options k) =
     (serdesErrorsOk (cbo_serdes options) \<and> serdesErrorsOk voidSerdes \<and> (\<forall>cid. pureBody (submitter cid)) \<and>
      (\<forall>out. progPure (k out)))"

lemma progPure_ok: "progPure p \<Longrightarrow> progOk E ok p"
  by (induction p) (auto simp: leafPure_ok pureBody_quiet)

section \<open>The frame of a handler and the replay\<close>

lemma observe_Some:
  assumes "observe recd x rest = Some (r, tr, s)"
  obtains tr' where "rest = Some (r, tr', s)" "tr = (recd, x) # tr'"
  using assms by (auto simp: observe_def)

context durable_engine begin

text \<open>A child whose body stays below it.\<close>

lemma child_post:
  assumes inj: "inj (eng_hash E)" and ok: "ok w" and run: "RunInChildContext E None ec nm sub options fn w = Some (out, ec', w')"
    and opts: "sub \<noteq> ''''" "serdesErrorsOk (co_serdes options)"
    and b: "\<forall>i. bodyWithin i (region (ids_child i)) fn"
  obtains (refused) "\<not> outcomeSettled out" "ec' = ec" "w' = w"
    | (ran) i where "ids_next (ec_ids ec) = (i, ec_ids ec')" "outside (insert i (region (ids_child i))) w w'"
        "outcomeSettled out \<Longrightarrow> storedChild E i w' \<Longrightarrow> childRecord E i nm sub options out w'"
proof -
  have "claimThen E (\<lambda>ec i. runClaimedChild E ec i nm sub options fn) ec w = Some (out, ec', w')"
    using run by (simp add: operations_claim)
  from this operations_keepIDs(2) show ?thesis
  proof (cases rule: claimThen_run)
    case unclaimed
    then show ?thesis using refused by simp
  next
    case (claimed i ec1 ec2)
    have "eng_hash E i \<notin> eng_hash E ` region (ids_child i)"
      using region_child [OF claimed(1)] inj by (simp add: inj_image_mem_iff)
    then show ?thesis
      using runClaimedChild_post [OF ok claimed(2) _ _ b [rule_format]] opts claimed(1) by (intro ran [of i]) auto
  qed
qed

lemma wfcb_post:
  assumes inj: "inj (eng_hash E)" and ok: "ok w"
    and run: "WaitForCallback n E None ec nm voidSerdes submitter options w = Some (out, ec', w')"
    and opts: "serdesErrorsOk (cbo_serdes options)" "serdesErrorsOk voidSerdes" "\<forall>cid. quietBody E ok (submitter cid)"
  obtains (refused) "isl out" "ec' = ec" "w' = w"
    | (ran) i where "ids_next (ec_ids ec) = (i, ec_ids ec')" "outside (insert i (region (ids_child i))) w w'"
        "\<And>v. out = Inr v \<Longrightarrow> wfcbSucceeded E i nm options v w'"
proof -
  have "claimThen E (\<lambda>ec i. runClaimedWaitForCallback n E ec i nm voidSerdes submitter options) ec w = Some (out, ec', w')"
    using run by (simp add: wfcb_claim)
  from this wfcb_keepsIDs show ?thesis
  proof (cases rule: claimThen_run)
    case unclaimed
    then show ?thesis using refused by simp
  next
    case (claimed i ec1 ec2)
    have "eng_hash E i \<notin> eng_hash E ` region (ids_child i)"
      using region_child [OF claimed(1)] inj by (simp add: inj_image_mem_iff)
    then show ?thesis
      using runClaimedWaitForCallback_post [OF ok claimed(2) opts(1,2)] opts(3) claimed(1) by (intro ran [of i]) auto
  qed
qed

lemma runProg_within:
  assumes inj: "inj (eng_hash E)"
  shows "ok w \<Longrightarrow> progOk E ok p \<Longrightarrow> runProg n E p ec w = Some (r, tr, ec', w') \<Longrightarrow> outside (region (ec_ids ec)) w w'"
proof (induction p arbitrary: ec w r tr ec' w')
  case (PReturn x)
  then show ?case by (simp add: outside_refl)
next
  case (POp lf k)
  obtain out ec1 w1 tr1 where s: "runLeaf n E lf ec w = Some (out, ec1, w1)"
    "runProg n E (k out) ec1 w1 = Some (r, tr1, ec', w')"
    using POp.prems(3) by (auto split: option.splits elim!: observe_Some)
  have rest: "outside (region (ec_ids ec1)) w1 w'" if "ok w1"
    using that POp.prems(2) s(2) by (intro POp.IH) auto
  have "leafOk E ok lf" using POp.prems(2) by simp
  from POp.prems(1) this s(1) show ?case
  proof (cases rule: runLeaf_post)
    case refused
    then show ?thesis using rest POp.prems(1) by simp
  next
    case (ran i)
    have o: "outside (region (ec_ids ec)) w w1" using region_next [OF ran(1)] others_outside ran(2) by blast
    have "outside (region (ec_ids ec)) w1 w'"
      using rest [OF outside_ok [OF o]] region_next [OF ran(1)] outside_mono by blast
    then show ?thesis by (rule outside_trans [OF o])
  qed
next
  case (PChild nm sub options trace body k)
  let ?fn = "childBodyOf trace (runProg n E body)"
  obtain out ec1 w1 tr1 where s: "RunInChildContext E None ec nm sub options ?fn w = Some (out, ec1, w1)"
    "runProg n E (k out) ec1 w1 = Some (r, tr1, ec', w')"
    using PChild.prems(3) by (auto split: option.splits elim!: observe_Some)
  have rest: "outside (region (ec_ids ec1)) w1 w'" if "ok w1"
    using that PChild.prems(2) s(2) by (intro PChild.IH(2)) auto
  have b: "\<forall>i. bodyWithin i (region (ids_child i)) ?fn"
    using PChild.IH(1) PChild.prems(2) by (fastforce simp: bodyWithin_def childBodyOf_def)
  have opts: "sub \<noteq> ''''" "serdesErrorsOk (co_serdes options)" using PChild.prems(2) by auto
  from inj PChild.prems(1) s(1) opts b show ?case
  proof (cases rule: child_post)
    case refused
    then show ?thesis using rest PChild.prems(1) by simp
  next
    case (ran i)
    have o: "outside (region (ec_ids ec)) w w1"
      using ran(2) region_next [OF ran(1)] region_child [OF ran(1)] outside_mono by blast
    have "outside (region (ec_ids ec)) w1 w'"
      using rest [OF outside_ok [OF o]] region_next [OF ran(1)] outside_mono by blast
    then show ?thesis by (rule outside_trans [OF o])
  qed
next
  case (PCallback nm voidSerdes submitter options k)
  obtain out ec1 w1 tr1 where s: "WaitForCallback n E None ec nm voidSerdes submitter options w = Some (out, ec1, w1)"
    "runProg n E (k out) ec1 w1 = Some (r, tr1, ec', w')"
    using PCallback.prems(3) by (auto split: option.splits elim!: observe_Some)
  have rest: "outside (region (ec_ids ec1)) w1 w'" if "ok w1"
    using that PCallback.prems(2) s(2) by (intro PCallback.IH) auto
  have opts: "serdesErrorsOk (cbo_serdes options)" "serdesErrorsOk voidSerdes" "\<forall>cid. quietBody E ok (submitter cid)"
    using PCallback.prems(2) by auto
  from inj PCallback.prems(1) s(1) opts show ?case
  proof (cases rule: wfcb_post)
    case refused
    then show ?thesis using rest PCallback.prems(1) by simp
  next
    case (ran i)
    have o: "outside (region (ec_ids ec)) w w1"
      using ran(2) region_next [OF ran(1)] region_child [OF ran(1)] outside_mono by blast
    have "outside (region (ec_ids ec)) w1 w'"
      using rest [OF outside_ok [OF o]] region_next [OF ran(1)] outside_mono by blast
    then show ?thesis by (rule outside_trans [OF o])
  qed
qed

text \<open>
  One operation whose outcome the log holds: the second run observes it at
  once, and goes on from the same position on the same world.  What the log
  holds does not depend on the engine, only on what it reads.
\<close>

lemma records_same:
  assumes "eng_get E2 = eng_get E"
  shows "childRecord E2 = childRecord E" "storedChild E2 = storedChild E" "leafHeld E2 = leafHeld E"
    "wfcbSucceeded E2 = wfcbSucceeded E"
  by (simp_all add: fun_eq_iff childRecord_def storedChild_def leafHeld_def wfcbSucceeded_def assms)

lemma held_later:
  assumes "inj (eng_hash E)" and "outside S w1 w'" and "i \<notin> S"
  shows "evolves (eng_get E w1 i) (eng_get E w' i)"
  using assms by (simp add: outside_def inj_image_mem_iff)

lemma runProg_replay:
  assumes inj: "inj (eng_hash E)" and same: "eng_get E2 = eng_get E"
  shows "ok w \<Longrightarrow> progOk E ok p \<Longrightarrow> runProg n E p ec w = Some (r, tr, ec', w') \<Longrightarrow> holds E w' w2 \<Longrightarrow>
     canClaim E2 (ec_ids ec) ec2 w2 \<Longrightarrow>
     (list_all fst tr \<longrightarrow> (\<exists>ec2'. runProg (Suc m) E2 p ec2 w2 = Some (r, tr, ec2', w2))) \<and>
     (\<forall>r2 tr2 s2. runProg (Suc m) E2 p ec2 w2 = Some (r2, tr2, s2) \<longrightarrow>
        prefix (map snd (takeWhile fst tr)) (map snd tr2))"
proof (induction p arbitrary: ec w r tr ec' w' ec2)
  case (PReturn x)
  then show ?case by simp
next
  case (POp lf k)
  obtain out ec1 w1 tr1 where s: "runLeaf n E lf ec w = Some (out, ec1, w1)"
    "runProg n E (k out) ec1 w1 = Some (r, tr1, ec', w')" "tr = (leafHeld E ec out w1, out) # tr1"
    using POp.prems(3) by (auto split: option.splits elim!: observe_Some)
  have lf: "leafOk E ok lf" and pk: "progOk E ok (k out)" using POp.prems(2) by auto
  show ?case
  proof (cases "leafHeld E ec out w1")
    case True
    from POp.prems(1) lf s(1) show ?thesis
    proof (cases rule: runLeaf_post)
      case refused
      then show ?thesis using True by (simp add: leafHeld_def)
    next
      case (ran i)
      have pi: "ids_peek (ec_ids ec) = i" using ran(1) by (simp add: ids_peek_next)
      have rec: "leafRecord E i lf out w1" using ran(3) True pi by (simp add: leafHeld_def)
      have "outside (region (ec_ids ec1)) w1 w'"
        by (rule runProg_within [OF inj others_ok [OF ran(2)] pk s(2)])
      then have rec2: "leafRecord E i lf out w2"
        using held_later [OF inj] region_next [OF ran(1)] leafRecord_evolves [OF rec] leafRecord_holds [OF POp.prems(4)] by blast
      then obtain ec4 where again: "runLeaf (Suc m) E2 lf ec2 w2 = Some (out, ec4, w2)" "canClaim E2 (ec_ids ec1) ec4 w2"
        using runLeaf_replay [OF POp.prems(5) ran(1)] leafRecord_same [OF same] by blast
      have "leafHeld E ec2 out w2"
        using True POp.prems(5) pi rec2 by (auto simp: leafHeld_def canClaim_def terminalRecord_def elim: leafRecord_terminal)
      then have "leafHeld E2 ec2 out w2" by (simp add: records_same [OF same])
      then show ?thesis
        using POp.IH [OF _ others_ok [OF ran(2)] pk s(2) POp.prems(4) again(2)] again(1) s(3) True
        by (auto simp: observe_def)
    qed
  qed (use s(3) in simp)
next
  case (PChild nm sub options trace body k)
  let ?fn = "childBodyOf trace (runProg n E body)"
  obtain out ec1 w1 tr1 where s: "RunInChildContext E None ec nm sub options ?fn w = Some (out, ec1, w1)"
    "runProg n E (k out) ec1 w1 = Some (r, tr1, ec', w')" "tr = (childHeld E ec out w1, ObsValue out) # tr1"
    using PChild.prems(3) by (auto split: option.splits elim!: observe_Some)
  have b: "\<forall>i. bodyWithin i (region (ids_child i)) ?fn"
    using runProg_within [OF inj] PChild.prems(2) by (fastforce simp: bodyWithin_def childBodyOf_def)
  have opts: "sub \<noteq> ''''" "serdesErrorsOk (co_serdes options)" and pk: "progOk E ok (k out)" using PChild.prems(2) by auto
  show ?case
  proof (cases "childHeld E ec out w1")
    case True
    from inj PChild.prems(1) s(1) opts b show ?thesis
    proof (cases rule: child_post)
      case refused
      then show ?thesis using True by (simp add: childHeld_def)
    next
      case (ran i)
      have pi: "ids_peek (ec_ids ec) = i" using ran(1) by (simp add: ids_peek_next)
      have st: "storedChild E i w1" using True pi by (simp add: childHeld_def)
      have rec: "childRecord E i nm sub options out w1" using ran(3) st True by (simp add: childHeld_def)
      have "outside (region (ec_ids ec1)) w1 w'" by (rule runProg_within [OF inj outside_ok [OF ran(2)] pk s(2)])
      then have ev: "evolves (eng_get E w1 i) (eng_get E w' i)" using held_later [OF inj] region_next [OF ran(1)] by blast
      have rec': "childRecord E i nm sub options out w'" by (rule childRecord_evolves [OF rec ev])
      have rec2: "childRecord E2 i nm sub options out w2"
        using childRecord_holds [OF PChild.prems(4) rec'] by (simp add: records_same [OF same])
      have ev2: "evolves (eng_get E w' i) (eng_get E w2 i)"
        using rec' holds_evolves [OF PChild.prems(4)] by (meson childRecord_terminal)
      obtain ec4 where "claimThen E2 (\<lambda>ec i. runClaimedChild E2 ec i nm sub options (childBodyOf trace (runProg (Suc m) E2 body))) ec2 w2 =
          Some (out, ec4, w2)" and c4: "canClaim E2 (ec_ids ec1) ec4 w2"
        by (rule claimThen_replay [OF PChild.prems(5) ran(1)]) (rule runClaimedChild_replay [OF rec2])
      then have again: "RunInChildContext E2 None ec2 nm sub options (childBodyOf trace (runProg (Suc m) E2 body)) w2 = Some (out, ec4, w2)"
        by (simp add: operations_claim)
      have "storedChild E i w2" by (rule storedChild_evolves [OF storedChild_evolves [OF st rec ev] rec' ev2])
      then have "childHeld E2 ec2 out w2"
        using True PChild.prems(5) pi by (simp add: childHeld_def canClaim_def records_same [OF same])
      then show ?thesis
        using PChild.IH(2) [OF _ outside_ok [OF ran(2)] pk s(2) PChild.prems(4) c4] again s(3) True
        by (auto simp: observe_def)
    qed
  qed (use s(3) in simp)
next
  case (PCallback nm voidSerdes submitter options k)
  obtain out ec1 w1 tr1 where s: "WaitForCallback n E None ec nm voidSerdes submitter options w = Some (out, ec1, w1)"
    "runProg n E (k out) ec1 w1 = Some (r, tr1, ec', w')" "tr = (\<not> isl out, ObsValue out) # tr1"
    using PCallback.prems(3) by (auto split: option.splits elim!: observe_Some)
  have opts: "serdesErrorsOk (cbo_serdes options)" "serdesErrorsOk voidSerdes" "\<forall>cid. quietBody E ok (submitter cid)"
    and pk: "progOk E ok (k out)" using PCallback.prems(2) by auto
  show ?case
  proof (cases out)
    case (Inr v)
    from inj PCallback.prems(1) s(1) opts show ?thesis
    proof (cases rule: wfcb_post)
      case refused
      then show ?thesis using Inr by simp
    next
      case (ran i)
      have "outside (region (ec_ids ec1)) w1 w'" by (rule runProg_within [OF inj outside_ok [OF ran(2)] pk s(2)])
      then have "wfcbSucceeded E i nm options v w'"
        using held_later [OF inj] region_next [OF ran(1)] wfcbSucceeded_evolves [OF ran(3) [OF Inr]] by blast
      then have rec2: "wfcbSucceeded E2 i nm options v w2"
        using wfcbSucceeded_holds [OF PCallback.prems(4)] by (simp add: records_same [OF same])
      obtain ec4 where "claimThen E2 (\<lambda>ec i. runClaimedWaitForCallback (Suc m) E2 ec i nm voidSerdes submitter options) ec2 w2 =
          Some (Inr v, ec4, w2)" and c4: "canClaim E2 (ec_ids ec1) ec4 w2"
        by (rule claimThen_replay [OF PCallback.prems(5) ran(1)]) (rule runClaimedWaitForCallback_replay [OF rec2])
      then have again: "WaitForCallback (Suc m) E2 None ec2 nm voidSerdes submitter options w2 = Some (Inr v, ec4, w2)"
        by (simp add: wfcb_claim)
      then show ?thesis
        using PCallback.IH [OF _ outside_ok [OF ran(2)] pk s(2) PCallback.prems(4) c4] s(3) Inr
        by (auto simp: observe_def)
    qed
  qed (use s(3) in simp)
qed

end

end
