(* ===== verification/Mem_Engine.thy ===== *)
theory Mem_Engine
  imports Handler_Replay Checkpointer_Trace Service_Sync
begin

text \<open>
  An invocation on the local service.  The engine of one invocation is the
  checkpointer over the execution state, and the in-memory service that answers
  its calls; together they discharge the contract of Engine_Laws.  Calls may be
  refused, their responses may be lost after the service applied them, external
  actors act before any call, and a waiting operation polls a number of times
  before the invocation suspends.  Each operation goroutine runs alone, so the
  flusher empties its queue before the operation goes on.
\<close>

section \<open>The environment of an invocation\<close>

datatype callFault = CallAnswered | CallRefused goErr | ResponseLost goErr

datatype extEvent =
    ExtCompleteCallback string settlement
  | ExtTimeoutCallback string
  | ExtSettleInvoke string settlement

record environment =
  env_hash :: "string \<Rightarrow> string"
  env_durationText :: "int \<Rightarrow> string"
  env_size :: "operationUpdate list \<Rightarrow> nat"
  env_jsonSize :: "errorObject \<Rightarrow> nat"
  env_target :: "string \<Rightarrow> settlement option"
  env_events :: "nat \<Rightarrow> extEvent list"
  env_fault :: "nat \<Rightarrow> callFault"
  env_patience :: "nat \<Rightarrow> nat"
  env_committed :: "nat \<Rightarrow> bool"

record world =
  wd_cp :: checkpointer
  wd_svc :: memoryClient
  wd_calls :: nat
  wd_fired :: bool

definition applyEvent :: "extEvent \<Rightarrow> memoryClient \<Rightarrow> memoryClient" where
  "applyEvent e m = (case e of
      ExtCompleteCallback cid res \<Rightarrow> snd (completeCallback cid res m)
    | ExtTimeoutCallback cid \<Rightarrow> snd (timeoutCallback cid m)
    | ExtSettleInvoke i res \<Rightarrow> snd (settleInvokeByID i res m))"

section \<open>One client call\<close>

definition callService :: "environment \<Rightarrow> operationUpdate list \<Rightarrow> nat \<Rightarrow> memoryClient \<Rightarrow> clientResponse \<times> memoryClient" where
  "callService env us n m =
    (let m1 = fold applyEvent (env_events env n) m in
     case env_fault env n of
       CallRefused e \<Rightarrow> (CallErr e, m1)
     | fault \<Rightarrow> (case mc_Checkpoint (env_jsonSize env) (runTargets (env_target env)) us m1 of
          (Inl e, m2) \<Rightarrow> (CallErr e, m2)
        | (Inr (tok, ops), m2) \<Rightarrow>
            (case fault of ResponseLost e \<Rightarrow> (CallErr e, m2) | _ \<Rightarrow> (CallOk tok (Some ops), m2))))"

text \<open>The flusher's stages on a queue of one batch, and its last look at the empty queue.\<close>

definition deliverReturned :: "checkpointer \<Rightarrow> checkpointer" where
  "deliverReturned cp = (case cp_flusher cp of FlusherReturned b e \<Rightarrow> flush_deliver b e cp | _ \<Rightarrow> cp)"

definition flushBatch :: "environment \<Rightarrow> world \<Rightarrow> world" where
  "flushBatch env w =
    (let cp1 = flush_take (\<lambda>_. None) (wd_cp w) in
     case cp_flusher cp1 of
       FlusherTaken b t \<Rightarrow>
         (let cp2 = flush_check b t cp1 in
          case cp_flusher cp2 of
            FlusherCalling b' _ \<Rightarrow>
              (case callService env (batch_updates b') (wd_calls w) (wd_svc w) of
                 (resp, m) \<Rightarrow> w \<lparr> wd_cp := deliverReturned (flush_response b' resp cp2), wd_svc := m,
                                  wd_calls := wd_calls w + 1 \<rparr>)
          | _ \<Rightarrow> w \<lparr> wd_cp := deliverReturned cp2 \<rparr>)
     | _ \<Rightarrow> w \<lparr> wd_cp := cp1 \<rparr>)"

definition flushQueue :: "environment \<Rightarrow> world \<Rightarrow> world" where
  "flushQueue env w = (let w1 = flushBatch env w in w1 \<lparr> wd_cp := flush_take (\<lambda>_. None) (wd_cp w1) \<rparr>)"

definition deliveredTo :: "nat \<Rightarrow> checkpointer \<Rightarrow> goErr option" where
  "deliveredTo seq cp = (case map_of (rev (cp_delivered cp)) seq of Some r \<Rightarrow> r | None \<Rightarrow> None)"

definition mem_checkpoint :: "environment \<Rightarrow> operationUpdate list \<Rightarrow> world \<Rightarrow> goErr option \<times> world" where
  "mem_checkpoint env us w =
    (case cp_checkpoint us (env_size env us) (wd_cp w) of
       (Some e, cp') \<Rightarrow> (Some e, w \<lparr> wd_cp := cp' \<rparr>)
     | (None, cp') \<Rightarrow> (let w' = flushQueue env (w \<lparr> wd_cp := cp' \<rparr>)
                      in (deliveredTo (cp_nextSeq (wd_cp w)) (wd_cp w'), w')))"

text \<open>A request nobody waits for: only its refusal is seen.\<close>

definition mem_checkpointNoWait :: "environment \<Rightarrow> operationUpdate \<Rightarrow> world \<Rightarrow> goErr option \<times> world" where
  "mem_checkpointNoWait env u w =
    (if cp_terminated (wd_cp w) then (Some (sentinelErr errCheckpointTerminated), w)
     else (None, snd (mem_checkpoint env [u] w)))"

section \<open>The engine\<close>

definition mem_state :: "world \<Rightarrow> executionState" where
  "mem_state w = (case cp_state (wd_cp w) of Some st \<Rightarrow> st | None \<Rightarrow> emptyState)"

definition mem_get :: "environment \<Rightarrow> world \<Rightarrow> string \<Rightarrow> operation option" where
  "mem_get env w i = es_get (env_hash env) (mem_state w) i"

text \<open>A wait ends when the record is ready, or the invocation suspends once its polls changed nothing.\<close>

primrec mem_poll :: "nat \<Rightarrow> environment \<Rightarrow> string \<Rightarrow> (operation option \<Rightarrow> bool) \<Rightarrow> world \<Rightarrow> (goErr + operation) \<times> world" where
  "mem_poll 0 env i ready w =
    (case mem_get env w i of
       Some op \<Rightarrow> if ready (Some op) then (Inr op, w) else (Inl (sentinelErr errSuspendExecution), w \<lparr> wd_fired := True \<rparr>)
     | None \<Rightarrow> (Inl (sentinelErr errSuspendExecution), w \<lparr> wd_fired := True \<rparr>))"
| "mem_poll (Suc n) env i ready w =
    (case mem_get env w i of
       Some op \<Rightarrow> if ready (Some op) then (Inr op, w) else mem_poll n env i ready (snd (mem_checkpoint env [] w))
     | None \<Rightarrow> mem_poll n env i ready (snd (mem_checkpoint env [] w)))"

definition mem_await :: "environment \<Rightarrow> string \<Rightarrow> (operation option \<Rightarrow> bool) \<Rightarrow> world \<Rightarrow> (goErr + operation) \<times> world" where
  "mem_await env i ready w =
    (if wd_fired w then (Inl (sentinelErr errSuspendExecution), w)
     else mem_poll (env_patience env (wd_calls w)) env i ready w)"

definition memEngine :: "environment \<Rightarrow> world engine" where
  "memEngine env =
    \<lparr> eng_hash = env_hash env, eng_durationText = env_durationText env, eng_get = mem_get env,
      eng_hasChildOf = (\<lambda>w. hasChildOf (env_hash env) (mem_state w)),
      eng_newOutcome = (\<lambda>w. newOutcome (env_hash env) (mem_state w)),
      eng_fired = wd_fired, eng_checkpoint = mem_checkpoint env, eng_checkpointNoWait = mem_checkpointNoWait env,
      eng_await = mem_await env, eng_park = (\<lambda>w. (wd_fired w \<or> env_committed env (wd_calls w), w)),
      eng_halt = (\<lambda>e w. w \<lparr> wd_cp := cp_halt e (wd_cp w) \<rparr>) \<rparr>"

lemma memEngine_simps [simp]:
  "eng_hash (memEngine env) = env_hash env" "eng_get (memEngine env) = mem_get env"
  "eng_fired (memEngine env) = wd_fired" "eng_checkpoint (memEngine env) = mem_checkpoint env"
  "eng_checkpointNoWait (memEngine env) = mem_checkpointNoWait env" "eng_await (memEngine env) = mem_await env"
  "eng_park (memEngine env) w = (wd_fired w \<or> env_committed env (wd_calls w), w)"
  "eng_halt (memEngine env) e w = w \<lparr> wd_cp := cp_halt e (wd_cp w) \<rparr>"
  "eng_durationText (memEngine env) = env_durationText env"
  "eng_hasChildOf (memEngine env) w = hasChildOf (env_hash env) (mem_state w)"
  "eng_newOutcome (memEngine env) w = newOutcome (env_hash env) (mem_state w)"
  by (simp_all add: memEngine_def)

section \<open>One checkpoint, seen as a whole\<close>

definition quiet :: "checkpointer \<Rightarrow> bool" where
  "quiet cp \<longleftrightarrow> cp_queue cp = [] \<and> cp_flusher cp = FlusherIdle"

lemma mem_checkpoint_refused:
  "cp_terminated (wd_cp w) \<Longrightarrow> mem_checkpoint env us w = (Some (sentinelErr errCheckpointTerminated), w)"
  by (simp add: mem_checkpoint_def cp_checkpoint_def)

text \<open>What one call did: the view is as before and the checkpointer stopped, or the response was merged.\<close>

lemma mem_checkpoint_call:
  assumes q: "quiet (wd_cp w)" and nt: "\<not> cp_terminated (wd_cp w)"
    and call: "callService env us (wd_calls w) (wd_svc w) = (resp, m)"
    and ck: "mem_checkpoint env us w = (r, w')"
  shows "quiet (wd_cp w')" "wd_svc w' = m" "wd_fired w' = wd_fired w"
    "case resp of
       CallErr e \<Rightarrow> r = Some (classifyCheckpointError e) \<and> cp_terminated (wd_cp w') \<and> cp_state (wd_cp w') = cp_state (wd_cp w)
     | CallOk tok ops \<Rightarrow>
         if tok = '''' then cp_state (wd_cp w') = cp_state (wd_cp w) \<and>
           (if carriesExecutionUpdate us then r = None
            else r = Some (sentinelErr errCheckpointTerminated) \<and> cp_terminated (wd_cp w'))
         else r = None \<and> \<not> cp_terminated (wd_cp w') \<and>
           cp_state (wd_cp w') = (case (cp_state (wd_cp w), ops) of
               (Some st, Some os) \<Rightarrow> Some (es_merge (map operationFromAPI os) st) | (st, _) \<Rightarrow> st)"
proof -
  let ?p = "\<lparr> pc_updates = us, pc_size = env_size env us, pc_final = False, pc_seq = cp_nextSeq (wd_cp w) \<rparr>"
  let ?cp0 = "cp_submit us (env_size env us) False (wd_cp w)"
  have t: "flush_take (\<lambda>_. None) ?cp0 = ?cp0 \<lparr> cp_queue := [], cp_flusher := FlusherTaken [?p] (cp_token (wd_cp w)) \<rparr>"
    using q nt by (simp add: quiet_def cp_submit_def flush_take_def)
  let ?cp1 = "?cp0 \<lparr> cp_queue := [], cp_flusher := FlusherTaken [?p] (cp_token (wd_cp w)) \<rparr>"
  have c: "flush_check [?p] (cp_token (wd_cp w)) ?cp1 =
      ?cp1 \<lparr> cp_flusher := FlusherCalling [?p] (cp_token (wd_cp w)), cp_calls := cp_calls ?cp1 @ [(cp_token (wd_cp w), [?p])] \<rparr>"
    using nt by (simp add: flush_check_def refusal_def cp_submit_def)
  let ?cp2 = "?cp1 \<lparr> cp_flusher := FlusherCalling [?p] (cp_token (wd_cp w)), cp_calls := cp_calls ?cp1 @ [(cp_token (wd_cp w), [?p])] \<rparr>"
  let ?cp3 = "deliverReturned (flush_response [?p] resp ?cp2)"
  have b: "flushBatch env (w \<lparr> wd_cp := ?cp0 \<rparr>) =
      w \<lparr> wd_cp := ?cp3, wd_svc := m, wd_calls := wd_calls w + 1 \<rparr>"
    by (simp add: flushBatch_def Let_def t c batch_updates_def call)
  have eq: "r = deliveredTo (cp_nextSeq (wd_cp w)) (wd_cp w')"
    "w' = w \<lparr> wd_cp := flush_take (\<lambda>_. None) ?cp3, wd_svc := m, wd_calls := wd_calls w + 1 \<rparr>"
    using ck nt by (auto simp: mem_checkpoint_def cp_checkpoint_def flushQueue_def b Let_def)
  show "wd_svc w' = m" "wd_fired w' = wd_fired w" by (simp_all add: eq(2))
  have q0: "cp_queue ?cp3 = []" "cp_flusher ?cp3 = FlusherIdle"
    by (auto simp: deliverReturned_def flush_response_def flush_deliver_def Let_def cp_halt_def cp_terminate_def cp_deliver_def
        split: clientResponse.splits)
  then show "quiet (wd_cp w')" by (simp add: eq(2) quiet_def flush_take_def)
  show "case resp of
       CallErr e \<Rightarrow> r = Some (classifyCheckpointError e) \<and> cp_terminated (wd_cp w') \<and> cp_state (wd_cp w') = cp_state (wd_cp w)
     | CallOk tok ops \<Rightarrow>
         if tok = '''' then cp_state (wd_cp w') = cp_state (wd_cp w) \<and>
           (if carriesExecutionUpdate us then r = None
            else r = Some (sentinelErr errCheckpointTerminated) \<and> cp_terminated (wd_cp w'))
         else r = None \<and> \<not> cp_terminated (wd_cp w') \<and>
           cp_state (wd_cp w') = (case (cp_state (wd_cp w), ops) of
               (Some st, Some os) \<Rightarrow> Some (es_merge (map operationFromAPI os) st) | (st, _) \<Rightarrow> st)"
    using q0 nt unfolding eq
    by (auto simp: flush_take_def deliveredTo_def deliverReturned_def flush_response_def flush_deliver_def Let_def
        cp_halt_def cp_terminate_def cp_deliver_def cp_submit_def batch_updates_def split: clientResponse.splits)
qed

section \<open>What the service does to its records\<close>

definition svcRec :: "memoryClient \<Rightarrow> string \<Rightarrow> operation option" where
  "svcRec m i = map_option operationFromAPI (mc_operations m i)"

definition svc_evolves :: "memoryClient \<Rightarrow> memoryClient \<Rightarrow> bool" where
  "svc_evolves m m' \<longleftrightarrow> (\<forall>i. evolves (svcRec m i) (svcRec m' i))"

lemma svc_evolves_refl [simp]: "svc_evolves m m"
  by (simp add: svc_evolves_def)

lemma svc_evolves_trans: "svc_evolves a b \<Longrightarrow> svc_evolves b c \<Longrightarrow> svc_evolves a c"
  unfolding svc_evolves_def using evolves_trans by blast

lemma operationFromAPI_fields [simp]:
  "op_opType (operationFromAPI a) = ao_Type a" "op_subType (operationFromAPI a) = toString (ao_SubType a)"
  "op_name (operationFromAPI a) = toString (ao_Name a)"
  by (simp_all add: operationFromAPI_def Let_def setTimestamps_def newOperation_def)

lemma operationFromAPI_step:
  "op_step (operationFromAPI a) = map_option (\<lambda>sd. \<lparr> sd_attempt = asd_Attempt sd,
     sd_nextAttempt = (case asd_NextAttemptTimestamp sd of Some t \<Rightarrow> t | None \<Rightarrow> zeroTime),
     sd_result = toString (asd_Result sd), sd_record = record_of_api (asd_Error sd) \<rparr>) (ao_StepDetails a)"
  by (simp add: operationFromAPI_def Let_def setTimestamps_def newOperation_def split: option.split)

lemma api_evolves:
  assumes "ao_Type b = ao_Type a" and "ao_SubType b = ao_SubType a" and "ao_Name b = ao_Name a"
    and "ao_StepDetails b = ao_StepDetails a" and "\<not> status_terminal (ao_Status a)"
    and "selfSettled (ao_Type a) \<Longrightarrow> \<not> status_terminal (ao_Status b)"
  shows "evolves (Some (operationFromAPI a)) (Some (operationFromAPI b))"
  using assms by (simp add: evolves_def identityOf_def attemptOf_def operationFromAPI_step)

lemma storeSettled_evolves:
  assumes wf: "mc_wf m" and "mc_operations m i = Some op" and "ao_Id op' = ao_Id op"
    and "ao_Type op' = ao_Type op" and "ao_SubType op' = ao_SubType op" and "ao_Name op' = ao_Name op"
    and "ao_StepDetails op' = ao_StepDetails op" and "\<not> status_terminal (ao_Status op)" and "\<not> selfSettled (ao_Type op)"
  shows "svc_evolves m (storeSettled op' m)"
proof -
  have "toString (ao_Id op') = i" using known_id [OF wf assms(2)] assms(3) by simp
  then show ?thesis
    using assms by (auto simp: svc_evolves_def svcRec_def storeSettled_operations intro!: api_evolves)
qed

lemma findCallbackByID_callback:
  "findCallbackByID cid m = Some (i, op) \<Longrightarrow> ao_Type op = OperationTypeCallback"
  by (auto simp: findCallbackByID_def dest!: firstSome_Some split: option.splits if_splits)

lemma completeCallback_evolves: "mc_wf m \<Longrightarrow> svc_evolves m (snd (completeCallback cid res m))"
  by (auto simp: completeCallback_def Let_def selfSettled_def findCallbackByID_callback
      intro!: storeSettled_evolves [OF _ findCallbackByID_known] split: option.split settlement.split)

lemma timeoutCallback_evolves: "mc_wf m \<Longrightarrow> svc_evolves m (snd (timeoutCallback cid m))"
  by (auto simp: timeoutCallback_def selfSettled_def findCallbackByID_callback
      intro!: storeSettled_evolves [OF _ findCallbackByID_known] split: option.split)

lemma settleInvokeByID_evolves: "mc_wf m \<Longrightarrow> svc_evolves m (snd (settleInvokeByID i res m))"
  by (auto simp: settleInvokeByID_def selfSettled_def intro!: storeSettled_evolves
      split: option.split settlement.split)

lemma fired_evolves:
  "timerDue (Some op) = Some d \<Longrightarrow> evolves (Some (operationFromAPI op)) (Some (operationFromAPI (fired t op)))"
  using timerDue_timed [of op d] by (intro api_evolves) (auto simp: fired_def selfSettled_def)

lemma advanceTimers_evolves:
  assumes wf: "mc_wf m" shows "svc_evolves m (advanceTimers ex m)"
  unfolding svc_evolves_def
proof
  fix i
  show "evolves (svcRec m i) (svcRec (advanceTimers ex m) i)"
  proof (cases "firing ex m i")
    case True
    then obtain op d where "mc_operations m i = Some op" "timerDue (Some op) = Some d"
      using firing_known [OF wf True] by (auto simp: firing_def)
    then show ?thesis
      using True fired_evolves by (simp add: svcRec_def advanceTimers_operations [OF wf])
  qed (simp add: svcRec_def advanceTimers_operations [OF wf])
qed

lemma applyEvent_wf: "mc_wf m \<Longrightarrow> mc_wf (applyEvent e m)"
  by (simp add: applyEvent_def callback_caller.act_wf callback_timeout.act_wf invoke_target.act_wf split: extEvent.split)

lemma applyEvent_evolves: "mc_wf m \<Longrightarrow> svc_evolves m (applyEvent e m)"
  by (simp add: applyEvent_def completeCallback_evolves timeoutCallback_evolves settleInvokeByID_evolves split: extEvent.split)

lemma applyEvent_sync: "mc_wf m \<Longrightarrow> in_sync st m \<Longrightarrow> in_sync st (applyEvent e m)"
  by (simp add: applyEvent_def callback_caller.act_sync callback_timeout.act_sync invoke_target.act_sync split: extEvent.split)

lemma applyEvents_facts:
  "mc_wf m \<Longrightarrow> mc_wf (fold applyEvent es m) \<and> svc_evolves m (fold applyEvent es m) \<and>
     (in_sync st m \<longrightarrow> in_sync st (fold applyEvent es m))"
proof (induction es arbitrary: m)
  case (Cons e es)
  then show ?case
    using applyEvent_wf applyEvent_evolves svc_evolves_trans applyEvent_sync by simp blast
qed simp

lemma runTargets_evolves: "mc_wf m \<Longrightarrow> svc_evolves m (runTargets outcome ids m)"
proof (induction ids arbitrary: m)
  case (Cons i ids)
  let ?m = "case outcome i of None \<Rightarrow> m | Some s \<Rightarrow> snd (settleInvokeByID i s m)"
  have "mc_wf ?m" "svc_evolves m ?m"
    using Cons.prems invoke_target.act_wf settleInvokeByID_evolves by (auto split: option.split)
  then show ?case using Cons.IH [of ?m] svc_evolves_trans by (auto simp: runTargets_def)
qed (simp add: runTargets_def)

section \<open>What a checkpoint does to the records\<close>

text \<open>Records the service keeps: known types, attempts from 0, and steps and contexts that only succeed or fail.\<close>

definition recOk :: "operation \<Rightarrow> bool" where
  "recOk op \<longleftrightarrow> 0 \<le> attemptOf (Some op) \<and> knownType (op_opType op) \<and>
     (selfSettled (op_opType op) \<longrightarrow> status_terminal (op_status op) \<longrightarrow> op_status op = statusSucceeded \<or> op_status op = statusFailed)"

definition logOk :: "(string \<Rightarrow> operation option) \<Rightarrow> bool" where
  "logOk log \<longleftrightarrow> (\<forall>i op. log i = Some op \<longrightarrow> recOk op)"

lemma recOk_evolves:
  assumes ok: "recOk op" and ev: "evolves (Some op) (Some op')" shows "recOk op'"
proof -
  have e: "op_opType op' = op_opType op" "attemptOf (Some op') = attemptOf (Some op)"
    "status_terminal (op_status op) \<Longrightarrow> core op' = core op"
    "selfSettled (op_opType op) \<Longrightarrow> status_terminal (op_status op') = status_terminal (op_status op)"
    using ev identity_type [of op' op] by (simp_all add: evolves_def)
  have "op_status op' = statusSucceeded \<or> op_status op' = statusFailed"
    if s: "selfSettled (op_opType op)" "status_terminal (op_status op')"
  proof -
    have t: "status_terminal (op_status op)" using e(4) s by simp
    then have "op_status op' = op_status op" by (rule core_facts(1) [OF e(3)])
    then show ?thesis using ok s t by (simp add: recOk_def)
  qed
  then show ?thesis using ok unfolding recOk_def e(1,2) by blast
qed

lemma logOk_evolves:
  assumes ok: "logOk a" and ev: "\<And>i. evolves (a i) (b i)" shows "logOk b"
  unfolding logOk_def
proof (intro allI impI)
  fix i op assume b: "b i = Some op"
  obtain op0 where a: "a i = Some op0" using ev [of i] b by (auto simp: evolves_def split: option.splits)
  then show "recOk op" using ok ev [of i] b recOk_evolves by (auto simp: logOk_def)
qed

text \<open>What only depends on the core of a record.\<close>

lemma core_attempt: "core op' = core op \<Longrightarrow> attemptOf (Some op') = attemptOf (Some op)"
  using core_facts(3) [of op' op] by (auto simp: attemptOf_def split: option.splits)

lemma recOk_core: "core op' = core op \<Longrightarrow> recOk op' = recOk op"
  using core_attempt [of op' op] core_facts(1,2) [of op' op] by (simp add: recOk_def identityOf_def)

lemma evolves_core:
  assumes "map_option core a = map_option core a'" and "map_option core b = map_option core b'" and "evolves a b"
  shows "evolves a' b'"
proof (cases a)
  case None
  then have "a' = None" "b' = None" using assms by (auto simp: evolves_def)
  then show ?thesis by simp
next
  case (Some x)
  then obtain y where y: "b = Some y" "identityOf y = identityOf x" "attemptOf (Some y) = attemptOf (Some x)"
    "status_terminal (op_status x) \<Longrightarrow> core y = core x"
    "selfSettled (op_opType x) \<Longrightarrow> status_terminal (op_status y) = status_terminal (op_status x)"
    using assms(3) by (auto simp: evolves_def split: option.splits)
  obtain x' y' where x': "a' = Some x'" "core x' = core x" and y': "b' = Some y'" "core y' = core y"
    using assms(1,2) Some y(1) by (cases a'; cases b') (simp_all add: eq_commute)
  have t: "op_opType x' = op_opType x" using core_facts(2) [OF x'(2)] by (simp add: identityOf_def)
  have c: "core y' = core x'" if "status_terminal (op_status x')"
  proof -
    have "core y = core x" using y(4) that core_facts(1) [OF x'(2)] by simp
    then show ?thesis using x'(2) y'(2) by simp
  qed
  show ?thesis
    unfolding evolves_def x'(1) y'(1) option.case core_facts(2) [OF x'(2)] core_facts(2) [OF y'(2)] t
      core_attempt [OF x'(2)] core_attempt [OF y'(2)]
    using y(2,3,5) c core_facts(1) [OF x'(2)] core_facts(1) [OF y'(2)] by simp
qed

lemma recorded_core:
  assumes "core op' = core op" and "recorded u old (Some op)"
  shows "recorded u old (Some op')"
proof -
  have s: "\<exists>a t. op_step op' = Some \<lparr> sd_attempt = a, sd_nextAttempt = t, sd_result = r, sd_record = e \<rparr>"
    if h: "\<exists>a t. op_step op = Some \<lparr> sd_attempt = a, sd_nextAttempt = t, sd_result = r, sd_record = e \<rparr>" for r e
  proof -
    obtain sd0 where "op_step op = Some sd0" "sd_result sd0 = r" "sd_record sd0 = e" using h by auto
    then obtain sd where sd: "op_step op' = Some sd" "sd_result sd = r" "sd_record sd = e"
      using core_facts(4,5) [OF assms(1)] by auto
    then show ?thesis by (cases sd) simp
  qed
  show ?thesis
    using assms(2) s core_facts(1,2,7) [OF assms(1)] core_attempt [OF assms(1)] by (simp add: recorded_def)
qed

text \<open>The record an update makes.\<close>

lemma updatedRecord_recorded:
  assumes "ou_Type u \<in> {OperationTypeStep, OperationTypeWait, OperationTypeContext}"
    and "attemptOf old = attemptOf (map_option operationFromAPI existing)"
  shows "recorded u old (Some (operationFromAPI (updatedRecord u existing t)))"
  using assms(1)
proof (elim insertE emptyE)
  assume ty: "ou_Type u = OperationTypeStep"
  have st: "op_step (operationFromAPI (updatedRecord u existing t)) =
      Some \<lparr> sd_attempt = asd_Attempt (buildStepDetails u existing t),
        sd_nextAttempt = (case asd_NextAttemptTimestamp (buildStepDetails u existing t) of Some t \<Rightarrow> t | None \<Rightarrow> zeroTime),
        sd_result = toString (ou_Payload u), sd_record = record_of_api (ou_Error u) \<rparr>"
    by (simp add: operationFromAPI_step updatedRecord_def Let_def ty buildStepDetails_def)
  have at: "asd_Attempt (buildStepDetails u existing t) =
      attemptOf old + (if ou_Action u \<in> {OperationActionFail, OperationActionRetry} then 1 else 0)"
    using assms(2) by (auto simp: buildStepDetails_def attemptOf_def operationFromAPI_step Let_def split: option.splits)
  show ?thesis
    using at st by (auto simp: recorded_def identityOf_def ty attemptOf_def deriveStatus_def)
next
  assume ty: "ou_Type u = OperationTypeWait"
  have "op_step (operationFromAPI (updatedRecord u existing t)) = None"
    by (simp add: operationFromAPI_step updatedRecord_def Let_def ty)
  then show ?thesis by (auto simp: recorded_def identityOf_def ty attemptOf_def deriveStatus_def)
next
  assume ty: "ou_Type u = OperationTypeContext"
  have "op_step (operationFromAPI (updatedRecord u existing t)) = None"
    by (simp add: operationFromAPI_step updatedRecord_def Let_def ty)
  moreover have "op_childCtx (operationFromAPI (updatedRecord u existing t)) =
      Some \<lparr> cd_result = toString (ou_Payload u), cd_replayChildren = (ou_ReplayChildren u = Some True),
        cd_record = record_of_api (ou_Error u) \<rparr>"
    by (simp add: operationFromAPI_def updatedRecord_def buildContextDetails_def Let_def ty setTimestamps_def newOperation_def)
  ultimately show ?thesis by (auto simp: recorded_def identityOf_def ty attemptOf_def deriveStatus_def)
qed

lemma updatedRecord_ok:
  assumes "plainUpdate u" and "\<And>op. existing = Some op \<Longrightarrow> recOk (operationFromAPI op)"
  shows "recOk (operationFromAPI (updatedRecord u existing t))"
proof -
  have "0 \<le> attemptOf (Some (operationFromAPI (updatedRecord u existing t)))"
  proof (cases "ou_Type u = OperationTypeStep")
    case True
    have "attemptOf (map_option operationFromAPI existing) \<ge> 0"
      using assms(2) by (cases existing) (auto simp: recOk_def attemptOf_def)
    then show ?thesis
      using updatedRecord_recorded [of u "map_option operationFromAPI existing" existing t] True by (simp add: recorded_def)
  next
    case False
    then show ?thesis
      by (cases "ou_Type u") (simp_all add: attemptOf_def operationFromAPI_step updatedRecord_def Let_def)
  qed
  then show ?thesis using assms(1) by (auto simp: recOk_def plainUpdate_def deriveStatus_def)
qed

abbreviation updateIds :: "operationUpdate list \<Rightarrow> string set" where
  "updateIds us \<equiv> (\<lambda>u. toString (ou_Id u)) ` set us"

lemma applyUpdates_log:
  "applyUpdates us m = (ops, m') \<Longrightarrow> (\<And>u. u \<in> set us \<Longrightarrow> plainUpdate u) \<Longrightarrow> logOk (svcRec m) \<Longrightarrow> logOk (svcRec m')"
proof (induction us arbitrary: m ops)
  case (Cons u us)
  obtain op m1 ops2 where eq: "applyUpdate u m = (op, m1)" "applyUpdates us m1 = (ops2, m')"
    using Cons.prems(1) by (auto split: prod.splits)
  have "recOk (operationFromAPI op)"
    unfolding applyUpdate_facts(1) [OF eq(1)]
    by (rule updatedRecord_ok) (use Cons.prems(2,3) in \<open>auto simp: logOk_def svcRec_def\<close>)
  then have "logOk (svcRec m1)"
    using Cons.prems(3) by (auto simp: logOk_def svcRec_def applyUpdate_facts(2) [OF eq(1)] split: if_splits)
  then show ?case using Cons.IH [OF eq(2)] Cons.prems(2) by simp
qed simp

text \<open>Everything the service does after it applied the updates of a request.\<close>

lemma mc_Checkpoint_after:
  assumes wf: "mc_wf m" and ck: "mc_Checkpoint js (runTargets outcome) us m = (Inr (tok, ops), m')"
  obtains updated m1 where "applyUpdates us m = (updated, m1)" "mc_wf m1" "mc_wf m'" "svc_evolves m1 m'"
    "\<And>u. us = [u] \<Longrightarrow> ou_Type u \<noteq> OperationTypeChainedInvoke \<Longrightarrow>
       mc_operations m' (toString (ou_Id u)) = mc_operations m1 (toString (ou_Id u))"
proof -
  obtain updated m1 m2 m3 where p: "applyUpdates us m = (updated, m1)"
    "m2 = (if startedInvokes us = [] then m1 else runTargets outcome (startedInvokes us) m1)"
    "m3 = (if us = [] \<or> reportsFinishedWork us then advanceTimers (\<lambda>i. i \<in> set (map (\<lambda>u. toString (ou_Id u)) us)) m2 else m2)"
    "mc_operations m' = mc_operations m3" "mc_opOrder m' = mc_opOrder m3" "mc_changed m' = []"
    using mc_Checkpoint_parts [OF ck] by metis
  have wf1: "mc_wf m1" by (rule applyUpdates_wf [OF wf p(1)])
  have wf2: "mc_wf m2" "svc_evolves m1 m2"
    using wf1 targets.act_wf runTargets_evolves by (auto simp: p(2))
  have "mc_wf m3" using advanceTimers_wf [OF wf2(1)] wf2(1) by (simp add: p(3))
  then have wf': "mc_wf m'" by (simp add: mc_wf_def p(4-6))
  have "svc_evolves m2 m3" using advanceTimers_evolves [OF wf2(1)] by (simp add: p(3))
  then have "svc_evolves m1 m3" using wf2(2) svc_evolves_trans by blast
  then have ev: "svc_evolves m1 m'" by (simp add: svc_evolves_def svcRec_def p(4))
  show ?thesis
  proof (rule that [OF p(1) wf1 wf' ev])
    fix u assume u: "us = [u]" "ou_Type u \<noteq> OperationTypeChainedInvoke"
    then have "m2 = m1" by (simp add: p(2) startedInvokes_def)
    moreover have "mc_operations m3 (toString (ou_Id u)) = mc_operations m2 (toString (ou_Id u))"
      by (simp add: p(3) advanceTimers_operations [OF wf2(1)] firing_def u(1))
    ultimately show "mc_operations m' (toString (ou_Id u)) = mc_operations m1 (toString (ou_Id u))"
      by (simp add: p(4))
  qed
qed

text \<open>Either the request was applied, or the store only saw the events.\<close>

lemma callService_cases:
  assumes wf: "mc_wf m" and c: "callService env us n m = (resp, m')"
  obtains (untouched) e where "resp = CallErr e" "mc_wf m'" "svc_evolves m m'"
  | (applied) tok ops m1 where "mc_wf m1" "svc_evolves m m1" "\<And>st. in_sync st m \<Longrightarrow> in_sync st m1"
      "mc_Checkpoint (env_jsonSize env) (runTargets (env_target env)) us m1 = (Inr (tok, ops), m')"
      "(\<exists>e. resp = CallErr e) \<or> resp = CallOk tok (Some ops)"
proof -
  let ?m1 = "fold applyEvent (env_events env n) m"
  have f: "mc_wf ?m1" "svc_evolves m ?m1" "\<And>st. in_sync st m \<Longrightarrow> in_sync st ?m1"
    using applyEvents_facts [OF wf] by blast+
  obtain r m2 where ck: "mc_Checkpoint (env_jsonSize env) (runTargets (env_target env)) us ?m1 = (r, m2)" by fastforce
  have err: "r = Inl a \<Longrightarrow> m2 = ?m1" for a using ck mc_Checkpoint_error by blast
  show ?thesis
  proof (cases "env_fault env n")
    case (CallRefused e)
    then have "resp = CallErr e" "m' = ?m1" using c by (simp_all add: callService_def Let_def)
    then show ?thesis using f(1,2) by (intro untouched) simp_all
  next
    case CallAnswered
    show ?thesis
    proof (cases r)
      case (Inl a)
      then have "resp = CallErr a" "m' = ?m1" using c ck err CallAnswered by (auto simp: callService_def Let_def)
      then show ?thesis using f(1,2) by (intro untouched) simp_all
    next
      case (Inr p)
      then show ?thesis using c ck CallAnswered by (cases p) (auto simp: callService_def Let_def intro!: applied [OF f])
    qed
  next
    case (ResponseLost e)
    show ?thesis
    proof (cases r)
      case (Inl a)
      then have "resp = CallErr a" "m' = ?m1" using c ck err ResponseLost by (auto simp: callService_def Let_def)
      then show ?thesis using f(1,2) by (intro untouched) simp_all
    next
      case (Inr p)
      then show ?thesis using c ck ResponseLost by (cases p) (auto simp: callService_def Let_def intro!: applied [OF f])
    qed
  qed
qed

lemma callService_log:
  assumes wf: "mc_wf m" and c: "callService env us n m = (resp, m')"
  shows "mc_wf m'" "i \<notin> updateIds us \<Longrightarrow> evolves (svcRec m i) (svcRec m' i)"
    "(\<And>u. u \<in> set us \<Longrightarrow> plainUpdate u) \<Longrightarrow> logOk (svcRec m) \<Longrightarrow> logOk (svcRec m')"
proof -
  have "mc_wf m' \<and> (i \<notin> updateIds us \<longrightarrow> evolves (svcRec m i) (svcRec m' i)) \<and>
     ((\<forall>u \<in> set us. plainUpdate u) \<longrightarrow> logOk (svcRec m) \<longrightarrow> logOk (svcRec m'))"
    using wf c
  proof (cases rule: callService_cases)
    case (untouched e)
    then show ?thesis using logOk_evolves by (auto simp: svc_evolves_def)
  next
    case (applied tok ops m1)
    obtain updated m2 where a: "applyUpdates us m1 = (updated, m2)" "mc_wf m'" "svc_evolves m2 m'"
      using mc_Checkpoint_after [OF applied(1,4)] by metis
    have log1: "logOk (svcRec m) \<Longrightarrow> logOk (svcRec m1)" using applied(2) logOk_evolves by (auto simp: svc_evolves_def)
    have "evolves (svcRec m i) (svcRec m' i)" if "i \<notin> updateIds us"
    proof -
      have "svcRec m2 i = svcRec m1 i" using applyUpdates_facts [OF a(1)] that by (simp add: svcRec_def)
      then show ?thesis using applied(2) a(3) evolves_trans by (metis svc_evolves_def)
    qed
    moreover have "logOk (svcRec m')" if "\<forall>u \<in> set us. plainUpdate u" "logOk (svcRec m)"
      using applyUpdates_log [OF a(1) _ log1 [OF that(2)]] that(1) a(3) logOk_evolves by (auto simp: svc_evolves_def)
    ultimately show ?thesis using a(2) by blast
  qed
  then show "mc_wf m'" "i \<notin> updateIds us \<Longrightarrow> evolves (svcRec m i) (svcRec m' i)"
    "(\<And>u. u \<in> set us \<Longrightarrow> plainUpdate u) \<Longrightarrow> logOk (svcRec m) \<Longrightarrow> logOk (svcRec m')"
    by blast+
qed

lemma callService_answered:
  assumes wf: "mc_wf m" and c: "callService env us n m = (CallOk tok ops, m')"
  shows "in_sync st m \<Longrightarrow> \<exists>os. ops = Some os \<and> in_sync (es_merge (map operationFromAPI os) st) m' \<and> mc_changed m' = []"
    "us = [u] \<Longrightarrow> ou_Type u \<noteq> OperationTypeChainedInvoke \<Longrightarrow>
       \<exists>e t. svcRec m' (toString (ou_Id u)) = Some (operationFromAPI (updatedRecord u e t)) \<and>
          evolves (svcRec m (toString (ou_Id u))) (map_option operationFromAPI e)"
proof -
  show "\<exists>os. ops = Some os \<and> in_sync (es_merge (map operationFromAPI os) st) m' \<and> mc_changed m' = []" if "in_sync st m"
    using wf c
  proof (cases rule: callService_cases)
    case (applied tok' os m1)
    then show ?thesis
      using mc_Checkpoint_sync [OF applied(1) applied(3) [OF that] runTargets_actor applied(4)] mc_Checkpoint_parts [OF applied(4)]
      by (metis clientResponse.distinct(1) clientResponse.inject(1))
  qed simp
  show "\<exists>e t. svcRec m' (toString (ou_Id u)) = Some (operationFromAPI (updatedRecord u e t)) \<and>
          evolves (svcRec m (toString (ou_Id u))) (map_option operationFromAPI e)"
    if h: "us = [u]" "ou_Type u \<noteq> OperationTypeChainedInvoke"
    using wf c
  proof (cases rule: callService_cases)
    case (applied tok' os m1)
    obtain updated m2 where a: "applyUpdates us m1 = (updated, m2)"
      "mc_operations m' (toString (ou_Id u)) = mc_operations m2 (toString (ou_Id u))"
      using mc_Checkpoint_after [OF applied(1,4)] h by metis
    have "mc_operations m2 (toString (ou_Id u)) =
        Some (updatedRecord u (mc_operations m1 (toString (ou_Id u))) (mc_clock m1))"
      using a(1) h(1) by (auto simp: applyUpdate_facts split: prod.splits dest!: applyUpdate_facts(1,2))
    then show ?thesis using a(2) applied(2) by (auto simp: svcRec_def svc_evolves_def)
  qed simp
qed

text \<open>Whatever else the call did, the record names the operation of the update.\<close>

lemma callService_identity:
  assumes wf: "mc_wf m" and c: "callService env [u] n m = (CallOk tok ops, m')"
  shows "\<exists>op. svcRec m' (toString (ou_Id u)) = Some op \<and> identityOf op = (ou_Type u, toString (ou_SubType u), toString (ou_Name u))"
  using wf c
proof (cases rule: callService_cases)
  case (applied tok' os m1)
  obtain updated m2 where a: "applyUpdates [u] m1 = (updated, m2)" "svc_evolves m2 m'"
    using mc_Checkpoint_after [OF applied(1,4)] by metis
  have "mc_operations m2 (toString (ou_Id u)) =
      Some (updatedRecord u (mc_operations m1 (toString (ou_Id u))) (mc_clock m1))"
    using a(1) by (auto simp: applyUpdate_facts split: prod.splits dest!: applyUpdate_facts(1,2))
  moreover have "evolves (svcRec m2 (toString (ou_Id u))) (svcRec m' (toString (ou_Id u)))" using a(2) by (simp add: svc_evolves_def)
  ultimately show ?thesis
    by (auto simp: svcRec_def evolves_def identityOf_def split: option.splits)
qed simp

section \<open>The engine meets its contract\<close>

text \<open>
  The states between two calls of the engine: the flusher is idle, the records
  of the service and of the view are well formed, the service holds every
  settled record of the view, and until the checkpointer stops the two agree.
\<close>

definition viewHeld :: "environment \<Rightarrow> executionState \<Rightarrow> memoryClient \<Rightarrow> bool" where
  "viewHeld env st m \<longleftrightarrow> (\<forall>p op. es_get (env_hash env) st p = Some op \<longrightarrow> status_terminal (op_status op) \<longrightarrow>
     (\<exists>op'. svcRec m (env_hash env p) = Some op' \<and> core op' = core op))"

text \<open>No settled record of an earlier log is ever changed.\<close>

definition keeps :: "(string \<Rightarrow> operation option) \<Rightarrow> (string \<Rightarrow> operation option) \<Rightarrow> bool" where
  "keeps base log \<longleftrightarrow> (\<forall>i op. base i = Some op \<longrightarrow> status_terminal (op_status op) \<longrightarrow>
     (\<exists>op'. log i = Some op' \<and> core op' = core op))"

definition mem_ok :: "environment \<Rightarrow> (string \<Rightarrow> operation option) \<Rightarrow> world \<Rightarrow> bool" where
  "mem_ok env base w \<longleftrightarrow> quiet (wd_cp w) \<and> cp_state (wd_cp w) \<noteq> None \<and> mc_wf (wd_svc w) \<and>
     logOk (svcRec (wd_svc w)) \<and> logOk (es_operations (mem_state w)) \<and> viewHeld env (mem_state w) (wd_svc w) \<and>
     keeps base (svcRec (wd_svc w)) \<and> keeps base (es_operations (mem_state w)) \<and>
     (\<not> cp_terminated (wd_cp w) \<longrightarrow> in_sync (mem_state w) (wd_svc w) \<and> mc_changed (wd_svc w) = [])"

lemma in_sync_view:
  "in_sync st m \<Longrightarrow> mc_changed m = [] \<Longrightarrow> map_option core (es_operations st i) = map_option core (svcRec m i)"
  by (simp add: in_sync_def svcRec_def option.map_comp)

lemma sync_log: "in_sync st m \<Longrightarrow> mc_changed m = [] \<Longrightarrow> logOk (svcRec m) \<Longrightarrow> logOk (es_operations st)"
proof -
  assume s: "in_sync st m" "mc_changed m = []" and l: "logOk (svcRec m)"
  show ?thesis
    unfolding logOk_def
  proof (intro allI impI)
    fix i op assume v: "es_operations st i = Some op"
    then obtain op' where "svcRec m i = Some op'" "core op = core op'"
      using in_sync_view [OF s, of i] by (cases "svcRec m i") auto
    then show "recOk op" using l recOk_core [of op op'] by (auto simp: logOk_def)
  qed
qed

lemma sync_viewHeld: "in_sync st m \<Longrightarrow> mc_changed m = [] \<Longrightarrow> viewHeld env st m"
  unfolding viewHeld_def
proof (intro allI impI)
  fix p op assume s: "in_sync st m" "mc_changed m = []" "es_get (env_hash env) st p = Some op"
  then show "\<exists>op'. svcRec m (env_hash env p) = Some op' \<and> core op' = core op"
    using in_sync_view [OF s(1,2), of "env_hash env p"] by (cases "svcRec m (env_hash env p)") (auto simp: es_get_def)
qed

lemma keeps_evolves:
  assumes k: "keeps base log" and ev: "\<And>i op. base i = Some op \<Longrightarrow> status_terminal (op_status op) \<Longrightarrow> evolves (log i) (log' i)"
  shows "keeps base log'"
  unfolding keeps_def
proof (intro allI impI)
  fix i op assume b: "base i = Some op" "status_terminal (op_status op)"
  then obtain op' where op': "log i = Some op'" "core op' = core op" using k by (auto simp: keeps_def)
  then obtain op2 where op2: "log' i = Some op2" using ev [OF b] by (auto simp: evolves_def split: option.splits)
  have "core op2 = core op'" using ev [OF b] op' op2 b(2) core_facts(1) [OF op'(2)] by (simp add: evolves_def)
  then show "\<exists>op'. log' i = Some op' \<and> core op' = core op" using op2 op'(2) by simp
qed

lemma sync_keeps:
  assumes "in_sync st m" and "mc_changed m = []" and k: "keeps base (svcRec m)"
  shows "keeps base (es_operations st)"
  unfolding keeps_def
proof (intro allI impI)
  fix i op assume "base i = Some op" "status_terminal (op_status op)"
  then obtain op' where "svcRec m i = Some op'" "core op' = core op" using k by (auto simp: keeps_def)
  then show "\<exists>op'. es_operations st i = Some op' \<and> core op' = core op"
    using in_sync_view [OF assms(1,2), of i] by auto
qed

text \<open>A settled record of the view that no update of the request names stays held, whatever became of the call.\<close>

lemma call_viewHeld:
  assumes h: "viewHeld env st m" and wf: "mc_wf m" and c: "callService env us n m = (resp, m')"
    and live: "\<And>u p. u \<in> set us \<Longrightarrow> toString (ou_Id u) = env_hash env p \<Longrightarrow> \<not> terminalRecord (es_get (env_hash env) st p)"
  shows "viewHeld env st m'"
  unfolding viewHeld_def
proof (intro allI impI)
  fix p op assume p: "es_get (env_hash env) st p = Some op" "status_terminal (op_status op)"
  obtain op' where op': "svcRec m (env_hash env p) = Some op'" "core op' = core op" using h p by (auto simp: viewHeld_def)
  have "env_hash env p \<notin> updateIds us"  proof
    assume "env_hash env p \<in> updateIds us"
    then obtain u where "u \<in> set us" "toString (ou_Id u) = env_hash env p" by auto
    from live [OF this] show False using p by (simp add: terminalRecord_def)
  qed
  then have ev: "evolves (Some op') (svcRec m' (env_hash env p))" using callService_log(2) [OF wf c] op'(1) by metis
  then obtain op2 where op2: "svcRec m' (env_hash env p) = Some op2" by (auto simp: evolves_def split: option.splits)
  then have "core op2 = core op'" using ev p(2) core_facts(1) [OF op'(2)] by (simp add: evolves_def)
  then show "\<exists>op'. svcRec m' (env_hash env p) = Some op' \<and> core op' = core op" using op2 op'(2) by simp
qed

text \<open>What one checkpoint did to the view: nothing (refused, failed or withheld), or the merge of the response.\<close>

lemma mem_checkpoint_cases:
  assumes ok: "mem_ok env base w" and ck: "mem_checkpoint env us w = (r, w')"
  obtains (refused) "cp_terminated (wd_cp w)" "w' = w" "r = Some (sentinelErr errCheckpointTerminated)"
  | (stopped) e resp where "quiet (wd_cp w')" "cp_state (wd_cp w') = cp_state (wd_cp w)" "cp_terminated (wd_cp w')"
      "r = Some e" "infra e" "callService env us (wd_calls w) (wd_svc w) = (resp, wd_svc w')"
  | (closed) resp where "carriesExecutionUpdate us" "cp_state (wd_cp w') = cp_state (wd_cp w)" "r = None"
      "callService env us (wd_calls w) (wd_svc w) = (resp, wd_svc w')"
  | (merged) tok os where "\<not> cp_terminated (wd_cp w)" "quiet (wd_cp w')" "\<not> cp_terminated (wd_cp w')" "r = None"
      "cp_state (wd_cp w') = Some (mem_state w')"
      "in_sync (mem_state w') (wd_svc w')" "mc_changed (wd_svc w') = []"
      "callService env us (wd_calls w) (wd_svc w) = (CallOk tok (Some os), wd_svc w')"
proof (cases "cp_terminated (wd_cp w)")
  case True
  then show ?thesis using refused ck by (simp add: mem_checkpoint_refused)
next
  case False
  have q: "quiet (wd_cp w)" "mc_wf (wd_svc w)" "in_sync (mem_state w) (wd_svc w)" "cp_state (wd_cp w) = Some (mem_state w)"
    using ok False by (auto simp: mem_ok_def mem_state_def)
  obtain resp m where c: "callService env us (wd_calls w) (wd_svc w) = (resp, m)" by fastforce
  note e = mem_checkpoint_call [OF q(1) False c ck]
  have c': "callService env us (wd_calls w) (wd_svc w) = (resp, wd_svc w')" using c e(2) by simp
  show ?thesis
  proof (cases resp)
    case (CallErr x)
    then show ?thesis
      using e(4) by (intro stopped [OF e(1) _ _ _ _ c']) (auto simp: infra_def classifyCheckpointError_def)
  next
    case (CallOk tok ops)
    show ?thesis
    proof (cases "tok = []")
      case True
      show ?thesis
      proof (cases "carriesExecutionUpdate us")
        case x: True
        show ?thesis using e(4) CallOk True x by (intro closed [OF x _ _ c']) auto
      next
        case x: False
        show ?thesis using e(4) CallOk True x by (intro stopped [OF e(1) _ _ _ _ c']) auto
      qed
    next
      case t: False
      obtain os where os: "ops = Some os" "in_sync (es_merge (map operationFromAPI os) (mem_state w)) m" "mc_changed m = []"
        using callService_answered(1) [OF q(2) c [unfolded CallOk] q(3)] by blast
      have st: "cp_state (wd_cp w') = Some (es_merge (map operationFromAPI os) (mem_state w))"
        using e(4) CallOk t os(1) q(4) by simp
      then have st': "mem_state w' = es_merge (map operationFromAPI os) (mem_state w)" by (simp add: mem_state_def)
      show ?thesis
        using e(4) CallOk t os(1) by (intro merged [OF False e(1)]) (simp_all add: st st' os c e(2))
    qed
  qed
qed

lemma mem_state_eq: "cp_state (wd_cp w') = cp_state (wd_cp w) \<Longrightarrow> mem_state w' = mem_state w"
  by (simp add: mem_state_def)

lemma mem_checkpoint_ok:
  assumes ok: "mem_ok env base w" and ck: "mem_checkpoint env us w = (r, w')" and plain: "\<And>u. u \<in> set us \<Longrightarrow> plainUpdate u"
    and ids: "\<And>u. u \<in> set us \<Longrightarrow> \<exists>p. ou_Id u = Some (env_hash env p)"
    and live: "\<And>u p. u \<in> set us \<Longrightarrow> toString (ou_Id u) = env_hash env p \<Longrightarrow> \<not> terminalRecord (mem_get env w p)"
  shows "mem_ok env base w'"
proof -
  have w: "mc_wf (wd_svc w)" "logOk (svcRec (wd_svc w))" "viewHeld env (mem_state w) (wd_svc w)" "cp_state (wd_cp w) \<noteq> None"
    "logOk (es_operations (mem_state w))"
    using ok by (auto simp: mem_ok_def)
  have live': "\<not> terminalRecord (es_get (env_hash env) (mem_state w) p)"
    if "u \<in> set us" "toString (ou_Id u) = env_hash env p" for u p
    using live [OF that] by (simp add: mem_get_def)
  note log = callService_log(1,3) [OF w(1)]
  have kept: "keeps base (svcRec (wd_svc w'))"
    if c: "callService env us (wd_calls w) (wd_svc w) = (resp, wd_svc w')" for resp
  proof (rule keeps_evolves)
    show "keeps base (svcRec (wd_svc w))" using ok by (simp add: mem_ok_def)
    fix i op assume b: "base i = Some op" "status_terminal (op_status op)"
    have "keeps base (es_operations (mem_state w))" using ok by (simp add: mem_ok_def)
    then obtain op' where op': "es_operations (mem_state w) i = Some op'" "core op' = core op"
      using b by (auto simp: keeps_def)
    have "i \<notin> updateIds us"
    proof
      assume "i \<in> updateIds us"
      then obtain u where u: "u \<in> set us" "toString (ou_Id u) = i" by auto
      then obtain p where p: "i = env_hash env p" using ids by fastforce
      have "\<not> terminalRecord (mem_get env w p)" by (rule live [OF u(1)]) (simp add: u(2) p)
      then show False using op' b(2) core_facts(1) [OF op'(2)] by (simp add: mem_get_def es_get_def p terminalRecord_def)
    qed
    then show "evolves (svcRec (wd_svc w) i) (svcRec (wd_svc w') i)" by (rule callService_log(2) [OF w(1) c])
  qed
  show ?thesis
    using ok ck
  proof (cases rule: mem_checkpoint_cases)
    case (stopped e resp)
    then show ?thesis
      using w ok log [OF stopped(6)] plain kept [OF stopped(6)] call_viewHeld [OF w(3,1) stopped(6) live'] mem_state_eq [OF stopped(2)]
      by (simp add: mem_ok_def)
  next
    case (closed resp)
    then have False using plain by (auto simp: carriesExecutionUpdate_def list_ex_iff plainUpdate_def knownType_def)
    then show ?thesis ..
  next
    case (merged tok os)
    then show ?thesis
      using log [OF merged(8)] plain w(2) sync_log [OF merged(6,7)] sync_viewHeld [OF merged(6,7)]
        kept [OF merged(8)] sync_keeps [OF merged(6,7) kept [OF merged(8)]] by (simp add: mem_ok_def)
  qed (use ok in simp)
qed

lemma mem_checkpoint_err: "mem_ok env base w \<Longrightarrow> mem_checkpoint env us w = (Some e, w') \<Longrightarrow> infra e"
  by (erule (1) mem_checkpoint_cases) auto

lemma mem_checkpoint_others:
  assumes ok: "mem_ok env base w" and ck: "mem_checkpoint env us w = (r, w')" and p: "env_hash env p \<notin> updateIds us"
  shows "evolves (mem_get env w p) (mem_get env w' p)"
  using ok ck
proof (cases rule: mem_checkpoint_cases)
  case (merged tok os)
  have w: "mc_wf (wd_svc w)" "in_sync (mem_state w) (wd_svc w)" "mc_changed (wd_svc w) = []"
    using ok merged(1) by (auto simp: mem_ok_def)
  show ?thesis
    using evolves_core [OF in_sync_view [OF w(2,3), symmetric] in_sync_view [OF merged(6,7), symmetric]
        callService_log(2) [OF w(1) merged(8) p]]
    by (simp add: mem_get_def es_get_def)
qed (simp_all add: mem_get_def mem_state_def)

lemma mem_checkpoint_recorded:
  assumes ok: "mem_ok env base w" and ck: "mem_checkpoint env [u] w = (None, w')" and p: "toString (ou_Id u) = env_hash env p"
    and ty: "ou_Type u \<in> {OperationTypeStep, OperationTypeWait, OperationTypeContext}"
  shows "recorded u (mem_get env w p) (mem_get env w' p)"
  using ok ck
proof (cases rule: mem_checkpoint_cases)
  case (closed resp)
  then show ?thesis using ty by (auto simp: carriesExecutionUpdate_def)
next
  case (merged tok os)
  have w: "mc_wf (wd_svc w)" "in_sync (mem_state w) (wd_svc w)" "mc_changed (wd_svc w) = []"
    using ok merged(1) by (auto simp: mem_ok_def)
  obtain e t where e: "svcRec (wd_svc w') (env_hash env p) = Some (operationFromAPI (updatedRecord u e t))"
    "evolves (svcRec (wd_svc w) (env_hash env p)) (map_option operationFromAPI e)"
    using callService_answered(2) [OF w(1) merged(8) refl] ty p by auto
  have at: "attemptOf (mem_get env w p) = attemptOf (map_option operationFromAPI e)"
    using evolves_attempt [OF evolves_core [OF in_sync_view [OF w(2,3), symmetric] refl e(2)]]
    by (simp add: mem_get_def es_get_def)
  obtain op where op: "mem_get env w' p = Some op" "core op = core (operationFromAPI (updatedRecord u e t))"
    using in_sync_view [OF merged(6,7), of "env_hash env p"] e(1) by (auto simp: mem_get_def es_get_def)
  show ?thesis unfolding op(1) by (rule recorded_core [OF op(2) updatedRecord_recorded [OF ty at]])
qed simp_all

lemma mem_checkpoint_identity:
  assumes ok: "mem_ok env base w" and ck: "mem_checkpoint env [u] w = (None, w')" and p: "toString (ou_Id u) = env_hash env p"
    and plain: "plainUpdate u"
  shows "\<exists>op. mem_get env w' p = Some op \<and> identityOf op = (ou_Type u, toString (ou_SubType u), toString (ou_Name u))"
  using ok ck
proof (cases rule: mem_checkpoint_cases)
  case (closed resp)
  then show ?thesis using plain by (auto simp: carriesExecutionUpdate_def plainUpdate_def knownType_def)
next
  case (merged tok os)
  have w: "mc_wf (wd_svc w)" using ok by (simp add: mem_ok_def)
  obtain op where op: "svcRec (wd_svc w') (env_hash env p) = Some op"
    "identityOf op = (ou_Type u, toString (ou_SubType u), toString (ou_Name u))"
    using callService_identity [OF w merged(8)] p by auto
  then obtain op' where op': "mem_get env w' p = Some op'" "core op' = core op"
    using in_sync_view [OF merged(6,7), of "env_hash env p"] by (auto simp: mem_get_def es_get_def)
  show ?thesis unfolding op'(1) using op(2) core_facts(2) [OF op'(2)] by simp
qed simp_all

text \<open>Polls are checkpoints without updates.\<close>

lemma mem_poll_facts:
  "mem_ok env base w \<Longrightarrow> mem_poll n env i rd w = (r, w') \<Longrightarrow>
     mem_ok env base w' \<and> evolves (mem_get env w p) (mem_get env w' p) \<and>
     (\<forall>e. r = Inl e \<longrightarrow> e = sentinelErr errSuspendExecution) \<and>
     (\<forall>op. r = Inr op \<longrightarrow> rd (Some op) \<and> mem_get env w' i = Some op)"
proof (induction n arbitrary: w)
  case 0
  have f: "mem_ok env base (w \<lparr> wd_fired := True \<rparr>)" "mem_get env (w \<lparr> wd_fired := True \<rparr>) = mem_get env w"
    using 0(1) by (auto simp: mem_ok_def mem_get_def mem_state_def fun_eq_iff)
  show ?case using 0 f by (auto split: option.splits if_splits)
next
  case (Suc n)
  obtain r1 w1 where ck: "mem_checkpoint env [] w = (r1, w1)" by fastforce
  have ok1: "mem_ok env base w1" by (rule mem_checkpoint_ok [OF Suc.prems(1) ck]) simp_all
  have ev: "evolves (mem_get env w p) (mem_get env w1 p)" by (rule mem_checkpoint_others [OF Suc.prems(1) ck]) simp
  have poll: ?case if "mem_poll n env i rd w1 = (r, w')"
    using Suc.IH [OF ok1 that] evolves_trans [OF ev] by blast
  show ?case
    using Suc.prems poll ck by (cases "mem_get env w i") (auto split: if_splits)
qed

lemma mem_await_facts:
  "mem_ok env base w \<Longrightarrow> mem_await env i rd w = (r, w') \<Longrightarrow>
     mem_ok env base w' \<and> evolves (mem_get env w p) (mem_get env w' p) \<and>
     (\<forall>e. r = Inl e \<longrightarrow> e = sentinelErr errSuspendExecution) \<and>
     (\<forall>op. r = Inr op \<longrightarrow> rd (Some op) \<and> mem_get env w' i = Some op)"
  using mem_poll_facts [of env base w _ i rd r w' p] by (auto simp: mem_await_def split: if_splits)

lemma mem_noWait_cases:
  assumes "mem_checkpointNoWait env u w = (r, w')"
  obtains "w' = w" "r = Some (sentinelErr errCheckpointTerminated)"
  | r' where "mem_checkpoint env [u] w = (r', w')" "r = None"
  using assms by (cases "mem_checkpoint env [u] w") (auto simp: mem_checkpointNoWait_def split: if_splits)

lemma mem_stopped_view:
  "mem_ok env base w \<Longrightarrow> mem_checkpoint env us w = (Some e, w') \<Longrightarrow> mem_state w' = mem_state w"
  by (erule (1) mem_checkpoint_cases) (auto simp: mem_state_def)

lemma mem_noWait_recorded:
  assumes ok: "mem_ok env base w" and nw: "mem_checkpointNoWait env u w = (r, w')" and p: "toString (ou_Id u) = env_hash env p"
    and ty: "ou_Type u \<in> {OperationTypeStep, OperationTypeWait, OperationTypeContext}"
  shows "recorded u (mem_get env w p) (mem_get env w' p) \<or> evolves (mem_get env w p) (mem_get env w' p)"
  using nw
proof (cases rule: mem_noWait_cases)
  case (2 r')
  then show ?thesis
    using mem_checkpoint_recorded [OF ok _ p ty, of w'] mem_stopped_view [OF ok, of "[u]" _ w']
    by (cases r') (auto simp: mem_get_def)
qed simp

lemma mem_halt_ok: "mem_ok env base w \<Longrightarrow> mem_ok env base (w \<lparr> wd_cp := cp_halt e (wd_cp w) \<rparr>)"
  by (simp add: mem_ok_def quiet_def mem_state_def cp_halt_def cp_terminate_def)

lemma mem_halt_get: "mem_get env (w \<lparr> wd_cp := cp_halt e (wd_cp w) \<rparr>) p = mem_get env w p"
  by (simp add: mem_get_def mem_state_def cp_halt_def cp_terminate_def)

interpretation mem: durable_engine "memEngine env" "mem_ok env base" for env base
proof unfold_locales
  fix w w' :: world and us u p q r e op i rd ra b
  have view: "recOk op" if "mem_ok env base w" "mem_get env w p = Some op" for w p op
    using that by (auto simp: mem_ok_def logOk_def mem_get_def es_get_def)
  show "0 \<le> attemptOf (eng_get (memEngine env) w p)" if "mem_ok env base w"
  proof (cases "mem_get env w p")
    case (Some op)
    then show ?thesis using view [OF that Some] by (simp add: recOk_def)
  qed (simp add: attemptOf_def)
  show "knownType (op_opType op)" if "mem_ok env base w" "eng_get (memEngine env) w p = Some op"
    using view that by (simp add: recOk_def)
  show "op_status op = statusSucceeded \<or> op_status op = statusFailed"
    if "mem_ok env base w" "eng_get (memEngine env) w p = Some op" "selfSettled (op_opType op)" "status_terminal (op_status op)"
    using view [OF that(1)] that by (simp add: recOk_def)
  show "eng_get (memEngine env) w p = eng_get (memEngine env) w q" if "eng_hash (memEngine env) p = eng_hash (memEngine env) q"
    using that by (simp add: mem_get_def es_get_def)
  show "mem_ok env base w'" if "mem_ok env base w" "eng_checkpoint (memEngine env) us w = (r, w')"
      "\<And>u. u \<in> set us \<Longrightarrow> plainUpdate u"
      "\<And>u. u \<in> set us \<Longrightarrow> \<exists>p. ou_Id u = Some (eng_hash (memEngine env) p)"
      "\<And>u p. u \<in> set us \<Longrightarrow> toString (ou_Id u) = eng_hash (memEngine env) p \<Longrightarrow> \<not> terminalRecord (eng_get (memEngine env) w p)"
    using that by (intro mem_checkpoint_ok [of env base w us r w']) simp_all
  show "infra e" if "mem_ok env base w" "eng_checkpoint (memEngine env) us w = (Some e, w')"
    using that mem_checkpoint_err by simp
  show "recorded u (eng_get (memEngine env) w p) (eng_get (memEngine env) w' p)"
    if "mem_ok env base w" "eng_checkpoint (memEngine env) [u] w = (None, w')" "toString (ou_Id u) = eng_hash (memEngine env) p"
      "ou_Type u \<in> {OperationTypeStep, OperationTypeWait, OperationTypeContext}"
    using that mem_checkpoint_recorded by simp
  show "\<exists>op. eng_get (memEngine env) w' p = Some op \<and> identityOf op = (ou_Type u, toString (ou_SubType u), toString (ou_Name u))"
    if "mem_ok env base w" "eng_checkpoint (memEngine env) [u] w = (None, w')" "toString (ou_Id u) = eng_hash (memEngine env) p"
      "plainUpdate u"
    using that mem_checkpoint_identity by simp
  show "evolves (eng_get (memEngine env) w p) (eng_get (memEngine env) w' p)"
    if "mem_ok env base w" "eng_checkpoint (memEngine env) us w = (r, w')" "eng_hash (memEngine env) p \<notin> updateIds us"
    using that mem_checkpoint_others by simp
  show "mem_ok env base w'" if "mem_ok env base w" "eng_checkpointNoWait (memEngine env) u w = (r, w')" "plainUpdate u"
      "\<exists>p. ou_Id u = Some (eng_hash (memEngine env) p)"
      "\<And>p. toString (ou_Id u) = eng_hash (memEngine env) p \<Longrightarrow> \<not> terminalRecord (eng_get (memEngine env) w p)"
    using that mem_checkpoint_ok [OF that(1), of "[u]" _ w'] by (auto elim!: mem_noWait_cases)
  show "infra e" if "mem_ok env base w" "eng_checkpointNoWait (memEngine env) u w = (Some e, w')"
    using that by (auto elim!: mem_noWait_cases)
  show "recorded u (eng_get (memEngine env) w p) (eng_get (memEngine env) w' p) \<or>
      evolves (eng_get (memEngine env) w p) (eng_get (memEngine env) w' p)"
    if "mem_ok env base w" "eng_checkpointNoWait (memEngine env) u w = (r, w')" "toString (ou_Id u) = eng_hash (memEngine env) p"
      "ou_Type u \<in> {OperationTypeStep, OperationTypeWait, OperationTypeContext}"
    using that mem_noWait_recorded by simp
  show "evolves (eng_get (memEngine env) w p) (eng_get (memEngine env) w' p)"
    if "mem_ok env base w" "eng_checkpointNoWait (memEngine env) u w = (r, w')" "eng_hash (memEngine env) p \<noteq> toString (ou_Id u)"
    using that mem_checkpoint_others [OF that(1), of "[u]" _ w' p] by (auto elim!: mem_noWait_cases)
  show "mem_ok env base w'" if "mem_ok env base w" "eng_await (memEngine env) i rd w = (ra, w')"
    using that mem_await_facts [OF that(1), of i rd ra w'] by simp
  show "e = sentinelErr errSuspendExecution" if "mem_ok env base w" "eng_await (memEngine env) i rd w = (Inl e, w')"
    using that mem_await_facts [OF that(1), of i rd "Inl e" w'] by simp
  show "rd (Some op) \<and> eng_get (memEngine env) w' i = Some op"
    if "mem_ok env base w" "eng_await (memEngine env) i rd w = (Inr op, w')"
    using that mem_await_facts [OF that(1), of i rd "Inr op" w'] by simp
  show "evolves (eng_get (memEngine env) w p) (eng_get (memEngine env) w' p)"
    if "mem_ok env base w" "eng_await (memEngine env) i rd w = (ra, w')"
    using that mem_await_facts [OF that(1), of i rd ra w' p] by simp
  show "mem_ok env base w'" if "mem_ok env base w" "eng_park (memEngine env) w = (b, w')"
    using that by simp
  show "evolves (eng_get (memEngine env) w p) (eng_get (memEngine env) w' p)"
    if "mem_ok env base w" "eng_park (memEngine env) w = (b, w')"
    using that by simp
  show "mem_ok env base (eng_halt (memEngine env) e w)" if "mem_ok env base w" "infra e"
    using that mem_halt_ok by simp
  show "evolves (eng_get (memEngine env) w p) (eng_get (memEngine env) (eng_halt (memEngine env) e w) p)" if "mem_ok env base w"
    by (simp add: mem_halt_get)
qed

end
