(* ===== verification/Invocations.thy ===== *)
theory Invocations
  imports Mem_Engine
begin

text \<open>
  An execution on the local service: invocations of a handler, each starting
  from the page of operations the service hands it, and what the service and
  external actors do between them.
\<close>

section \<open>The start of an invocation\<close>

definition beginWorld :: "memoryClient \<Rightarrow> world" where
  "beginWorld m = (case beginInvocation m of ((ops, tok, upd), m') \<Rightarrow>
     \<lparr> wd_cp = newCheckpointer tok (Some (setUpdatedOperationIDs upd (newExecutionState
                 (operationsFromPayload \<lparr> ies_Operations = ops, ies_NextMarker = '''' \<rparr>)))),
       wd_svc = m', wd_calls = 0, wd_fired = False \<rparr>)"

datatype idleAction = IdleEvent extEvent | IdleTimers | IdleEnd bool

definition idleStep :: "idleAction \<Rightarrow> memoryClient \<Rightarrow> memoryClient" where
  "idleStep a m = (case a of IdleEvent e \<Rightarrow> applyEvent e m
     | IdleTimers \<Rightarrow> snd (completePendingTimers m)
     | IdleEnd successful \<Rightarrow> endInvocation successful m)"

section \<open>Services that keep their records well\<close>

definition serviceOk :: "memoryClient \<Rightarrow> bool" where
  "serviceOk m \<longleftrightarrow> mc_wf m \<and> logOk (svcRec m)"

lemma serviceOk_new: "serviceOk (newMemoryClient t)"
  using mc_wf_new by (simp add: serviceOk_def logOk_def svcRec_def newMemoryClient_def)

lemma fireTimer_facts:
  assumes "mc_operations m i = Some op" and wf: "mc_wf m"
  shows "mc_wf (snd (fireTimer i op m)) \<and> svc_evolves m (snd (fireTimer i op m))"
proof -
  have id: "toString (ao_Id op) = i" using known_id [OF wf assms(1)] .
  have i: "i \<in> set (mc_opOrder m)" using wf assms(1) by (auto simp: mc_wf_def)
  consider "ao_Type op = OperationTypeStep \<and> ao_Status op = statusPending"
    | "ao_Type op = OperationTypeWait \<and> ao_Status op = statusStarted" | "fireTimer i op m = (False, m)"
    unfolding fireTimer_def by presburger
  then show ?thesis
  proof cases
    case 1
    have "svc_evolves m (snd (fireTimer i op m))"
      using 1 assms(1) by (auto simp: svc_evolves_def svcRec_def fireTimer_def intro!: api_evolves)
    then show ?thesis using 1 wf i id assms(1) by (auto simp: fireTimer_def mc_wf_def)
  next
    case 2
    have "svc_evolves m (snd (fireTimer i op m))"
      using 2 assms(1) by (auto simp: svc_evolves_def svcRec_def fireTimer_def selfSettled_def intro!: api_evolves)
    then show ?thesis using 2 wf i id assms(1) by (auto simp: fireTimer_def mc_wf_def)
  next
    case 3
    then show ?thesis using wf by simp
  qed
qed

lemma completePendingTimers_facts:
  assumes "mc_wf m"
  shows "mc_wf (snd (completePendingTimers m)) \<and> svc_evolves m (snd (completePendingTimers m))"
proof -
  let ?f = "\<lambda>i (adv, m). case mc_operations m i of None \<Rightarrow> (adv, m)
          | Some op \<Rightarrow> (let (b, m') = fireTimer i op m in (adv \<or> b, m'))"
  have fold: "mc_wf (snd am) \<Longrightarrow> mc_wf (snd (fold ?f is am)) \<and> svc_evolves (snd am) (snd (fold ?f is am))" for "is" am
  proof (induction "is" arbitrary: am)
    case (Cons i "is")
    have "mc_wf (snd (?f i am)) \<and> svc_evolves (snd am) (snd (?f i am))"
      using fireTimer_facts [of "snd am" i] Cons.prems by (auto simp: split_def Let_def split: option.split)
    then show ?case using Cons.IH [of "?f i am"] svc_evolves_trans by auto
  qed simp
  have adv: "mc_wf (advanceTo t m)" "svc_evolves m (advanceTo t m)" for t
    using assms by (simp_all add: mc_wf_def svc_evolves_def svcRec_def)
  show ?thesis
  proof -
    obtain m1 where m1: "mc_wf m1" "svc_evolves m m1" "completePendingTimers m = fold ?f (mc_opOrder m1) (False, m1)"
    proof (cases "fold (\<lambda>i best. case timerDue (mc_operations m i) of None \<Rightarrow> best
             | Some due \<Rightarrow> if best < due then due else best) (mc_opOrder m) zeroTime = zeroTime")
      case True
      show ?thesis by (rule that [OF assms svc_evolves_refl]) (simp add: completePendingTimers_def Let_def True)
    next
      case False
      show ?thesis by (rule that [OF adv]) (simp only: completePendingTimers_def Let_def False if_False)
    qed
    then show ?thesis using fold [of "(False, m1)" "mc_opOrder m1"] svc_evolves_trans by auto
  qed
qed

lemma idleStep_facts: "mc_wf m \<Longrightarrow> mc_wf (idleStep a m) \<and> svc_evolves m (idleStep a m)"
proof (cases a)
  case (IdleEnd b)
  assume "mc_wf m"
  then show ?thesis by (simp add: IdleEnd idleStep_def endInvocation_def mc_wf_def svc_evolves_def svcRec_def)
qed (simp_all add: idleStep_def applyEvent_wf applyEvent_evolves completePendingTimers_facts)

lemma idle_facts: "mc_wf m \<Longrightarrow> mc_wf (fold idleStep as m) \<and> svc_evolves m (fold idleStep as m)"
proof (induction "as" arbitrary: m)
  case (Cons a "as")
  then show ?case using idleStep_facts [of m a] Cons.IH [of "idleStep a m"] svc_evolves_trans by auto
qed simp

lemma serviceOk_idle: "serviceOk m \<Longrightarrow> serviceOk (fold idleStep as m)"
  using idle_facts [of m "as"] logOk_evolves by (auto simp: serviceOk_def svc_evolves_def)

section \<open>The first view\<close>

lemma snapshot_records:
  assumes "serviceOk m"
  shows "snapshotOps m = map (\<lambda>i. apiOperationToWire (the (mc_operations m i))) (mc_opOrder m)"
proof -
  have known: "mc_operations m i = Some (the (mc_operations m i)) \<and> ao_Type (the (mc_operations m i)) \<noteq> OperationTypeExecution"
    if "i \<in> set (mc_opOrder m)" for i
  proof -
    have "i \<in> dom (mc_operations m)" using that assms by (auto simp: serviceOk_def mc_wf_def)
    then obtain op where "mc_operations m i = Some op" by blast
    moreover from this have "recOk (operationFromAPI op)" using assms by (auto simp: serviceOk_def logOk_def svcRec_def)
    ultimately show ?thesis by (auto simp: recOk_def knownType_def)
  qed
  have "filter (\<lambda>op. ao_Type op \<noteq> OperationTypeExecution) (List.map_filter (mc_operations m) is) =
      map (\<lambda>i. the (mc_operations m i)) is" if "set is \<subseteq> set (mc_opOrder m)" for "is"
    using that
  proof (induction "is")
    case (Cons i "is")
    then obtain op where "mc_operations m i = Some op" "ao_Type op \<noteq> OperationTypeExecution"
      using known [of i] by (metis list.set_intros(1) subsetD)
    then show ?case using Cons by (simp add: List.map_filter_simps)
  qed (simp add: List.map_filter_simps)
  then show ?thesis by (simp add: snapshotOps_def)
qed

lemma beginWorld_view:
  assumes ok: "serviceOk m"
  shows "es_operations (mem_state (beginWorld m)) i =
     map_option (\<lambda>op. (untimed (operationFromAPI op)) \<lparr> op_parentID := toString (ao_ParentId op) \<rparr>) (mc_operations m i)"
proof -
  let ?rec = "\<lambda>op. (untimed (operationFromAPI op)) \<lparr> op_parentID := toString (ao_ParentId op) \<rparr>"
  let ?ops = "map (\<lambda>i. ?rec (the (mc_operations m i))) (mc_opOrder m)"
  have st: "es_operations (mem_state (beginWorld m)) = es_operations (fold es_load ?ops emptyState)"
    by (simp add: beginWorld_def beginInvocation_def Let_def mem_state_def newCheckpointer_def setUpdatedOperationIDs_def
        newExecutionState_def operationsFromPayload_def snapshot_records [OF ok] wire_api_agree comp_def)
  have wf: "distinct (mc_opOrder m)" "set (mc_opOrder m) = dom (mc_operations m)"
    using ok by (simp_all add: serviceOk_def mc_wf_def)
  have id: "op_id (?rec (the (mc_operations m j))) = j" if "j \<in> set (mc_opOrder m)" for j
    using that ok wf(2) by (auto simp: serviceOk_def mc_wf_def untimed_def)
  have ids: "map op_id ?ops = mc_opOrder m"
    using id by (simp add: comp_def cong: map_cong)
  show ?thesis
  proof (cases "mc_operations m i")
    case None
    have "es_operations (fold es_load xs s) i = es_operations s i" if "i \<notin> set (map op_id xs)" for xs s
      using that by (induction xs arbitrary: s) (auto simp: state_simps)
    moreover have "i \<notin> set (map op_id ?ops)" unfolding ids using None wf(2) by auto
    ultimately have "es_operations (fold es_load ?ops emptyState) i = es_operations emptyState i" by blast
    then show ?thesis using None unfolding st by (simp add: emptyState_def)
  next
    case (Some op)
    then have i: "i \<in> set (mc_opOrder m)" using wf(2) by auto
    have "es_operations (fold es_load ?ops emptyState) (op_id (?rec (the (mc_operations m i)))) = Some (?rec (the (mc_operations m i)))"
      by (rule es_load_get_distinct) (use ids wf(1) i in \<open>simp_all add: \<close>)
    then show ?thesis unfolding st using Some id [OF i] by simp
  qed
qed

lemma core_loaded: "core ((untimed op) \<lparr> op_parentID := p \<rparr>) = core op"
  by (simp add: core_def untimed_def split: option.split)

lemma beginWorld_svc: "wd_svc (beginWorld m) = snd (beginInvocation m)" "wd_fired (beginWorld m) = False"
  "cp_terminated (wd_cp (beginWorld m)) = False" "cp_state (wd_cp (beginWorld m)) = Some (mem_state (beginWorld m))"
  "quiet (wd_cp (beginWorld m))"
  by (simp_all add: beginWorld_def newCheckpointer_def mem_state_def quiet_def split: prod.split)

lemma beginWorld_ok:
  assumes ok: "serviceOk m" and base: "keeps base (svcRec m)" shows "mem_ok env base (beginWorld m)"
proof -
  let ?m = "wd_svc (beginWorld m)"
  have m: "mc_operations ?m = mc_operations m" "mc_opOrder ?m = mc_opOrder m" "mc_changed ?m = []"
    by (simp_all add: beginWorld_svc beginInvocation_def Let_def)
  have wf: "mc_wf ?m" "logOk (svcRec ?m)"
    using ok by (auto simp: serviceOk_def mc_wf_def m logOk_def svcRec_def)
  have sync: "in_sync (mem_state (beginWorld m)) ?m"
    by (simp add: in_sync_def m beginWorld_view [OF ok] option.map_comp comp_def core_loaded)
  have "svcRec ?m = svcRec m" by (simp add: fun_eq_iff svcRec_def m)
  then have kept: "keeps base (svcRec ?m)" using base by simp
  show ?thesis
    using wf sync sync_log [OF sync m(3) wf(2)] sync_viewHeld [OF sync m(3)] m(3) kept sync_keeps [OF sync m(3) kept]
    by (simp add: mem_ok_def beginWorld_svc)
qed

lemma mem_ok_service: "mem_ok env base w \<Longrightarrow> serviceOk (wd_svc w)"
  by (simp add: mem_ok_def serviceOk_def)

text \<open>What an invocation leaves settled in its view, later ones find in their own.\<close>

lemma next_view_holds:
  assumes ok: "mem_ok env base w" and m: "serviceOk m" "keeps (svcRec (wd_svc w)) (svcRec m)"
  shows "holds (memEngine env) w (beginWorld m)"
  unfolding holds_def
proof (intro allI impI)
  fix q op assume q: "eng_get (memEngine env) w q = Some op" "status_terminal (op_status op)"
  obtain op' where op': "svcRec (wd_svc w) (env_hash env q) = Some op'" "core op' = core op"
    using ok q by (auto simp: mem_ok_def viewHeld_def mem_get_def)
  have "status_terminal (op_status op')" using q(2) core_facts(1) [OF op'(2)] by simp
  then obtain op2 where "svcRec m (env_hash env q) = Some op2" "core op2 = core op'"
    using m(2) op'(1) by (auto simp: keeps_def)
  then obtain a where a: "mc_operations m (env_hash env q) = Some a" "core (operationFromAPI a) = core op'"
    by (auto simp: svcRec_def)
  then show "\<exists>op2. eng_get (memEngine env) (beginWorld m) q = Some op2 \<and> core op2 = core op"
    using op'(2) by (simp add: mem_get_def es_get_def beginWorld_view [OF m(1)] core_loaded)
qed

section \<open>Histories\<close>

text \<open>
  What may happen to the service of one execution: invocations of handlers (any
  handler, any environment over the same hash), and idle steps between them.
\<close>

inductive history :: "(string \<Rightarrow> string) \<Rightarrow> memoryClient \<Rightarrow> memoryClient \<Rightarrow> bool" for h m where
  history_start: "history h m m"
| history_idle: "history h m m1 \<Longrightarrow> history h m (idleStep a m1)"
| history_invocation: "history h m m1 \<Longrightarrow> env_hash env = h \<Longrightarrow> progPure (p :: (string, world) prog) \<Longrightarrow>
    runProg n (memEngine env) p (newExecContext k) (beginWorld m1) = Some (r, tr, ec, w) \<Longrightarrow> history h m (wd_svc w)"

lemma keeps_refl: "keeps a a"
  by (simp add: keeps_def)

lemma keeps_empty: "keeps Map.empty a"
  by (simp add: keeps_def)

lemma history_keeps:
  assumes "history h m m'" and inj: "inj h" and ok: "serviceOk m"
  shows "serviceOk m' \<and> keeps (svcRec m) (svcRec m')"
  using assms(1)
proof (induction rule: history.induct)
  case history_start
  then show ?case using ok keeps_refl by simp
next
  case (history_idle m1 a)
  then have "mc_wf m1" by (simp add: serviceOk_def)
  then have f: "mc_wf (idleStep a m1)" "svc_evolves m1 (idleStep a m1)" using idleStep_facts by blast+
  then have "logOk (svcRec (idleStep a m1))"
    using logOk_evolves history_idle.IH by (auto simp: serviceOk_def svc_evolves_def)
  moreover have "keeps (svcRec m) (svcRec (idleStep a m1))"
    by (rule keeps_evolves [OF conjunct2 [OF history_idle.IH]]) (use f(2) in \<open>simp add: svc_evolves_def\<close>)
  ultimately show ?case using f(1) by (simp add: serviceOk_def)
next
  case (history_invocation m1 env p n k r tr ec w)
  have "mem_ok env (svcRec m) (beginWorld m1)" using history_invocation.IH beginWorld_ok by blast
  then have "mem_ok env (svcRec m) w"
    using mem.outside_ok [OF mem.runProg_within [OF _ _ progPure_ok history_invocation.hyps(4), of "svcRec m"]]
      history_invocation.hyps(2,3) inj by simp
  then show ?case using mem_ok_service by (auto simp: mem_ok_def)
qed

end
