(* ===== verification/Healthy.thy ===== *)
theory Healthy
  imports Invocations
begin

text \<open>
  Progress on a service that answers: every call is answered and the service
  withholds no token.  There each checkpoint of valid updates is accepted, and
  the operations complete.
\<close>

section \<open>A service that answers\<close>

definition answers :: "environment \<Rightarrow> bool" where
  "answers env \<longleftrightarrow> (\<forall>n. env_fault env n = CallAnswered)"

definition healthy :: "environment \<Rightarrow> (string \<Rightarrow> operation option) \<Rightarrow> world \<Rightarrow> bool" where
  "healthy env base w \<longleftrightarrow> mem_ok env base w \<and> \<not> cp_terminated (wd_cp w) \<and> mc_omitTokenIn (wd_svc w) = 0"

lemma storeSettled_omit [simp]: "mc_omitTokenIn (storeSettled op m) = mc_omitTokenIn m"
  by (simp add: storeSettled_def)

lemma settleInvokeByID_omit: "mc_omitTokenIn (snd (settleInvokeByID i res m)) = mc_omitTokenIn m"
  by (simp add: settleInvokeByID_def split: option.split)

lemma applyEvent_omit: "mc_omitTokenIn (applyEvent e m) = mc_omitTokenIn m"
  by (simp add: applyEvent_def completeCallback_def timeoutCallback_def settleInvokeByID_omit Let_def
      split: extEvent.split option.split settlement.split)

lemma applyEvents_omit: "mc_omitTokenIn (fold applyEvent es m) = mc_omitTokenIn m"
  by (induction es arbitrary: m) (simp_all add: applyEvent_omit)

lemma runTargets_omit: "mc_omitTokenIn (runTargets outcome ids m) = mc_omitTokenIn m"
  unfolding runTargets_def
  by (induction ids arbitrary: m) (simp_all add: settleInvokeByID_omit split: option.split)

lemma applyUpdates_omit: "applyUpdates us m = (ops, m') \<Longrightarrow> mc_omitTokenIn m' = mc_omitTokenIn m"
  by (induction us arbitrary: m ops) (auto split: prod.splits dest: applyUpdate_facts(6))

lemma mc_Checkpoint_accepts:
  assumes "validateCheckpoint js us = None" and "mc_omitTokenIn m = 0"
  obtains tok ops m' where "mc_Checkpoint js (runTargets outcome) us m = (Inr (tok, ops), m')" "tok \<noteq> ''''"
    "mc_omitTokenIn m' = 0"
proof -
  obtain updated m1 where a: "applyUpdates us m = (updated, m1)" by fastforce
  have "mc_omitTokenIn m1 = 0" using applyUpdates_omit [OF a] assms(2) by simp
  then have "\<exists>tok ops m'. mc_Checkpoint js (runTargets outcome) us m = (Inr (tok, ops), m') \<and> tok \<noteq> '''' \<and> mc_omitTokenIn m' = 0"
    using assms(1) a by (simp add: mc_Checkpoint_def Let_def runTargets_omit advanceTimers_frame)
  then show ?thesis using that by blast
qed

lemma mem_checkpoint_accepted:
  assumes env: "answers env" and h: "healthy env base w" and v: "validateCheckpoint (env_jsonSize env) us = None"
    and plain: "\<And>u. u \<in> set us \<Longrightarrow> plainUpdate u" and ids: "\<And>u. u \<in> set us \<Longrightarrow> \<exists>p. ou_Id u = Some (env_hash env p)"
    and live: "\<And>u p. u \<in> set us \<Longrightarrow> toString (ou_Id u) = env_hash env p \<Longrightarrow> \<not> terminalRecord (mem_get env w p)"
  obtains w' where "mem_checkpoint env us w = (None, w')" "healthy env base w'" "wd_fired w' = wd_fired w"
proof -
  have ok: "mem_ok env base w" "quiet (wd_cp w)" "\<not> cp_terminated (wd_cp w)" "mc_omitTokenIn (wd_svc w) = 0"
    using h by (auto simp: healthy_def mem_ok_def)
  let ?m1 = "fold applyEvent (env_events env (wd_calls w)) (wd_svc w)"
  have "mc_omitTokenIn ?m1 = 0" using ok(4) by (simp add: applyEvents_omit)
  then obtain tok ops m where c: "mc_Checkpoint (env_jsonSize env) (runTargets (env_target env)) us ?m1 = (Inr (tok, ops), m)"
    "tok \<noteq> ''''" "mc_omitTokenIn m = 0"
    using mc_Checkpoint_accepts [OF v] by blast
  have call: "callService env us (wd_calls w) (wd_svc w) = (CallOk tok (Some ops), m)"
    using env c(1) by (simp add: callService_def answers_def Let_def)
  obtain r w' where ck: "mem_checkpoint env us w = (r, w')" by fastforce
  note e = mem_checkpoint_call [OF ok(2,3) call ck]
  have "mem_ok env base w'" by (rule mem_checkpoint_ok [OF ok(1) ck plain ids live])
  then show ?thesis using that ck e c(2,3) by (auto simp: healthy_def)
qed

section \<open>A step completes\<close>

lemma step_update_valid:
  assumes "ou_Type u = OperationTypeStep" and "length (toString (ou_Payload u)) \<le> stepPayloadLimit" and "ou_Error u = None"
  shows "validateCheckpoint js [u] = None"
  using assms by (simp add: validateCheckpoint_def shapeError_def payloadError_def Let_def)

text \<open>The START of an attempt is accepted.\<close>

lemma start_accepted:
  assumes env: "answers env" and h: "healthy env base w" and "mem_get env w i = None"
  obtains w1 where "startStepAttempt (memEngine env) ec i nm options None None w = (None, w1)" "healthy env base w1"
    "wd_fired w1 = wd_fired w" "liveAt (memEngine env) OperationTypeStep i w1"
proof -
  let ?u = "stepUpdate (memEngine env) ec i nm (so_subType options) OperationActionStart"
  have u: "ou_Type ?u = OperationTypeStep" "ou_Payload ?u = None" "ou_Error ?u = None" "plainUpdate ?u"
    "ou_Id ?u = Some (env_hash env i)"
    by (simp_all add: stepUpdate_def plainUpdate_def)
  have live: "liveAt (memEngine env) OperationTypeStep i w" using assms(3) by (simp add: liveAt_def)
  have ok: "mem_ok env base w" using h by (simp add: healthy_def)
  have nt: "\<not> terminalRecord (mem_get env w p)" if "env_hash env i = env_hash env p" for p
    using assms(3) that by (simp add: mem_get_def es_get_def terminalRecord_def)
  have v: "validateCheckpoint (env_jsonSize env) [?u] = None"
    by (rule step_update_valid) (simp_all add: u)
  obtain w1 where ck: "mem_checkpoint env [?u] w = (None, w1)" "healthy env base w1" "wd_fired w1 = wd_fired w"
    by (rule mem_checkpoint_accepted [OF env h v]) (use u nt in auto)
  have "startStepAttempt (memEngine env) ec i nm options None None w = (None, w1)"
    using ck(1) h by (auto simp: startStepAttempt_def Let_def mem_checkpointNoWait_def healthy_def)
  moreover from this have "liveAt (memEngine env) OperationTypeStep i w1"
    using mem.startStepAttempt_post(3) [OF ok _ live] by blast
  ultimately show ?thesis using that ck by blast
qed

lemma claimOperation_mode:
  "claimOperation E None ec w = (Inr i, ec1) \<Longrightarrow> ec_mode ec \<noteq> modeReplaySucceededContext \<Longrightarrow> ec_mode ec1 \<noteq> modeReplaySucceededContext"
  by (auto simp: claimOperation_def claimable_def refreshReplayMode_def Let_def split: if_splits prod.splits)

text \<open>A step with no record whose body returns a value completes in one pass of its loop.\<close>

lemma step_completes:
  assumes env: "answers env" and h: "healthy env base w" and can: "canClaim (memEngine env) (ec_ids ec) ec w"
    and none: "mem_get env w (ids_peek (ec_ids ec)) = None"
    and fn: "\<And>w. fn 1 w = (Inr v, w)"
    and sz: "sz_marshal (so_serdes options) (ids_peek (ec_ids ec)) v = Inr s"
      "sz_unmarshal (so_serdes options) (ids_peek (ec_ids ec)) s = Inr v'" "length s \<le> stepPayloadLimit"
    and mode: "ec_mode ec \<noteq> modeReplaySucceededContext"
  shows "\<exists>ec' w'. Step (Suc n) (memEngine env) None ec nm fn options w = Some (Inr v', ec', w') \<and>
     stepRecord (memEngine env) (ids_peek (ec_ids ec)) nm options (Inr v') w' \<and>
     healthy env base w' \<and> canClaim (memEngine env) (ec_ids ec') ec' w'"
proof -
  let ?E = "memEngine env" and ?i = "ids_peek (ec_ids ec)"
  have n: "ids_next (ec_ids ec) = (?i, snd (ids_next (ec_ids ec)))" by (simp only: ids_peek_next prod.collapse)
  obtain ec1 where c: "claimOperation ?E None ec w = (Inr ?i, ec1)" "canClaim ?E (snd (ids_next (ec_ids ec))) ec1 w"
    using claimOperation_can [OF can n] by blast
  have m1: "ec_mode ec1 \<noteq> modeReplaySucceededContext" by (rule claimOperation_mode [OF c(1) mode])
  obtain w1 where w1: "startStepAttempt ?E ec1 ?i nm options None None w = (None, w1)" "healthy env base w1"
    "wd_fired w1 = wd_fired w" "liveAt ?E OperationTypeStep ?i w1"
    by (rule start_accepted [OF env h none])
  let ?u = "stepUpdate ?E ec1 ?i nm (so_subType options) OperationActionSucceed \<lparr> ou_Payload := Some s \<rparr>"
  have u: "ou_Type ?u = OperationTypeStep" "ou_Payload ?u = Some s" "ou_Error ?u = None" "plainUpdate ?u"
    "ou_Id ?u = Some (env_hash env ?i)"
    by (simp_all add: stepUpdate_def plainUpdate_def)
  have val: "validateCheckpoint (env_jsonSize env) [?u] = None"
    by (rule step_update_valid) (simp_all add: u sz(3))
  have nt: "\<not> terminalRecord (mem_get env w1 p)" if "env_hash env ?i = env_hash env p" for p
    using liveAt_terminalRecord [OF w1(4)] that by (simp add: mem_get_def es_get_def)
  obtain w2 where w2: "mem_checkpoint env [?u] w1 = (None, w2)" "healthy env base w2" "wd_fired w2 = wd_fired w1"
    by (rule mem_checkpoint_accepted [OF env w1(2) val]) (use u nt in auto)
  have settle: "settleStepSuccess ?E ec1 ?i nm options v 1 w1 = (AttemptSettled (Inr v'), w2)"
    using w2(1) sz by (simp add: settleStepSuccess_def decodeLiveResult_def Let_def)
  have ex: "executeStepAttempt ?E ec1 ?i nm fn options None 1 None w = (AttemptSettled (Inr v'), w2)"
    using w1(1) settle by (simp add: executeStepAttempt_def fn)
  have run: "runStep (Suc n) ?E ec1 ?i nm fn options None w = Some (Inr v', ec1, w2)"
    using none m1 ex
    by (simp add: runStep_def validateReplayConsistency_def unfinishedInSucceededContext_def stepTurn_def Let_def
        nextAttempt_def afterAttempt_def)
  have ok1: "mem_ok env base w1" using w1(2) by (simp add: healthy_def)
  have "recorded ?u (mem_get env w1 ?i) (mem_get env w2 ?i)"
    by (rule mem_checkpoint_recorded [OF ok1 w2(1)]) (simp_all add: u)
  then have rec: "recorded ?u (eng_get ?E w1 ?i) (eng_get ?E w2 ?i)" by simp
  have "stepRecord ?E ?i nm options (Inr v') w2"
    by (rule recorded_succeeded_step [OF rec refl]) (simp add: sz(2))
  then show ?thesis
    using c run w1(3) w2(2,3) by (auto simp: Step_def canClaim_def)
qed

end
