(* ===== verification/Example_Execution.thy ===== *)
theory Example_Execution
  imports Healthy
begin

text \<open>
  A concrete environment, handler and run, on which the properties of whole
  invocations are instantiated.
\<close>

section \<open>An execution\<close>

definition ex_env :: environment where
  "ex_env = \<lparr> env_hash = (\<lambda>s. ''h'' @ s), env_durationText = (\<lambda>_. ''d''), env_size = length, env_jsonSize = (\<lambda>_. 0),
     env_target = (\<lambda>_. None), env_events = (\<lambda>_. []), env_fault = (\<lambda>_. CallAnswered), env_patience = (\<lambda>_. 0),
     env_committed = (\<lambda>_. False) \<rparr>"

definition ex_serdes :: "string serdes" where
  "ex_serdes = \<lparr> sz_marshal = (\<lambda>i v. Inr v), sz_unmarshal = (\<lambda>i v. Inr v) \<rparr>"

definition ex_options :: "string stepOptions" where
  "ex_options = \<lparr> so_retry = (\<lambda>_ _. (False, 0)), so_serdes = ex_serdes, so_semantics = AtMostOncePerRetry, so_subType = ''Step'' \<rparr>"

definition ex_body :: "(string, world) stepBody" where
  "ex_body a w = (Inr ''v'', w)"

definition ex_handler :: "(string, world) prog" where
  "ex_handler = POp (LStep ''a'' ex_body ex_options) (\<lambda>obs. PReturn (case obs of ObsValue out \<Rightarrow> out | ObsWait _ \<Rightarrow> Inr []))"

lemma ex_env_facts [simp]: "answers ex_env" "inj (env_hash ex_env)"
  by (simp_all add: ex_env_def answers_def inj_def)

lemma ex_handler_pure: "progPure ex_handler"
  by (simp add: ex_handler_def leafPure_def ex_options_def ex_serdes_def ex_body_def pureBody_def serdesErrorsOk_def)

lemma healthy_begin: "serviceOk m \<Longrightarrow> keeps base (svcRec m) \<Longrightarrow> mc_omitTokenIn m = 0 \<Longrightarrow> healthy env base (beginWorld m)"
  by (simp add: healthy_def beginWorld_ok beginWorld_svc beginInvocation_def Let_def)

lemma ex_healthy: "healthy ex_env Map.empty (beginWorld (newMemoryClient 0))"
  by (rule healthy_begin [OF serviceOk_new keeps_empty]) (simp add: newMemoryClient_def)

lemma ex_view: "mem_get ex_env (beginWorld (newMemoryClient 0)) i = None"
  by (simp add: mem_get_def es_get_def beginWorld_view [OF serviceOk_new]) (simp add: newMemoryClient_def)

lemma ex_canClaim: "canClaim (memEngine env) (ec_ids (newExecContext k)) (newExecContext k) (beginWorld m)"
  by (simp add: canClaim_def beginWorld_svc newExecContext_def)

text \<open>Its run in a fresh execution.\<close>

lemma ex_run:
  obtains ec w where "runProg 1 (memEngine ex_env) ex_handler (newExecContext 1) (beginWorld (newMemoryClient 0)) =
       Some (Inr ''v'', [(True, ObsValue (Inr ''v''))], ec, w)"
    "stepRecord (memEngine ex_env) (ids_peek ids_root) ''a'' ex_options (Inr ''v'') w"
proof -
  obtain ec w where s: "Step (Suc 0) (memEngine ex_env) None (newExecContext 1) ''a'' ex_body ex_options
      (beginWorld (newMemoryClient 0)) = Some (Inr ''v'', ec, w)"
    "stepRecord (memEngine ex_env) (ids_peek ids_root) ''a'' ex_options (Inr ''v'') w"
    using step_completes [OF ex_env_facts(1) ex_healthy ex_canClaim [where k = 1] ex_view, where fn = ex_body and v = "''v''" and
        options = ex_options and s = "''v''" and v' = "''v''"  and n = 0 and nm = "''a''"]
    by (auto simp: ex_body_def ex_options_def ex_serdes_def stepPayloadLimit_def newExecContext_def)
  have "terminalRecord (eng_get (memEngine ex_env) w (ids_peek ids_root))"
    using s(2) by (auto simp: stepRecord_def terminalRecord_def dest: stepReplays_terminal split: option.splits)
  then have held: "leafHeld (memEngine ex_env) (newExecContext 1) (ObsValue (Inr ''v'')) w"
    by (simp add: leafHeld_def settledObs_def outcomeSettled_def newExecContext_def)
  show ?thesis
    by (rule that [OF _ s(2)])
       (simp add: ex_handler_def runLeaf_def s(1) [unfolded One_nat_def] observe_def held [unfolded One_nat_def])
qed

end
