(* ===== verification/Replay_Properties.thy ===== *)
theory Replay_Properties
  imports Example_Execution
begin

text \<open>
  The properties of replay and progress over whole invocations on the local
  service, each with an execution that meets its hypotheses.
\<close>

section \<open>Properties\<close>

text \<open>C3: Exactly once: on a service that answers its calls, a step with no record whose body returns a value that its
  serializer encodes within the payload limit and decodes again completes in one pass of its loop with the decoded
  value, and the success is in the log: whatever body the step is given, running it again from the same position
  returns the same value at once and leaves the world as it is.\<close>
theorem step_completes_exactly_once:
  assumes env: "answers env" and h: "healthy env base w" and can: "canClaim (memEngine env) (ec_ids ec) ec w"
    and none: "mem_get env w (ids_peek (ec_ids ec)) = None"
    and fn: "\<And>w. fn 1 w = (Inr v, w)"
    and sz: "sz_marshal (so_serdes options) (ids_peek (ec_ids ec)) v = Inr s"
      "sz_unmarshal (so_serdes options) (ids_peek (ec_ids ec)) s = Inr v'" "length s \<le> stepPayloadLimit"
    and mode: "ec_mode ec \<noteq> modeReplaySucceededContext"
  shows "\<exists>ec' w'. Step (Suc n) (memEngine env) None ec nm fn options w = Some (Inr v', ec', w') \<and>
     (\<exists>ec''. Step (Suc n) (memEngine env) None ec nm again options w' = Some (Inr v', ec'', w'))"
proof -
  obtain ec' w' where s: "Step (Suc n) (memEngine env) None ec nm fn options w = Some (Inr v', ec', w')"
    "stepRecord (memEngine env) (ids_peek (ec_ids ec)) nm options (Inr v') w'"
    "canClaim (memEngine env) (ec_ids ec') ec' w'"
    using step_completes [where fn = fn and n = n and nm = nm, OF env h can none fn sz mode] by blast
  have n: "ids_next (ec_ids ec) = (ids_peek (ec_ids ec), snd (ids_next (ec_ids ec)))"
    by (simp only: ids_peek_next prod.collapse)
  have "canClaim (memEngine env) (ec_ids ec) ec w'" using can s(3) by (simp add: canClaim_def)
  then obtain ec'' where "Step (Suc n) (memEngine env) None ec nm again options w' = Some (Inr v', ec'', w')"
    using Step_replay [OF _ n s(2)] by blast
  then show ?thesis using s(1) by blast
qed

theorem step_completes_exactly_once_witness:
  "\<exists>ec' w' ec''. Step 1 (memEngine ex_env) None (newExecContext 1) ''a'' ex_body ex_options (beginWorld (newMemoryClient 0)) =
       Some (Inr ''v'', ec', w') \<and>
     Step 1 (memEngine ex_env) None (newExecContext 1) ''a'' (\<lambda>a w. (Inr ''other'', w)) ex_options w' = Some (Inr ''v'', ec'', w')"
  using step_completes_exactly_once [OF ex_env_facts(1) ex_healthy ex_canClaim [where k = 1] ex_view, where fn = ex_body and v = "''v''" and
      options = ex_options and s = "''v''" and v' = "''v''"  and n = 0 and nm = "''a''" and
      again = "\<lambda>a w. (Inr ''other'', w)"]
  by (auto simp: ex_body_def ex_options_def ex_serdes_def stepPayloadLimit_def newExecContext_def)



text \<open>C2: A settled record is final: whatever invocations run and whatever happens between them, an operation that
  the service once stored as succeeded, failed or otherwise terminal keeps its status, attempts, result and error
  for the rest of the execution, because no operation ever updates a record it has seen settled.\<close>
theorem settled_records_are_final:
  assumes "inj h" and "serviceOk m" and "history h m m'" and "svcRec m i = Some op" and "status_terminal (op_status op)"
  shows "\<exists>op'. svcRec m' i = Some op' \<and> core op' = core op"
  using history_keeps [OF assms(3,1,2)] assms(4,5) by (auto simp: keeps_def)

theorem settled_records_are_final_witness:
  "\<exists>m op op'. serviceOk m \<and> svcRec m ''h1'' = Some op \<and> status_terminal (op_status op) \<and>
     svcRec (idleStep IdleTimers m) ''h1'' = Some op' \<and> core op' = core op"
proof -
  obtain ec w where r: "runProg 1 (memEngine ex_env) ex_handler (newExecContext 1) (beginWorld (newMemoryClient 0)) =
       Some (Inr ''v'', [(True, ObsValue (Inr ''v''))], ec, w)"
    "stepRecord (memEngine ex_env) (ids_peek ids_root) ''a'' ex_options (Inr ''v'') w"
    using ex_run by blast
  have "mem_ok ex_env Map.empty (beginWorld (newMemoryClient 0))" using ex_healthy by (simp add: healthy_def)
  then have w: "mem_ok ex_env Map.empty w"
    using mem.outside_ok [OF mem.runProg_within [OF _ _ progPure_ok [OF ex_handler_pure] r(1)]] by simp
  have i: "ids_peek ids_root = ''1''" by code_simp
  obtain op where op: "mem_get ex_env w ''1'' = Some op" "status_terminal (op_status op)"
    using r(2) unfolding i by (auto simp: stepRecord_def dest: stepReplays_terminal split: option.splits)
  have "viewHeld ex_env (mem_state w) (wd_svc w)" using w by (simp add: mem_ok_def)
  then obtain op' where "svcRec (wd_svc w) (env_hash ex_env ''1'') = Some op'" "core op' = core op"
    using op unfolding viewHeld_def mem_get_def by blast
  then have op': "svcRec (wd_svc w) ''h1'' = Some op'" "status_terminal (op_status op')"
    using core_facts(1) [of op' op] op(2) by (simp_all add: ex_env_def)
  show ?thesis
    using settled_records_are_final [OF ex_env_facts(2) mem_ok_service [OF w] history_idle [OF history_start] op'] op'
      mem_ok_service [OF w] by blast
qed

end
