(* ===== verification/Operation_Properties.thy ===== *)
theory Operation_Properties
  imports Example_Execution
begin

text \<open>
  Properties of single operations beyond whole-handler replay: the failures an
  invoke and a WaitForCallback report, the outcome of a callback over the
  invocations that read it, and what a polled condition resumes from.
\<close>

section \<open>Invoke failures\<close>

definition sentinelLost :: "string set" where
  "sentinelLost = {''StepInterruptedError'', ''CallbackExternalError'', ''CallbackTimeoutError'', ''Callback.Timeout'',
     ''Callback.Heartbeat'', ''CallbackSubmitterError'', ''BatchCompletionError'', ''NonDeterministicExecutionError''}"

lemma errors_Is_Err:
  "errors_Is (Err k cs) s \<longleftrightarrow>
     k = KSentinel s \<or> s = ErrRetryableSerdes \<and> k = KRetryableSerdes \<or> list_ex (\<lambda>c. errors_Is c s) cs"
  by (auto simp: errors_Is_def list_ex_iff)

lemma errors_Is_standIn: "errors_Is (standIn s r) t \<longleftrightarrow> s = Some t"
  by (cases s) (simp_all add: standIn_def sentinel_list_def errors_Is_Err)

lemma errors_Is_reconstruct:
  assumes "t \<in> set sdkErrorsByWireType" and "er_errType r = t" and "s \<noteq> ErrCallbackTimedOut"
  shows "errors_Is (reconstructSDKError t name r (Some s)) s \<longleftrightarrow> t \<notin> sentinelLost"
  using assms(1) unfolding sdkErrorsByWireType_def
  by (simp, elim disjE)
     (simp_all add: reconstructSDKError.simps assms(2) assms(3) [symmetric] Let_def sentinelLost_def isCallbackTimeoutType_def
        newCallbackExternalError_def newCallbackTimeoutError_def newCallbackSubmitterError_def errors_Is_Err errors_Is_standIn)

lemma errors_Is_cause:
  "s \<noteq> ErrCallbackTimedOut \<Longrightarrow> errors_Is (cause name (Some s) r) s \<longleftrightarrow> er_errType r \<notin> sentinelLost"
  by (auto simp: cause_def errors_Is_reconstruct errors_Is_standIn) (auto simp: sentinelLost_def sdkErrorsByWireType_def)

text \<open>C12: A failed invoke reports its record: the error names the invoke, the function and the terminal status, and
  carries the recorded type, message, data and trace; and errors.Is finds the sentinel of an externally assigned
  status (timed out, stopped, cancelled) exactly when the recorded error type is not one of the eight that are
  rebuilt without a wrapped cause.\<close>
theorem invoke_failure_reports_record:
  assumes "op_invoke op = Some d" and "status_terminal (op_status op)" and "op_status op \<noteq> statusSucceeded"
  shows "invokeOutcome E op i nm functionID options w = (Inl (invokeErrorFromCheckpoint nm functionID op), w) \<and>
    err_kind (invokeErrorFromCheckpoint nm functionID op) = KInvoke nm functionID (op_status op) (id_record d) \<and>
    (\<forall>(s, st) \<in> {(ErrInvokeTimedOut, statusTimedOut), (ErrExecutionStopped, statusStopped),
           (ErrExecutionCancelled, statusCancelled)}. op_status op = st \<longrightarrow>
         errors_Is (invokeErrorFromCheckpoint nm functionID op) s = (er_errType (id_record d) \<notin> sentinelLost))"
  using assms
  by (cases "op_status op") (simp_all add: invokeOutcome_def invokeErrorFromCheckpoint_def errors_Is_Err errors_Is_cause Let_def)

definition ex_invoke :: "string \<Rightarrow> operation" where
  "ex_invoke ty = (newOperation ''h1'' '''' statusTimedOut OperationTypeChainedInvoke ''ChainedInvoke'' ''pay'')
     \<lparr> op_invoke := Some \<lparr> id_result = '''', id_record = noError \<lparr> er_errType := ty, er_message := ''late'' \<rparr> \<rparr> \<rparr>"

lemma ex_invoke_facts [simp]:
  "op_invoke (ex_invoke ty) = Some \<lparr> id_result = '''', id_record = noError \<lparr> er_errType := ty, er_message := ''late'' \<rparr> \<rparr>"
  "op_status (ex_invoke ty) = statusTimedOut"
  by (simp_all add: ex_invoke_def newOperation_def)

theorem invoke_failure_reports_record_witness:
  "errors_Is (invokeErrorFromCheckpoint ''pay'' ''fn'' (ex_invoke ''Timeout'')) ErrInvokeTimedOut \<and>
   \<not> errors_Is (invokeErrorFromCheckpoint ''pay'' ''fn'' (ex_invoke ''StepInterruptedError'')) ErrInvokeTimedOut"
  using invoke_failure_reports_record [of "ex_invoke ''Timeout''" _ "memEngine ex_env" "''1''" "''pay''" "''fn''" undefined
      "beginWorld (newMemoryClient 0)", THEN conjunct2, THEN conjunct2]
    invoke_failure_reports_record [of "ex_invoke ''StepInterruptedError''" _ "memEngine ex_env" "''1''" "''pay''" "''fn''" undefined
      "beginWorld (newMemoryClient 0)", THEN conjunct2, THEN conjunct2]
  by (simp add: sentinelLost_def noError_def)

section \<open>Callbacks\<close>

text \<open>C9: The outcome of a callback is stable: once Result has returned an outcome of a pending callback (a decoded
  payload, an external failure, a timeout or a permanent decoding failure), then after any further history of the
  execution, creating the callback again at its position and reading it returns the same outcome without any call to
  the service.\<close>
theorem callback_outcome_is_stable:
  assumes "inj (env_hash env)" and ok: "mem_ok env Map.empty w"
    and rec: "mem_get env w i = Some op0" "identityOf op0 = (OperationTypeCallback, cbo_subType options, nm)"
    and out: "callbackOutcome (memEngine env) i nm options \<lparr> cbk_id = cid, cbk_future = CbPending \<rparr> w = Some (out, w')"
      "\<And>e. out = Inl e \<Longrightarrow> \<not> infra e"
    and hist: "history (env_hash env) (wd_svc w') m2" and env2: "env_hash env2 = env_hash env"
  shows "callbackReplays (memEngine env2) ec i nm options out (beginWorld m2)"
proof -
  obtain op where op: "mem_get env w' i = Some op" "status_terminal (op_status op)"
    "observeCallbackOutcome (memEngine env) op i nm options w' = (out, w')"
    "mem.others env Map.empty i w w'" "evolves (mem_get env w i) (mem_get env w' i)"
    using mem.callbackOutcome_record [OF ok out] by auto
  have id: "identityOf op = (OperationTypeCallback, cbo_subType options, nm)"
    using op(1,5) rec by (simp add: evolves_def)
  have ok': "mem_ok env Map.empty w'" by (rule mem.others_ok [OF op(4)])
  have "serviceOk m2 \<and> keeps (svcRec (wd_svc w')) (svcRec m2)"
    using history_keeps [OF hist assms(1) mem_ok_service [OF ok']] .
  then have "holds (memEngine env) w' (beginWorld m2)" using next_view_holds [OF ok'] by blast
  then obtain op2 where op2: "mem_get env (beginWorld m2) i = Some op2" "core op2 = core op"
    using op(1,2) by (auto simp: holds_def)
  show ?thesis
  proof (rule terminal_callback_replays)
    show "eng_get (memEngine env2) (beginWorld m2) i = Some op2" using op2(1) by (simp add: mem_get_def env2)
    show "identityOf op2 = (OperationTypeCallback, cbo_subType options, nm)" using core_facts(2) [OF op2(2)] id by simp
    show "status_terminal (op_status op2)" using core_facts(1) [OF op2(2)] op(2) by simp
    show "observeCallbackOutcome (memEngine env2) op2 i nm options (beginWorld m2) = (out, beginWorld m2)"
      unfolding observeCallbackOutcome_core [OF op2(2)] by (rule observeCallbackOutcome_stable(2) [OF op(3) out(2)])
  qed
qed

text \<open>A service that holds one callback.\<close>

definition ex_callback :: "operationStatus \<Rightarrow> apiOperation" where
  "ex_callback st =
     \<lparr> ao_Id = Some ''h1'', ao_Status = st, ao_Type = OperationTypeCallback, ao_SubType = Some ''Callback'', ao_Name = Some ''c'',
       ao_ParentId = None, ao_StartTimestamp = None, ao_EndTimestamp = None, ao_InputPayload = None, ao_StepDetails = None,
       ao_WaitDetails = None, ao_CallbackDetails = Some \<lparr> acb_CallbackId = Some ''cid'', acb_Result = Some ''yes'', acb_Error = None \<rparr>,
       ao_ChainedInvokeDetails = None, ao_ContextDetails = None \<rparr>"

definition ex_callback_service :: "operationStatus \<Rightarrow> memoryClient" where
  "ex_callback_service st = (newMemoryClient 0)
     \<lparr> mc_operations := [''h1'' \<mapsto> ex_callback st], mc_opOrder := [''h1''] \<rparr>"

definition ex_callback_options :: "string callbackOptions" where
  "ex_callback_options = \<lparr> cbo_timeout = 0, cbo_heartbeatTimeout = 0, cbo_retryStrategy = (\<lambda>_ _. (False, 0)),
     cbo_serdes = rawSerdes, cbo_zero = '''', cbo_subType = ''Callback'' \<rparr>"

lemma ex_callback_service_ok: "serviceOk (ex_callback_service st)"
  by (auto simp: serviceOk_def mc_wf_def logOk_def svcRec_def ex_callback_service_def ex_callback_def newMemoryClient_def
      recOk_def attemptOf_def operationFromAPI_step selfSettled_def split: if_splits)

lemma ex_callback_view:
  "mem_get ex_env (beginWorld (ex_callback_service st)) ''1'' =
     Some ((untimed (operationFromAPI (ex_callback st))) \<lparr> op_parentID := '''' \<rparr>)"
  by (simp add: mem_get_def es_get_def beginWorld_view [OF ex_callback_service_ok])
     (simp add: ex_env_def ex_callback_service_def ex_callback_def)

lemma ex_callback_result:
  "callbackOutcome (memEngine ex_env) ''1'' ''c'' ex_callback_options \<lparr> cbk_id = ''cid'', cbk_future = CbPending \<rparr>
     (beginWorld (ex_callback_service statusSucceeded)) = Some (Inr ''yes'', beginWorld (ex_callback_service statusSucceeded))"
proof -
  have "env_patience ex_env n = 0" for n by (simp add: ex_env_def)
  then have "mem_await ex_env ''1'' terminalRecord (beginWorld (ex_callback_service statusSucceeded)) =
      (Inr ((untimed (operationFromAPI (ex_callback statusSucceeded))) \<lparr> op_parentID := '''' \<rparr>),
       beginWorld (ex_callback_service statusSucceeded))"
    using ex_callback_view [of statusSucceeded]
    by (simp add: mem_await_def beginWorld_svc terminalRecord_def untimed_def ex_callback_def)
  then show ?thesis
    by (simp add: callbackOutcome_def observeCallbackOutcome_def)
       (simp add: untimed_def operationFromAPI_def newOperation_def setTimestamps_def ex_callback_def ex_callback_options_def
          rawSerdes_def resolveCallbackSuccess_def Let_def)
qed

theorem callback_outcome_is_stable_witness:
  "callbackReplays (memEngine ex_env) (newExecContext 1) ''1'' ''c'' ex_callback_options (Inr ''yes'')
     (beginWorld (wd_svc (beginWorld (ex_callback_service statusSucceeded))))"
proof (rule callback_outcome_is_stable [OF ex_env_facts(2) _ ex_callback_view _ ex_callback_result _ history_start refl])
  show "mem_ok ex_env Map.empty (beginWorld (ex_callback_service statusSucceeded))"
    by (rule beginWorld_ok [OF ex_callback_service_ok keeps_empty])
qed (simp_all add: identityOf_def untimed_def ex_callback_def ex_callback_options_def)




definition ex_wfcb_service :: "operationStatus \<Rightarrow> memoryClient" where
  "ex_wfcb_service st = (newMemoryClient 0)
     \<lparr> mc_operations := [''h7-1'' \<mapsto> ex_callback st \<lparr> ao_Id := Some ''h7-1'' \<rparr>], mc_opOrder := [''h7-1''] \<rparr>"

lemma ex_wfcb_service_ok: "serviceOk (ex_wfcb_service st)"
  by (auto simp: serviceOk_def mc_wf_def logOk_def svcRec_def ex_wfcb_service_def ex_callback_def newMemoryClient_def
      recOk_def attemptOf_def operationFromAPI_step selfSettled_def split: if_splits)

lemma ex_wfcb_view:
  "eng_get (memEngine ex_env) (beginWorld (ex_wfcb_service st)) (''7'' @ ''-1'') =
     Some ((untimed (operationFromAPI (ex_callback st \<lparr> ao_Id := Some ''h7-1'' \<rparr>))) \<lparr> op_parentID := '''' \<rparr>)"
  by (simp add: mem_get_def es_get_def beginWorld_view [OF ex_wfcb_service_ok])
     (simp add: ex_env_def ex_wfcb_service_def ex_callback_def)

lemma ex_wfcb_details:
  "op_callback (untimed (operationFromAPI (ex_callback st \<lparr> ao_Id := Some ''h7-1'' \<rparr>)) \<lparr> op_parentID := '''' \<rparr>) =
     Some \<lparr> cb_callbackID = ''cid'', cb_result = ''yes'', cb_record = noError \<rparr>"
  by (simp add: untimed_def operationFromAPI_def newOperation_def setTimestamps_def ex_callback_def Let_def record_of_api_def)

lemma ex_wfcb_status:
  "op_status (untimed (operationFromAPI (ex_callback st \<lparr> ao_Id := Some ''h7-1'' \<rparr>)) \<lparr> op_parentID := '''' \<rparr>) = st"
  by (simp add: untimed_def ex_callback_def)




section \<open>Polled conditions\<close>

text \<open>C13: On the local service the START of a later poll erases the state the last poll recorded: the service keeps only
  the attempt count, so a check interrupted between its START and its outcome is polled again from the initial state,
  although the attempt number goes on.\<close>
theorem condition_start_forgets_state:
  "conditionState cfg i (Some (operationFromAPI
      (updatedRecord (waitForConditionUpdate E ec j nm OperationActionStart) existing now))) = Inr (cc_InitialState cfg) \<and>
   attemptOf (Some (operationFromAPI
      (updatedRecord (waitForConditionUpdate E ec j nm OperationActionStart) existing now))) =
     attemptOf (map_option operationFromAPI existing)"
proof -
  let ?u = "waitForConditionUpdate E ec j nm OperationActionStart"
  have u: "ou_Type ?u = OperationTypeStep" "ou_Action ?u = OperationActionStart" "ou_Payload ?u = None"
    by (simp_all add: waitForConditionUpdate_def)
  have "recorded ?u (map_option operationFromAPI existing) (Some (operationFromAPI (updatedRecord ?u existing now)))"
    by (rule updatedRecord_recorded) (simp_all add: u)
  then show ?thesis by (auto simp: recorded_def u conditionState_def)
qed

end
