(* ===== verification/Suspend.thy ===== *)
theory Suspend
  imports Checkpointer Engine "HOL-Library.Word"
begin

text \<open>
  The suspension signal (suspend.go, park.go, the parking half of future.go)
  as a state machine.  Goroutines that run handler code register, park on an
  operation, a future or a channel, and are woken by whoever ends their block;
  the invocation suspends when none of them can go on.  Each action is one
  critical section of the code, so everything a goroutine does between
  releasing the lock and taking it again is a state of its own: the calls of
  maybeSuspend that have not locked yet, the settle periods being observed,
  the goroutine about to fire, the futures fire still has to settle, the poll
  timers and the polls in flight.  A history field (ss_pollsEnded), which no
  guard reads, records that a poll was withheld near the deadline or refused
  by the terminated checkpointer.  Channels, waiters, futures, gates and
  parkers are objects with an identity and live in lists indexed by it.
  Times are inputs of the actions, in nanoseconds.
\<close>

section \<open>Data\<close>

text \<open>A handle and the handles of its enclosing subtrees; the mark is in the state.\<close>

datatype abandonHandle = AbandonHandle nat "abandonHandle option"

fun lineage :: "abandonHandle \<Rightarrow> nat list" where
  "lineage (AbandonHandle i None) = [i]"
| "lineage (AbandonHandle i (Some h)) = i # lineage h"

fun handle_id :: "abandonHandle \<Rightarrow> nat" where
  "handle_id (AbandonHandle i _) = i"

definition handle_within :: "abandonHandle \<Rightarrow> abandonHandle \<Rightarrow> bool" where
  "handle_within h ancestor \<longleftrightarrow> handle_id ancestor \<in> set (lineage h)"

record parkWaiter =
  pw_woken :: bool
  pw_parked :: bool
  pw_err :: "goErr option"
  pw_abandon :: "abandonHandle option"
  pw_detached :: bool

record awaitGate =
  ag_awaited :: bool
  ag_waiters :: "nat list"

record parker =
  pk_parked :: bool
  pk_pending :: int

text \<open>A watch keeps its identity: the code compares the pointer a poll was scheduled for.\<close>

record opWatch =
  ow_uid :: nat
  ow_ready :: "operation option \<Rightarrow> bool"
  ow_endTime :: "operation option \<Rightarrow> time option"
  ow_waiters :: "nat list"
  ow_status :: operationStatus
  ow_timer :: bool
  ow_polls :: nat
  ow_epoch :: "64 word"

text \<open>A future: whether it is registered with the signal, the error of its outcome once settled, who is parked on it.\<close>

record futureCell =
  fc_registered :: bool
  fc_outcome :: "goErr option option"
  fc_waiters :: "nat list"

text \<open>A timer of the poll clock, and the poll it starts: the watch it was scheduled for, its epoch, its instant.\<close>

record pollRun =
  pr_wire :: string
  pr_uid :: nat
  pr_epoch :: "64 word"
  pr_at :: time

record suspendSignal =
  ss_firing :: bool
  ss_done :: bool
  ss_draining :: "nat list"
  ss_futures :: "nat list"
  ss_active :: int
  ss_executing :: int
  ss_executingGen :: "64 word"
  ss_rootCommitted :: bool
  ss_branchCommits :: "(abandonHandle \<times> nat) list"
  ss_parked :: int
  ss_gen :: "64 word"
  ss_settling :: bool
  ss_watches :: "(string \<times> opWatch) list"
  ss_firedReason :: string
  ss_pollsStopped :: bool
  ss_deadline :: "time option"
  ss_outstanding :: int
  ss_ctxEnded :: bool
  ss_state :: executionState
  ss_unmatched :: "operation list option"
  ss_abandonSet :: "nat list"
  ss_waiters :: "parkWaiter list"
  ss_parkers :: "parker list"
  ss_cells :: "futureCell list"
  ss_gates :: "awaitGate list"
  ss_nextWatch :: nat
  ss_timers :: "pollRun list"
  ss_started :: "pollRun list"
  ss_polling :: "pollRun list"
  ss_pollsEnded :: bool
  ss_checks :: nat
  ss_observers :: "64 word list"
  ss_fires :: nat

definition newSuspendSignal :: "time option \<Rightarrow> executionState \<Rightarrow> suspendSignal" where
  "newSuspendSignal deadline st =
     \<lparr> ss_firing = False, ss_done = False, ss_draining = [], ss_futures = [], ss_active = 0, ss_executing = 0,
       ss_executingGen = 0, ss_rootCommitted = False, ss_branchCommits = [], ss_parked = 0, ss_gen = 0,
       ss_settling = False, ss_watches = [], ss_firedReason = '''', ss_pollsStopped = False,
       ss_deadline = deadline, ss_outstanding = 0, ss_ctxEnded = False, ss_state = st, ss_unmatched = None,
       ss_abandonSet = [], ss_waiters = [], ss_parkers = [], ss_cells = [], ss_gates = [], ss_nextWatch = 0,
       ss_timers = [], ss_started = [], ss_polling = [], ss_pollsEnded = False, ss_checks = 0, ss_observers = [], ss_fires = 0 \<rparr>"

section \<open>Abandoned subtrees and commitments\<close>

definition abandoned :: "suspendSignal \<Rightarrow> abandonHandle option \<Rightarrow> bool" where
  "abandoned s ho = (case ho of None \<Rightarrow> False
     | Some h \<Rightarrow> list_ex (\<lambda>i. i \<in> set (ss_abandonSet s)) (lineage h))"

definition abandon :: "abandonHandle \<Rightarrow> suspendSignal \<Rightarrow> suspendSignal" where
  "abandon h s = s \<lparr> ss_abandonSet := handle_id h # ss_abandonSet s \<rparr>"

text \<open>Every mutation of the conditions advances the generation.\<close>

definition touch :: "suspendSignal \<Rightarrow> suspendSignal" where
  "touch s = s \<lparr> ss_gen := ss_gen s + 1 \<rparr>"

text \<open>A goroutine on its way into maybeSuspend.\<close>

definition enterCheck :: "suspendSignal \<Rightarrow> suspendSignal" where
  "enterCheck s = s \<lparr> ss_checks := ss_checks s + 1 \<rparr>"

definition commitPending :: "abandonHandle option \<Rightarrow> suspendSignal \<Rightarrow> suspendSignal" where
  "commitPending retirable s = (case retirable of
      None \<Rightarrow> enterCheck (touch (s \<lparr> ss_rootCommitted := True \<rparr>))
    | Some h \<Rightarrow>
        if abandoned s (Some h) then s
        else enterCheck (touch (s \<lparr> ss_branchCommits :=
          (h, (case map_of (ss_branchCommits s) h of None \<Rightarrow> 0 | Some n \<Rightarrow> n) + 1)
            # filter (\<lambda>(k, _). k \<noteq> h) (ss_branchCommits s) \<rparr>)))"

text \<open>retireCommitment marks the subtree first (abandon) and removes its commitments under the lock.\<close>

definition retireCommitments :: "abandonHandle \<Rightarrow> suspendSignal \<Rightarrow> suspendSignal" where
  "retireCommitments h s =
     s \<lparr> ss_branchCommits := filter (\<lambda>(k, _). \<not> handle_within k h) (ss_branchCommits s) \<rparr>"

definition commitmentLocked :: "suspendSignal \<Rightarrow> bool" where
  "commitmentLocked s \<longleftrightarrow> ss_rootCommitted s \<or> list_ex (\<lambda>(_, n). n > 0) (ss_branchCommits s)"

definition committedLocked :: "suspendSignal \<Rightarrow> bool" where
  "committedLocked s \<longleftrightarrow> commitmentLocked s \<or>
     list_ex (\<lambda>(_, w). list_ex (\<lambda>i. \<not> pw_detached (ss_waiters s ! i)) (ow_waiters w)) (ss_watches s)"

section \<open>Waiters\<close>

definition newWaiterLocked :: "abandonHandle option \<Rightarrow> bool \<Rightarrow> suspendSignal \<Rightarrow> nat \<times> suspendSignal" where
  "newWaiterLocked ab detached s =
     (length (ss_waiters s),
      s \<lparr> ss_waiters := ss_waiters s @
            [\<lparr> pw_woken = False, pw_parked = True, pw_err = None, pw_abandon = ab, pw_detached = detached \<rparr>],
          ss_parked := ss_parked s + 1, ss_gen := ss_gen s + 1 \<rparr>)"

definition wakeLocked :: "goErr option \<Rightarrow> nat \<Rightarrow> suspendSignal \<Rightarrow> suspendSignal" where
  "wakeLocked e i s =
    (let w = ss_waiters s ! i in
     if pw_woken w then s
     else let s' = s \<lparr> ss_waiters := (ss_waiters s)[i := w \<lparr> pw_woken := True, pw_err := e, pw_parked := False \<rparr>] \<rparr> in
       if pw_parked w then s' \<lparr> ss_parked := ss_parked s' - 1, ss_gen := ss_gen s' + 1 \<rparr> else s')"

abbreviation wakeAll :: "goErr option \<Rightarrow> nat list \<Rightarrow> suspendSignal \<Rightarrow> suspendSignal" where
  "wakeAll e is s \<equiv> fold (wakeLocked e) is s"

definition markAwaited :: "nat \<Rightarrow> suspendSignal \<Rightarrow> suspendSignal" where
  "markAwaited g s =
    (let gt = ss_gates s ! g in
     if ag_awaited gt then s
     else touch (s \<lparr> ss_gates := (ss_gates s)[g := \<lparr> ag_awaited = True, ag_waiters = [] \<rparr>],
                     ss_waiters := fold (\<lambda>i ws. ws[i := (ws ! i) \<lparr> pw_detached := False \<rparr>]) (ag_waiters gt)
                                     (ss_waiters s) \<rparr>))"

section \<open>Parkers\<close>

definition parker_park :: "nat \<Rightarrow> suspendSignal \<Rightarrow> suspendSignal" where
  "parker_park p s =
    (let k = ss_parkers s ! p in
     enterCheck (if \<not> pk_parked k \<and> pk_pending k = 0
       then s \<lparr> ss_parkers := (ss_parkers s)[p := k \<lparr> pk_parked := True \<rparr>],
                ss_parked := ss_parked s + 1, ss_gen := ss_gen s + 1 \<rparr>
       else s))"

text \<open>The waiting goroutine's own unpark when a signal is pending: shared by signal and received.\<close>

definition parker_unpark :: "int \<Rightarrow> nat \<Rightarrow> suspendSignal \<Rightarrow> suspendSignal" where
  "parker_unpark d p s =
    (let k = ss_parkers s ! p;
         s' = s \<lparr> ss_parkers := (ss_parkers s)[p := \<lparr> pk_parked = False, pk_pending = pk_pending k + d \<rparr>] \<rparr>
     in touch (if pk_parked k then s' \<lparr> ss_parked := ss_parked s' - 1 \<rparr> else s'))"

definition parker_signal :: "nat \<Rightarrow> suspendSignal \<Rightarrow> suspendSignal" where
  "parker_signal = parker_unpark 1"

definition parker_received :: "nat \<Rightarrow> suspendSignal \<Rightarrow> suspendSignal" where
  "parker_received = parker_unpark (- 1)"

section \<open>Branches and spans\<close>

definition registerBranch :: "suspendSignal \<Rightarrow> suspendSignal" where
  "registerBranch s = touch (s \<lparr> ss_active := ss_active s + 1 \<rparr>)"

definition deregisterBranch :: "suspendSignal \<Rightarrow> suspendSignal" where
  "deregisterBranch s = enterCheck (touch (s \<lparr> ss_active := ss_active s - 1 \<rparr>))"

definition enterExecuting :: "suspendSignal \<Rightarrow> suspendSignal" where
  "enterExecuting s =
     touch (s \<lparr> ss_executing := ss_executing s + 1, ss_executingGen := ss_executingGen s + 1 \<rparr>)"

definition exitExecuting :: "suspendSignal \<Rightarrow> suspendSignal" where
  "exitExecuting s = enterCheck (touch (s \<lparr> ss_executing := max 0 (ss_executing s - 1) \<rparr>))"

section \<open>Polls\<close>

definition second :: int where "second = 10 ^ 9"

definition initialPollDelay :: int where "initialPollDelay = second"
definition pollIntervalCeiling :: int where "pollIntervalCeiling = 10 * second"
definition extendedPollInterval :: int where "extendedPollInterval = 60 * second"
definition pollsBeforeExtendedInterval :: nat where "pollsBeforeExtendedInterval = 95"
definition minPollRemaining :: int where "minPollRemaining = second"

definition pollSchedule :: "nat \<Rightarrow> int" where
  "pollSchedule polls =
     (if polls > pollsBeforeExtendedInterval then extendedPollInterval
      else min (int polls * second) pollIntervalCeiling)"

text \<open>The map of watches: replacing the watch of an operation keeps its place.\<close>

definition setWatch :: "string \<Rightarrow> opWatch \<Rightarrow> suspendSignal \<Rightarrow> suspendSignal" where
  "setWatch wid w s = s \<lparr> ss_watches := map (\<lambda>(k, v). if k = wid then (k, w) else (k, v)) (ss_watches s) \<rparr>"

definition deleteWatch :: "string \<Rightarrow> suspendSignal \<Rightarrow> suspendSignal" where
  "deleteWatch wid s = s \<lparr> ss_watches := filter (\<lambda>(k, _). k \<noteq> wid) (ss_watches s) \<rparr>"

definition timerOf :: "opWatch \<Rightarrow> pollRun \<Rightarrow> bool" where
  "timerOf w t \<longleftrightarrow> pr_uid t = ow_uid w \<and> pr_epoch t = ow_epoch w"

definition stopTimerLocked :: "string \<Rightarrow> suspendSignal \<Rightarrow> suspendSignal" where
  "stopTimerLocked wid s = (case map_of (ss_watches s) wid of None \<Rightarrow> s
     | Some w \<Rightarrow> setWatch wid (w \<lparr> ow_timer := False, ow_epoch := ow_epoch w + 1 \<rparr>)
         (if ow_timer w then s \<lparr> ss_timers := filter (\<lambda>t. \<not> timerOf w t) (ss_timers s) \<rparr> else s))"

definition armPollLocked :: "string \<Rightarrow> int \<Rightarrow> time \<Rightarrow> suspendSignal \<Rightarrow> suspendSignal" where
  "armPollLocked wid delay now s0 =
    (let s = stopTimerLocked wid s0 in
     if ss_pollsStopped s then s
     else if (case ss_deadline s of None \<Rightarrow> False | Some d \<Rightarrow> now + delay > d - minPollRemaining)
     then s \<lparr> ss_pollsEnded := True \<rparr>
     else case map_of (ss_watches s) wid of None \<Rightarrow> s
       | Some w \<Rightarrow> (setWatch wid (w \<lparr> ow_timer := True \<rparr>) s)
           \<lparr> ss_timers := ss_timers s @
               [\<lparr> pr_wire = wid, pr_uid = ow_uid w, pr_epoch = ow_epoch w, pr_at = now + delay \<rparr>] \<rparr>)"

definition armFirstPollLocked :: "string \<Rightarrow> operation option \<Rightarrow> time \<Rightarrow> suspendSignal \<Rightarrow> suspendSignal" where
  "armFirstPollLocked wid op now s =
     (case map_of (ss_watches s) wid of None \<Rightarrow> s
      | Some w \<Rightarrow> armPollLocked wid
          (case ow_endTime w op of None \<Rightarrow> initialPollDelay | Some end \<Rightarrow> max (end - now) 0) now s)"

text \<open>
  pollWatch: the timer fires and its goroutine starts; it locks, drops a stale
  or late poll or takes the watch's timer off and sends the poll; it locks
  again once the poll returned and schedules the next one.
\<close>

definition currentWatch :: "suspendSignal \<Rightarrow> pollRun \<Rightarrow> opWatch option" where
  "currentWatch s p = (case map_of (ss_watches s) (pr_wire p) of None \<Rightarrow> None
     | Some w \<Rightarrow> if ow_uid w = pr_uid p \<and> ow_epoch w = pr_epoch p then Some w else None)"

definition timerFires :: "nat \<Rightarrow> time \<Rightarrow> suspendSignal \<Rightarrow> suspendSignal option" where
  "timerFires i now s =
     (if i < length (ss_timers s) \<and> pr_at (ss_timers s ! i) \<le> now
      then Some (s \<lparr> ss_timers := take i (ss_timers s) @ drop (Suc i) (ss_timers s),
                     ss_started := ss_started s @ [ss_timers s ! i] \<rparr>) else None)"

definition pollWatch_begin :: "time \<Rightarrow> suspendSignal \<Rightarrow> suspendSignal option" where
  "pollWatch_begin now s = (case ss_started s of [] \<Rightarrow> None
     | p # ps \<Rightarrow> Some (let s' = s \<lparr> ss_started := ps \<rparr> in
         if ss_pollsStopped s then s'
         else case currentWatch s p of None \<Rightarrow> s'
           | Some w \<Rightarrow> (let s'' = setWatch (pr_wire p) (w \<lparr> ow_timer := False \<rparr>) s' in
               if (case ss_deadline s of None \<Rightarrow> False | Some d \<Rightarrow> d - now < minPollRemaining)
               then s'' \<lparr> ss_pollsEnded := True \<rparr>
               else s'' \<lparr> ss_polling := ss_polling s @ [p \<lparr> pr_at := now \<rparr>] \<rparr>)))"

definition pollWatch_end :: "goErr option \<Rightarrow> time \<Rightarrow> suspendSignal \<Rightarrow> suspendSignal option" where
  "pollWatch_end err now s = (case ss_polling s of [] \<Rightarrow> None
     | p # ps \<Rightarrow> Some (let s' = s \<lparr> ss_polling := ps \<rparr> in
         enterCheck
           (if (case err of Some e \<Rightarrow> errors_Is e errCheckpointTerminated | None \<Rightarrow> False)
            then s' \<lparr> ss_pollsEnded := True \<rparr>
            else case currentWatch s p of None \<Rightarrow> s'
              | Some w \<Rightarrow> armPollLocked (pr_wire p) (pollSchedule (ow_polls w + 1)) now
                  (setWatch (pr_wire p) (w \<lparr> ow_polls := ow_polls w + 1 \<rparr>) s'))))"

definition stopPolls :: "suspendSignal \<Rightarrow> suspendSignal" where
  "stopPolls s = fold stopTimerLocked (map fst (ss_watches s)) (s \<lparr> ss_pollsStopped := True \<rparr>)"

section \<open>Awaiting an operation\<close>

datatype awaitStart = AwaitSuspends | AwaitReturns "operation option" | AwaitParks nat

definition addGateWaiter :: "nat option \<Rightarrow> nat \<Rightarrow> suspendSignal \<Rightarrow> suspendSignal" where
  "addGateWaiter gated i s = (case gated of None \<Rightarrow> s
     | Some g \<Rightarrow> s \<lparr> ss_gates := (ss_gates s)
         [g := (ss_gates s ! g) \<lparr> ag_waiters := ag_waiters (ss_gates s ! g) @ [i] \<rparr>] \<rparr>)"

definition addWatch :: "string \<Rightarrow> (operation option \<Rightarrow> bool) \<Rightarrow> (operation option \<Rightarrow> time option) \<Rightarrow>
    operation option \<Rightarrow> suspendSignal \<Rightarrow> suspendSignal" where
  "addWatch wid ready endTime op s =
     s \<lparr> ss_watches := ss_watches s @
           [(wid, \<lparr> ow_uid = ss_nextWatch s, ow_ready = ready, ow_endTime = endTime, ow_waiters = [],
                    ow_status = (case op of None \<Rightarrow> statusOther '''' | Some r \<Rightarrow> op_status r),
                    ow_timer = False, ow_polls = 0, ow_epoch = 0 \<rparr>)],
         ss_nextWatch := ss_nextWatch s + 1 \<rparr>"

definition addWatchWaiter :: "string \<Rightarrow> nat \<Rightarrow> suspendSignal \<Rightarrow> suspendSignal" where
  "addWatchWaiter wid i s = (case map_of (ss_watches s) wid of None \<Rightarrow> s
     | Some w \<Rightarrow> setWatch wid (w \<lparr> ow_waiters := ow_waiters w @ [i] \<rparr>) s)"

text \<open>The part that parks the goroutine: a waiter, its gate, and a watch if the operation has none.\<close>

definition parkOnOperation :: "string \<Rightarrow> abandonHandle option \<Rightarrow> bool \<Rightarrow> nat option \<Rightarrow>
    (operation option \<Rightarrow> bool) \<Rightarrow> (operation option \<Rightarrow> time option) \<Rightarrow> operation option \<Rightarrow> time \<Rightarrow> suspendSignal \<Rightarrow>
    nat \<times> suspendSignal" where
  "parkOnOperation wid ab detached gated ready endTime op now s =
    (let (i, s1) = newWaiterLocked ab (detached \<or> gated \<noteq> None) s;
         s2 = addGateWaiter gated i s1;
         s3 = (if map_of (ss_watches s2) wid = None
               then armFirstPollLocked wid op now (addWatch wid ready endTime op s2) else s2)
     in (i, enterCheck (addWatchWaiter wid i s3)))"

definition awaitOperation_begin :: "string \<Rightarrow> abandonHandle option \<Rightarrow> bool \<Rightarrow> nat option \<Rightarrow>
    (operation option \<Rightarrow> bool) \<Rightarrow> (operation option \<Rightarrow> time option) \<Rightarrow> time \<Rightarrow> suspendSignal \<Rightarrow>
    awaitStart \<times> suspendSignal" where
  "awaitOperation_begin wid ab detached gate ready endTime now s =
    (if ss_firing s \<or> abandoned s ab then (AwaitSuspends, s)
     else let op = getByWireID (ss_state s) wid in
       if ready op then (AwaitReturns op, s)
       else let gated = (case gate of None \<Rightarrow> None
              | Some g \<Rightarrow> if ag_awaited (ss_gates s ! g) then None else Some g);
            (i, s') = parkOnOperation wid ab detached gated ready endTime op now s
        in (AwaitParks i, s'))"

section \<open>Responses\<close>

text \<open>
  A response is merged into the state first and matched against the watches
  afterwards; one flusher does both, so at most one response is in between.
\<close>

definition mergeResponse :: "operation list \<Rightarrow> suspendSignal \<Rightarrow> suspendSignal option" where
  "mergeResponse ops s =
     (if ss_unmatched s = None
      then Some (s \<lparr> ss_state := es_merge ops (ss_state s), ss_unmatched := Some ops \<rparr>) else None)"

text \<open>A watch ends: its poll is cancelled and its waiters resume (onStateMerged and fire share these lines).\<close>

definition endWatch :: "goErr option \<Rightarrow> string \<Rightarrow> opWatch \<Rightarrow> suspendSignal \<Rightarrow> suspendSignal" where
  "endWatch e wid w s = deleteWatch wid (wakeAll e (ow_waiters w) (stopTimerLocked wid s))"

definition matchRecord :: "time \<Rightarrow> operation \<Rightarrow> suspendSignal \<Rightarrow> suspendSignal" where
  "matchRecord now op s = (case map_of (ss_watches s) (op_id op) of None \<Rightarrow> s
     | Some w \<Rightarrow>
        if ow_ready w (Some op)
        then endWatch None (op_id op) w s
        else if op_status op \<noteq> ow_status w
        then touch (armFirstPollLocked (op_id op) (Some op) now
                      (setWatch (op_id op) (w \<lparr> ow_status := op_status op \<rparr>) s))
        else s)"

definition onStateMerged :: "time \<Rightarrow> suspendSignal \<Rightarrow> suspendSignal option" where
  "onStateMerged now s = (case ss_unmatched s of None \<Rightarrow> None
     | Some ops \<Rightarrow> Some (fold (matchRecord now) ops (s \<lparr> ss_unmatched := None \<rparr>)))"

text \<open>wakeAbandoned visits every watch.\<close>

definition wakeAbandoned1 :: "string \<Rightarrow> suspendSignal \<Rightarrow> suspendSignal" where
  "wakeAbandoned1 wid s = (case map_of (ss_watches s) wid of None \<Rightarrow> s
     | Some w \<Rightarrow>
        (let gone = (\<lambda>i. abandoned s (pw_abandon (ss_waiters s ! i)));
             kept = filter (\<lambda>i. \<not> gone i) (ow_waiters w);
             s' = setWatch wid (w \<lparr> ow_waiters := kept \<rparr>)
                    (wakeAll (Some (sentinelErr errSuspendExecution)) (filter gone (ow_waiters w)) s)
         in if kept = [] then deleteWatch wid (stopTimerLocked wid s') else s'))"

definition wakeAbandoned :: "suspendSignal \<Rightarrow> suspendSignal" where
  "wakeAbandoned s = enterCheck (fold wakeAbandoned1 (map fst (ss_watches s)) s)"

section \<open>Futures\<close>

definition settleLocked :: "goErr option \<Rightarrow> nat \<Rightarrow> suspendSignal \<Rightarrow> suspendSignal" where
  "settleLocked err f s =
    (let c = ss_cells s ! f in
     if fc_outcome c \<noteq> None then s
     else (wakeAll None (fc_waiters c) s)
            \<lparr> ss_cells := (ss_cells s)[f := c \<lparr> fc_outcome := Some err, fc_waiters := [] \<rparr>] \<rparr>)"

definition newFuture :: "suspendSignal \<Rightarrow> nat \<times> suspendSignal" where
  "newFuture s = (length (ss_cells s),
     s \<lparr> ss_cells := ss_cells s @ [\<lparr> fc_registered = False, fc_outcome = None, fc_waiters = [] \<rparr>] \<rparr>)"

text \<open>A new future and its registration, before the future is handed out.\<close>

definition registerFuture :: "nat \<Rightarrow> suspendSignal \<Rightarrow> suspendSignal" where
  "registerFuture f s0 =
    (let s = s0 \<lparr> ss_cells := (ss_cells s0)[f := (ss_cells s0 ! f) \<lparr> fc_registered := True \<rparr>] \<rparr> in
     if ss_firing s then settleLocked (Some (sentinelErr errSuspendExecution)) f s
     else s \<lparr> ss_futures := ss_futures s @ [f] \<rparr>)"

definition isDone :: "suspendSignal \<Rightarrow> nat \<Rightarrow> bool" where
  "isDone s f \<longleftrightarrow> fc_outcome (ss_cells s ! f) \<noteq> None"

definition addCellWaiter :: "nat \<Rightarrow> nat \<Rightarrow> suspendSignal \<Rightarrow> suspendSignal" where
  "addCellWaiter i f s =
     s \<lparr> ss_cells := (ss_cells s)[f := (ss_cells s ! f) \<lparr> fc_waiters := fc_waiters (ss_cells s ! f) @ [i] \<rparr>] \<rparr>"

text \<open>
  Future.park is the case of one future.  A goroutine that awaits several
  takes itself off the unsettled ones once it is woken (leaveFutures).
\<close>

definition awaitAnySettled :: "nat list \<Rightarrow> suspendSignal \<Rightarrow> nat option \<times> suspendSignal" where
  "awaitAnySettled fs s =
     (if fs = [] \<or> list_ex (isDone s) fs then (None, s)
      else let (i, s') = newWaiterLocked None False s
           in (Some i, enterCheck (fold (addCellWaiter i) fs s')))"

definition leaveFutures :: "nat \<Rightarrow> nat list \<Rightarrow> suspendSignal \<Rightarrow> suspendSignal" where
  "leaveFutures i fs s =
     s \<lparr> ss_cells := fold (\<lambda>f cs. cs[f := (cs ! f) \<lparr> fc_waiters := remove1 i (fc_waiters (cs ! f)) \<rparr>]) fs (ss_cells s) \<rparr>"

section \<open>Suspending\<close>

definition shouldSuspendLocked :: "suspendSignal \<Rightarrow> bool" where
  "shouldSuspendLocked s =
     (if ss_firing s then False
      else if ss_ctxEnded s then ss_watches s \<noteq> [] \<or> commitmentLocked s
      else if ss_active s - ss_parked s > 0 \<or> ss_executing s > 0 then False
      else if ss_outstanding s > 0 then False
      else ss_watches s \<noteq> [] \<or> commitmentLocked s)"

definition suspendReasonFor :: "operation option \<Rightarrow> string" where
  "suspendReasonFor po = (case po of None \<Rightarrow> ''combinator''
     | Some op \<Rightarrow> (case op_opType op of
           OperationTypeWait \<Rightarrow> ''wait'' | OperationTypeCallback \<Rightarrow> ''callback''
         | OperationTypeChainedInvoke \<Rightarrow> ''invoke''
         | OperationTypeStep \<Rightarrow> if op_subType op = ''WaitForCondition'' then ''condition'' else ''retry''
         | _ \<Rightarrow> ''combinator''))"

definition least_wire :: "string list \<Rightarrow> string" where
  "least_wire ids = foldr (\<lambda>x m. if lexordp_eq (map of_char x :: nat list) (map of_char m) then x else m) (tl ids) (hd ids)"

definition watchReasonLocked :: "suspendSignal \<Rightarrow> string" where
  "watchReasonLocked s =
     (if ss_watches s = [] then ''combinator''
      else suspendReasonFor (getByWireID (ss_state s) (least_wire (map fst (ss_watches s)))))"

definition suspendReason :: "suspendSignal \<Rightarrow> string" where
  "suspendReason s = (if ss_firing s then ss_firedReason s else watchReasonLocked s)"

text \<open>fire, its first section: every operation waiter resumes and the futures are taken over.\<close>

definition fireWatch :: "string \<Rightarrow> suspendSignal \<Rightarrow> suspendSignal" where
  "fireWatch wid s = (case map_of (ss_watches s) wid of None \<Rightarrow> s
     | Some w \<Rightarrow> endWatch (Some (sentinelErr errSuspendExecution)) wid w s)"

definition fire_begin :: "suspendSignal \<Rightarrow> suspendSignal" where
  "fire_begin s =
    (if ss_firing s then s
     else let s' = s \<lparr> ss_firing := True, ss_firedReason := watchReasonLocked s, ss_draining := ss_futures s,
                       ss_futures := [], ss_pollsStopped := True \<rparr>
       in fold fireWatch (map fst (ss_watches s)) s')"

text \<open>Then the futures are settled one after another, and the channel is closed.\<close>

definition fire_drain :: "suspendSignal \<Rightarrow> suspendSignal option" where
  "fire_drain s = (case ss_draining s of
       f # fs \<Rightarrow> Some (settleLocked (Some (sentinelErr errSuspendExecution)) f (s \<lparr> ss_draining := fs \<rparr>))
     | [] \<Rightarrow> if ss_firing s \<and> \<not> ss_done s then Some (s \<lparr> ss_done := True \<rparr>) else None)"

text \<open>maybeSuspend: the check, the end of its settle period, and the call of fire.\<close>

definition maybeSuspend_check :: "suspendSignal \<Rightarrow> suspendSignal option" where
  "maybeSuspend_check s =
     (if ss_checks s = 0 then None
      else let s' = s \<lparr> ss_checks := ss_checks s - 1 \<rparr> in
        Some (if ss_settling s' \<or> \<not> shouldSuspendLocked s' then s'
              else s' \<lparr> ss_settling := True, ss_observers := ss_observers s' @ [ss_gen s'] \<rparr>))"

definition maybeSuspend_settled :: "suspendSignal \<Rightarrow> suspendSignal option" where
  "maybeSuspend_settled s = (case ss_observers s of [] \<Rightarrow> None
     | g # gs \<Rightarrow> Some (let s' = s \<lparr> ss_observers := gs, ss_settling := False \<rparr> in
         if shouldSuspendLocked s' \<and> ss_gen s' = g then s' \<lparr> ss_fires := ss_fires s' + 1 \<rparr>
         else enterCheck s'))"

definition maybeSuspend_fire :: "suspendSignal \<Rightarrow> suspendSignal option" where
  "maybeSuspend_fire s =
     (if ss_fires s = 0 then None else Some (fire_begin (s \<lparr> ss_fires := ss_fires s - 1 \<rparr>)))"

section \<open>The outside\<close>

text \<open>The checkpointer's outstanding requests (submit and deliver) and the end of the invocation's context.\<close>

definition requestQueued :: "suspendSignal \<Rightarrow> suspendSignal" where
  "requestQueued s = s \<lparr> ss_outstanding := ss_outstanding s + 1 \<rparr>"

definition requestSettled :: "suspendSignal \<Rightarrow> suspendSignal" where
  "requestSettled s =
    (let s' = s \<lparr> ss_outstanding := ss_outstanding s - 1 \<rparr>
     in if ss_outstanding s' = 0 then enterCheck s' else s')"

definition contextEnds :: "suspendSignal \<Rightarrow> suspendSignal" where
  "contextEnds s = enterCheck (s \<lparr> ss_ctxEnded := True \<rparr>)"

section \<open>Actions\<close>

datatype ssAction =
    SRegister | SDeregister | SEnterExecuting | SExitExecuting
  | SAwait string "abandonHandle option" bool "nat option" "operation option \<Rightarrow> bool"
      "operation option \<Rightarrow> time option" time
  | SMerge "operation list" | SMatch time
  | SNewFuture | SRegisterFuture nat | SSettle nat "goErr option"
  | SAwaitFutures "nat list" | SLeaveFutures nat "nat list"
  | SNewGate | SMarkAwaited nat
  | SNewParker | SPark nat | SSignal nat | SReceived nat
  | SAbandon abandonHandle | SRetire abandonHandle | SWakeAbandoned | SCommit "abandonHandle option"
  | STouch | SQueued | SSettled | SContextEnds
  | SCheck | SObserve | SFire | SDrain
  | STimer nat time | SPollBegin time | SPollEnd "goErr option" time | SStopPolls

text \<open>
  A future is registered once and before anyone awaits it, only registered
  futures are awaited, a goroutine leaves the futures it awaited only after
  it was woken, and a subtree's commitments are removed after it was marked.
\<close>

definition ss_step :: "ssAction \<Rightarrow> suspendSignal \<Rightarrow> suspendSignal option" where
  "ss_step a s = (case a of
      SRegister \<Rightarrow> Some (registerBranch s)
    | SDeregister \<Rightarrow> Some (deregisterBranch s)
    | SEnterExecuting \<Rightarrow> Some (enterExecuting s)
    | SExitExecuting \<Rightarrow> Some (exitExecuting s)
    | SAwait wid ab det gate ready endTime now \<Rightarrow>
        if (case gate of None \<Rightarrow> True | Some g \<Rightarrow> g < length (ss_gates s))
        then Some (snd (awaitOperation_begin wid ab det gate ready endTime now s)) else None
    | SMerge ops \<Rightarrow> mergeResponse ops s
    | SMatch now \<Rightarrow> onStateMerged now s
    | SNewFuture \<Rightarrow> Some (snd (newFuture s))
    | SRegisterFuture f \<Rightarrow>
        if f < length (ss_cells s) \<and> \<not> fc_registered (ss_cells s ! f) \<and> \<not> isDone s f
        then Some (registerFuture f s) else None
    | SSettle f err \<Rightarrow> if f < length (ss_cells s) then Some (settleLocked err f s) else None
    | SAwaitFutures fs \<Rightarrow>
        if list_all (\<lambda>f. f < length (ss_cells s) \<and> (fc_registered (ss_cells s ! f) \<or> isDone s f)) fs
        then Some (snd (awaitAnySettled fs s)) else None
    | SLeaveFutures i fs \<Rightarrow>
        if i < length (ss_waiters s) \<and> pw_woken (ss_waiters s ! i) \<and> list_all (\<lambda>f. f < length (ss_cells s)) fs
        then Some (leaveFutures i fs s) else None
    | SNewGate \<Rightarrow> Some (s \<lparr> ss_gates := ss_gates s @ [\<lparr> ag_awaited = False, ag_waiters = [] \<rparr>] \<rparr>)
    | SMarkAwaited g \<Rightarrow> if g < length (ss_gates s) then Some (markAwaited g s) else None
    | SNewParker \<Rightarrow> Some (s \<lparr> ss_parkers := ss_parkers s @ [\<lparr> pk_parked = False, pk_pending = 0 \<rparr>] \<rparr>)
    | SPark p \<Rightarrow> if p < length (ss_parkers s) then Some (parker_park p s) else None
    | SSignal p \<Rightarrow> if p < length (ss_parkers s) then Some (parker_signal p s) else None
    | SReceived p \<Rightarrow> if p < length (ss_parkers s) then Some (parker_received p s) else None
    | SAbandon h \<Rightarrow> Some (abandon h s)
    | SRetire h \<Rightarrow> if handle_id h \<in> set (ss_abandonSet s) then Some (retireCommitments h s) else None
    | SWakeAbandoned \<Rightarrow> Some (wakeAbandoned s)
    | SCommit ho \<Rightarrow> Some (commitPending ho s)
    | STouch \<Rightarrow> Some (touch s)
    | SQueued \<Rightarrow> Some (requestQueued s)
    | SSettled \<Rightarrow> Some (requestSettled s)
    | SContextEnds \<Rightarrow> Some (contextEnds s)
    | SCheck \<Rightarrow> maybeSuspend_check s
    | SObserve \<Rightarrow> maybeSuspend_settled s
    | SFire \<Rightarrow> maybeSuspend_fire s
    | SDrain \<Rightarrow> fire_drain s
    | STimer i now \<Rightarrow> timerFires i now s
    | SPollBegin now \<Rightarrow> pollWatch_begin now s
    | SPollEnd err now \<Rightarrow> pollWatch_end err now s
    | SStopPolls \<Rightarrow> Some (stopPolls s))"

abbreviation ss_run :: "ssAction list \<Rightarrow> suspendSignal \<Rightarrow> suspendSignal option" where
  "ss_run \<equiv> run_steps ss_step"

end
