(* ===== verification/Suspend_Inv.thy ===== *)
theory Suspend_Inv
  imports Suspend
begin

text \<open>
  The invariant of the suspension signal: the parked count is the number of
  goroutines that are blocked, every blocked goroutine is held by a watch or
  by an unsettled future that fire will settle, no record a goroutine waits
  for is missed, and a suspension whose conditions hold is always on its way.
\<close>

section \<open>Frames\<close>

abbreviation watchOf :: "suspendSignal \<Rightarrow> string \<rightharpoonup> opWatch" where
  "watchOf s \<equiv> map_of (ss_watches s)"

named_theorems frame

lemma watches_nonempty: "ss_watches s \<noteq> [] \<longleftrightarrow> (\<exists>k w. watchOf s k = Some w)"
  by (cases "ss_watches s") auto

text \<open>What every helper leaves alone: the fields that only the actions themselves change.\<close>

definition rest :: "suspendSignal \<Rightarrow> suspendSignal" where
  "rest s = s \<lparr> ss_parked := 0, ss_gen := 0, ss_watches := [], ss_waiters := [], ss_timers := [],
     ss_pollsEnded := False \<rparr>"

lemma rest_eqD:
  assumes "rest s = rest t"
  shows "ss_firing s = ss_firing t" "ss_done s = ss_done t" "ss_draining s = ss_draining t"
    "ss_futures s = ss_futures t" "ss_active s = ss_active t" "ss_executing s = ss_executing t"
    "ss_rootCommitted s = ss_rootCommitted t" "ss_branchCommits s = ss_branchCommits t"
    "ss_settling s = ss_settling t" "ss_pollsStopped s = ss_pollsStopped t" "ss_deadline s = ss_deadline t"
    "ss_outstanding s = ss_outstanding t" "ss_ctxEnded s = ss_ctxEnded t" "ss_state s = ss_state t"
    "ss_unmatched s = ss_unmatched t" "ss_abandonSet s = ss_abandonSet t" "ss_parkers s = ss_parkers t"
    "ss_cells s = ss_cells t" "ss_gates s = ss_gates t" "ss_nextWatch s = ss_nextWatch t"
    "ss_checks s = ss_checks t" "ss_observers s = ss_observers t" "ss_fires s = ss_fires t"
    "ss_started s = ss_started t" "ss_polling s = ss_polling t"
  using assms by (cases s; cases t; simp add: rest_def)+

lemma rest_wakeLocked [frame]: "rest (wakeLocked e i s) = rest s"
  by (simp add: wakeLocked_def Let_def rest_def)

lemma rest_setWatch [frame]: "rest (setWatch k w s) = rest s"
  by (simp add: setWatch_def rest_def)

lemma rest_deleteWatch [frame]: "rest (deleteWatch k s) = rest s"
  by (simp add: deleteWatch_def rest_def)

lemma rest_touch [frame]: "rest (touch s) = rest s"
  by (simp add: touch_def rest_def)

lemma rest_wakeAll [frame]: "rest (wakeAll e is s) = rest s"
  by (induction "is" arbitrary: s) (simp_all add: frame)

lemma rest_timers [frame]:
  "rest (s \<lparr> ss_timers := ts \<rparr>) = rest s" "rest (s \<lparr> ss_pollsEnded := b \<rparr>) = rest s"
  by (simp_all add: rest_def)

lemma rest_stopTimer [frame]: "rest (stopTimerLocked k s) = rest s"
  by (simp add: stopTimerLocked_def frame split: option.split)

lemma rest_armPoll [frame]: "rest (armPollLocked k d now s) = rest s"
  by (simp add: armPollLocked_def Let_def frame split: option.split)

lemma rest_armFirstPoll [frame]: "rest (armFirstPollLocked k op now s) = rest s"
  by (simp add: armFirstPollLocked_def frame split: option.split)

lemma rest_endWatch [frame]: "rest (endWatch e k w s) = rest s"
  by (simp add: endWatch_def frame)

lemma rest_matchRecord [frame]: "rest (matchRecord now op s) = rest s"
  by (simp add: matchRecord_def frame split: option.split)

lemma rest_wakeAbandoned1 [frame]: "rest (wakeAbandoned1 k s) = rest s"
  by (simp add: wakeAbandoned1_def Let_def frame split: option.split)

lemma rest_fireWatch [frame]: "rest (fireWatch k s) = rest s"
  by (simp add: fireWatch_def frame split: option.split)

lemma rest_fold: "(\<And>x s. rest (f x s) = rest s) \<Longrightarrow> rest (fold f xs s) = rest s"
  by (induction xs arbitrary: s) simp_all

section \<open>Watches\<close>

lemma map_of_replace:
  "map_of (map (\<lambda>(k, v). if k = wid then (k, w) else (k, v)) xs) k =
     (if k = wid then map_option (\<lambda>_. w) (map_of xs k) else map_of xs k)"
  by (induction xs) auto

lemma map_of_drop:
  "map_of (filter (\<lambda>(k, _). k \<noteq> wid) xs) k = (if k = wid then None else map_of xs k)"
  by (induction xs) auto

lemma watchOf_setWatch [simp]:
  "watchOf (setWatch wid w s) k = (if k = wid then map_option (\<lambda>_. w) (watchOf s k) else watchOf s k)"
  by (simp add: setWatch_def map_of_replace)

lemma watchOf_deleteWatch [simp]: "watchOf (deleteWatch wid s) k = (if k = wid then None else watchOf s k)"
  by (simp add: deleteWatch_def map_of_drop)

lemma watches_wake [simp]: "ss_watches (wakeLocked e i s) = ss_watches s" "ss_timers (wakeLocked e i s) = ss_timers s"
  by (simp_all add: wakeLocked_def Let_def)

lemma watches_wakeAll [simp]: "ss_watches (wakeAll e is s) = ss_watches s" "ss_timers (wakeAll e is s) = ss_timers s"
  by (induction "is" arbitrary: s) simp_all

lemma waiters_watches [simp]:
  "ss_waiters (setWatch k w s) = ss_waiters s" "ss_waiters (deleteWatch k s) = ss_waiters s"
  "ss_parked (setWatch k w s) = ss_parked s" "ss_parked (deleteWatch k s) = ss_parked s"
  "ss_timers (setWatch k w s) = ss_timers s" "ss_timers (deleteWatch k s) = ss_timers s"
  by (simp_all add: setWatch_def deleteWatch_def)

lemma waiters_stopTimer [simp]:
  "ss_waiters (stopTimerLocked k s) = ss_waiters s" "ss_parked (stopTimerLocked k s) = ss_parked s"
  by (simp_all add: stopTimerLocked_def split: option.split)

lemma waiters_armPoll [simp]:
  "ss_waiters (armPollLocked k d now s) = ss_waiters s" "ss_parked (armPollLocked k d now s) = ss_parked s"
  by (simp_all add: armPollLocked_def Let_def split: option.split)

lemma waiters_armFirstPoll [simp]:
  "ss_waiters (armFirstPollLocked k op now s) = ss_waiters s" "ss_parked (armFirstPollLocked k op now s) = ss_parked s"
  by (simp_all add: armFirstPollLocked_def split: option.split)

lemma fields_touch [simp]:
  "ss_waiters (touch s) = ss_waiters s" "ss_parked (touch s) = ss_parked s" "ss_watches (touch s) = ss_watches s"
  "ss_timers (touch s) = ss_timers s"
  by (simp_all add: touch_def)

text \<open>What a waiter or a response can see of a watch: the readiness test and the waiters.\<close>

definition core :: "opWatch \<Rightarrow> (operation option \<Rightarrow> bool) \<times> nat list" where
  "core w = (ow_ready w, ow_waiters w)"

definition sameWatches :: "suspendSignal \<Rightarrow> suspendSignal \<Rightarrow> bool" where
  "sameWatches s t \<longleftrightarrow> (\<forall>k. map_option core (watchOf s k) = map_option core (watchOf t k))"

lemma sameWatches_refl [simp]: "sameWatches s s"
  by (simp add: sameWatches_def)

lemma sameWatches_trans: "sameWatches s t \<Longrightarrow> sameWatches t u \<Longrightarrow> sameWatches s u"
  by (simp add: sameWatches_def)

lemma sameWatches_setWatch:
  "watchOf s k = Some v \<Longrightarrow> core w = core v \<Longrightarrow> sameWatches (setWatch k w s) s"
  by (simp add: sameWatches_def)

lemma sameWatches_stopTimer [simp]: "sameWatches (stopTimerLocked k s) s"
  by (auto simp: stopTimerLocked_def sameWatches_def core_def split: option.split)

lemma sameWatches_armPoll [simp]: "sameWatches (armPollLocked k d now s) s"
proof -
  have "sameWatches (armPollLocked k d now s) (stopTimerLocked k s)"
    by (auto simp: armPollLocked_def Let_def sameWatches_def core_def split: option.split)
  then show ?thesis by (rule sameWatches_trans) simp
qed

lemma sameWatches_armFirstPoll [simp]: "sameWatches (armFirstPollLocked k op now s) s"
  by (simp add: armFirstPollLocked_def split: option.split)

lemma sameWatches_touch [simp]: "sameWatches (touch s) s"
  by (simp add: sameWatches_def)

lemma sameWatchesD:
  "sameWatches s t \<Longrightarrow> watchOf s k = Some w \<Longrightarrow> \<exists>v. watchOf t k = Some v \<and> ow_ready w = ow_ready v \<and> ow_waiters w = ow_waiters v"
  by (drule spec [of _ k, OF sameWatches_def [THEN iffD1]]) (cases "watchOf t k"; auto simp: core_def)

section \<open>Waiters\<close>

lemma length_waiters_wake [simp]: "length (ss_waiters (wakeLocked e i s)) = length (ss_waiters s)"
  by (simp add: wakeLocked_def Let_def)

lemma length_waiters_wakeAll [simp]: "length (ss_waiters (wakeAll e is s)) = length (ss_waiters s)"
  by (induction "is" arbitrary: s) simp_all

lemma woken_wake:
  "j < length (ss_waiters s) \<Longrightarrow>
   pw_woken (ss_waiters (wakeLocked e i s) ! j) = (pw_woken (ss_waiters s ! j) \<or> j = i)"
  by (cases "i = j") (simp_all add: wakeLocked_def Let_def nth_list_update)

lemma woken_wakeAll:
  "j < length (ss_waiters s) \<Longrightarrow>
   pw_woken (ss_waiters (wakeAll e is s) ! j) = (pw_woken (ss_waiters s ! j) \<or> j \<in> set is)"
  by (induction "is" arbitrary: s) (auto simp: woken_wake)

lemma abandon_wakeAll [simp]:
  "j < length (ss_waiters s) \<Longrightarrow> pw_abandon (ss_waiters (wakeAll e is s) ! j) = pw_abandon (ss_waiters s ! j)"
proof (induction "is" arbitrary: s)
  case (Cons i "is")
  have "pw_abandon (ss_waiters (wakeLocked e i s) ! j) = pw_abandon (ss_waiters s ! j)"
    using Cons.prems by (cases "i = j") (simp_all add: wakeLocked_def Let_def nth_list_update)
  then show ?case using Cons.IH [of "wakeLocked e i s"] Cons.prems by simp
qed simp

section \<open>Accounting\<close>

definition parkedWaiters :: "parkWaiter list \<Rightarrow> int" where
  "parkedWaiters ws = (\<Sum>w\<leftarrow>ws. of_bool (pw_parked w))"

definition parkedParkers :: "parker list \<Rightarrow> int" where
  "parkedParkers ks = (\<Sum>k\<leftarrow>ks. of_bool (pk_parked k))"

lemma sum_of_bool_update:
  "i < length xs \<Longrightarrow> (\<Sum>x\<leftarrow>xs[i := y]. of_bool (P x)) =
     (\<Sum>x\<leftarrow>xs. of_bool (P x)) - of_bool (P (xs ! i)) + (of_bool (P y) :: int)"
proof (induction xs arbitrary: i)
  case (Cons x xs)
  then show ?case by (cases i) simp_all
qed simp

lemma parked_counts [simp]:
  "parkedWaiters [] = 0" "parkedWaiters (ws @ [w]) = parkedWaiters ws + of_bool (pw_parked w)"
  "parkedParkers [] = 0" "parkedParkers (ks @ [k]) = parkedParkers ks + of_bool (pk_parked k)"
  "i < length ws \<Longrightarrow> parkedWaiters (ws[i := w]) = parkedWaiters ws - of_bool (pw_parked (ws ! i)) + of_bool (pw_parked w)"
  "p < length ks \<Longrightarrow> parkedParkers (ks[p := k]) = parkedParkers ks - of_bool (pk_parked (ks ! p)) + of_bool (pk_parked k)"
  by (simp_all add: parkedWaiters_def parkedParkers_def sum_of_bool_update)

text \<open>A waiter is counted as parked exactly until it is woken.\<close>

definition inv_account :: "suspendSignal \<Rightarrow> bool" where
  "inv_account s \<longleftrightarrow> ss_parked s = parkedWaiters (ss_waiters s) + parkedParkers (ss_parkers s) \<and>
     (\<forall>i < length (ss_waiters s). pw_parked (ss_waiters s ! i) = (\<not> pw_woken (ss_waiters s ! i)))"

lemma account_wake:
  assumes "inv_account s" and "i < length (ss_waiters s)"
  shows "inv_account (wakeLocked e i s)"
  using assms by (auto simp: inv_account_def wakeLocked_def Let_def nth_list_update)

lemma account_wakeAll:
  "inv_account s \<Longrightarrow> \<forall>i \<in> set is. i < length (ss_waiters s) \<Longrightarrow> inv_account (wakeAll e is s)"
  by (induction "is" arbitrary: s) (simp_all add: account_wake)

lemma account_cong:
  "inv_account s \<Longrightarrow> ss_parked t = ss_parked s \<Longrightarrow> ss_waiters t = ss_waiters s \<Longrightarrow> ss_parkers t = ss_parkers s \<Longrightarrow>
   inv_account t"
  by (simp add: inv_account_def)

text \<open>
  Who waits where: a waiter that is not woken sits in a watch or in a future
  that has not settled; an unsettled future that anyone can await is one fire
  will settle; and once fire has started no watch is left.
\<close>

definition inv_held :: "suspendSignal \<Rightarrow> bool" where
  "inv_held s \<longleftrightarrow>
     (\<forall>k w. watchOf s k = Some w \<longrightarrow> ow_waiters w \<noteq> [] \<and> (\<forall>i \<in> set (ow_waiters w). i < length (ss_waiters s))) \<and>
     (\<forall>i < length (ss_waiters s). \<not> pw_woken (ss_waiters s ! i) \<longrightarrow>
        (\<exists>k w. watchOf s k = Some w \<and> i \<in> set (ow_waiters w)) \<or>
        (\<exists>f < length (ss_cells s). i \<in> set (fc_waiters (ss_cells s ! f))))"

definition inv_cells :: "suspendSignal \<Rightarrow> bool" where
  "inv_cells s \<longleftrightarrow>
     (\<forall>f < length (ss_cells s). let c = ss_cells s ! f in
        (fc_outcome c \<noteq> None \<longrightarrow> fc_waiters c = []) \<and>
        (fc_waiters c \<noteq> [] \<longrightarrow> fc_registered c) \<and>
        (fc_registered c \<and> fc_outcome c = None \<longrightarrow> f \<in> set (ss_futures s) \<union> set (ss_draining s)) \<and>
        (\<forall>i \<in> set (fc_waiters c). i < length (ss_waiters s))) \<and>
     (\<forall>f \<in> set (ss_futures s) \<union> set (ss_draining s). f < length (ss_cells s))"

definition inv_firing :: "suspendSignal \<Rightarrow> bool" where
  "inv_firing s \<longleftrightarrow>
     (if ss_firing s then ss_watches s = [] \<and> ss_pollsStopped s \<and> ss_futures s = []
      else ss_draining s = [] \<and> \<not> ss_done s) \<and> (ss_done s \<longrightarrow> ss_draining s = [])"

text \<open>Outside its lock, the signal is settling exactly while one observation is under way.\<close>

definition inv_settle :: "suspendSignal \<Rightarrow> bool" where
  "inv_settle s \<longleftrightarrow> length (ss_observers s) = (if ss_settling s then 1 else 0)"

definition inv_missed :: "suspendSignal \<Rightarrow> bool" where
  "inv_missed s \<longleftrightarrow> (shouldSuspendLocked s \<longrightarrow> ss_settling s \<or> ss_checks s > 0 \<or> ss_fires s > 0)"

text \<open>A watched record that lets its waiters resume is in a response that is about to be matched.\<close>

definition inv_match :: "suspendSignal \<Rightarrow> bool" where
  "inv_match s \<longleftrightarrow> (\<forall>k w. watchOf s k = Some w \<and> ow_ready w (getByWireID (ss_state s) k) \<longrightarrow>
     (\<exists>ops op. ss_unmatched s = Some ops \<and> op \<in> set ops \<and> op_id op = k \<and> ow_ready w (Some op)))"

text \<open>Every watched operation has a poll scheduled or under way until polling ends.\<close>

definition polled :: "suspendSignal \<Rightarrow> string \<Rightarrow> opWatch \<Rightarrow> bool" where
  "polled s k w \<longleftrightarrow> (\<exists>p \<in> set (ss_timers s) \<union> set (ss_started s) \<union> set (ss_polling s). pr_wire p = k \<and> timerOf w p)"

definition inv_polled :: "suspendSignal \<Rightarrow> bool" where
  "inv_polled s \<longleftrightarrow>
     (\<not> ss_pollsStopped s \<and> \<not> ss_pollsEnded s \<longrightarrow> (\<forall>k w. watchOf s k = Some w \<longrightarrow> polled s k w)) \<and>
     (\<forall>k w k' w'. watchOf s k = Some w \<and> watchOf s k' = Some w' \<and> ow_uid w = ow_uid w' \<longrightarrow> k = k') \<and>
     (\<forall>k w. watchOf s k = Some w \<longrightarrow> ow_uid w < ss_nextWatch s)"

definition ss_inv :: "suspendSignal \<Rightarrow> bool" where
  "ss_inv s \<longleftrightarrow> inv_account s \<and> inv_held s \<and> inv_cells s \<and> inv_firing s \<and> inv_settle s \<and> inv_missed s \<and>
     inv_match s \<and> inv_polled s"

lemma ss_inv_new: "ss_inv (newSuspendSignal d st)"
  by (simp add: ss_inv_def newSuspendSignal_def inv_account_def inv_held_def inv_cells_def inv_firing_def
      inv_settle_def inv_missed_def inv_match_def inv_polled_def shouldSuspendLocked_def commitmentLocked_def)

section \<open>No suspension is missed\<close>

lemma shouldSuspend_mono:
  assumes "shouldSuspendLocked t"
    and "ss_firing s \<longrightarrow> ss_firing t" and "ss_ctxEnded t = ss_ctxEnded s"
    and "ss_active s - ss_parked s \<le> ss_active t - ss_parked t" and "ss_executing s \<le> ss_executing t"
    and "ss_outstanding s > 0 \<longrightarrow> ss_outstanding t > 0"
    and "ss_watches t \<noteq> [] \<longrightarrow> ss_watches s \<noteq> []" and "commitmentLocked t \<longrightarrow> commitmentLocked s"
  shows "shouldSuspendLocked s"
  using assms by (auto simp: shouldSuspendLocked_def split: if_splits)

lemma parked_wake: "ss_parked (wakeLocked e i s) \<le> ss_parked s"
  by (simp add: wakeLocked_def Let_def)

lemma parked_wakeAll: "ss_parked (wakeAll e is s) \<le> ss_parked s"
proof (induction "is" arbitrary: s)
  case (Cons i "is")
  then show ?case using order_trans [OF Cons.IH parked_wake] by simp
qed simp

text \<open>Helpers that wake goroutines and end watches only make the conditions harder to meet.\<close>

definition quieter :: "suspendSignal \<Rightarrow> suspendSignal \<Rightarrow> bool" where
  "quieter t s \<longleftrightarrow> rest t = rest s \<and> ss_parked t \<le> ss_parked s \<and>
     (\<forall>k. watchOf t k \<noteq> None \<longrightarrow> watchOf s k \<noteq> None)"

lemma quieter_refl [simp]: "quieter s s"
  by (simp add: quieter_def)

lemma quieter_trans: "quieter t s \<Longrightarrow> quieter u t \<Longrightarrow> quieter u s"
  by (auto simp: quieter_def)

lemma quieter_fold: "(\<And>x s. quieter (f x s) s) \<Longrightarrow> quieter (fold f xs s) s"
  by (induction xs arbitrary: s) (auto intro: quieter_trans)

lemma quieter_stopTimer [simp]: "quieter (stopTimerLocked k s) s"
  by (simp add: quieter_def frame) (simp add: stopTimerLocked_def split: option.split)

lemma sameWatches_None: "sameWatches t s \<Longrightarrow> (watchOf t k = None) = (watchOf s k = None)"
  by (drule spec [of _ k, OF sameWatches_def [THEN iffD1]]) (metis option.map_disc_iff)

lemma quieter_armFirstPoll [simp]: "quieter (armFirstPollLocked k op now s) s"
  by (simp add: quieter_def frame sameWatches_None [OF sameWatches_armFirstPoll])

lemma quieter_setWatch [simp]: "quieter (setWatch k w s) s"
  by (simp add: quieter_def frame)

lemma quieter_wakeAll [simp]: "quieter (wakeAll e is s) s"
  by (simp add: quieter_def frame parked_wakeAll)

lemma quieter_deleteWatch [simp]: "quieter (deleteWatch k s) s"
  by (simp add: quieter_def frame)

lemma quieter_touch [simp]: "quieter (touch s) s"
  by (simp add: quieter_def frame)

lemma quieter_endWatch [simp]: "quieter (endWatch e k w s) s"
  unfolding endWatch_def by (intro quieter_trans [OF _ quieter_deleteWatch] quieter_trans [OF _ quieter_wakeAll]) simp

lemma quieter_matchRecord: "quieter (matchRecord now op s) s"
  by (auto simp: matchRecord_def split: option.split
      intro!: quieter_trans [OF _ quieter_touch] quieter_trans [OF quieter_setWatch quieter_armFirstPoll])

lemma quieter_fireWatch: "quieter (fireWatch k s) s"
  by (simp add: fireWatch_def split: option.split)

lemma missed_quieter:
  assumes "inv_missed s" and "quieter t s"
  shows "inv_missed t"
proof -
  note r = rest_eqD [OF conjunct1 [OF assms(2) [unfolded quieter_def]]]
  have w: "ss_watches t \<noteq> [] \<longrightarrow> ss_watches s \<noteq> []" and p: "ss_parked t \<le> ss_parked s"
    using assms(2) unfolding quieter_def watches_nonempty by blast+
  have "shouldSuspendLocked t \<Longrightarrow> shouldSuspendLocked s"
    using w p by (elim shouldSuspend_mono) (simp_all add: commitmentLocked_def r)
  then show ?thesis using assms(1) by (simp add: inv_missed_def r)
qed

lemma missed_enterCheck [simp]: "inv_missed (enterCheck s)"
  by (simp add: inv_missed_def enterCheck_def)

lemma missed_firing: "ss_firing s \<Longrightarrow> inv_missed s"
  by (simp add: inv_missed_def shouldSuspendLocked_def)

lemma missed_cong:
  "inv_missed s \<Longrightarrow> shouldSuspendLocked t = shouldSuspendLocked s \<Longrightarrow> ss_settling t = ss_settling s \<Longrightarrow>
   ss_checks t = ss_checks s \<Longrightarrow> ss_fires t = ss_fires s \<Longrightarrow> inv_missed t"
  by (simp add: inv_missed_def)

lemma shouldSuspend_cells [simp]:
  "shouldSuspendLocked (s \<lparr> ss_cells := cs \<rparr>) = shouldSuspendLocked s"
  "shouldSuspendLocked (s \<lparr> ss_futures := fs \<rparr>) = shouldSuspendLocked s"
  "shouldSuspendLocked (s \<lparr> ss_gates := gs \<rparr>) = shouldSuspendLocked s"
  "shouldSuspendLocked (s \<lparr> ss_parkers := ks \<rparr>) = shouldSuspendLocked s"
  "shouldSuspendLocked (s \<lparr> ss_timers := ts \<rparr>) = shouldSuspendLocked s"
  "shouldSuspendLocked (s \<lparr> ss_started := ps \<rparr>) = shouldSuspendLocked s"
  "shouldSuspendLocked (s \<lparr> ss_polling := ps \<rparr>) = shouldSuspendLocked s"
  "shouldSuspendLocked (s \<lparr> ss_pollsStopped := b \<rparr>) = shouldSuspendLocked s"
  "shouldSuspendLocked (s \<lparr> ss_pollsEnded := b \<rparr>) = shouldSuspendLocked s"
  "shouldSuspendLocked (s \<lparr> ss_gen := g \<rparr>) = shouldSuspendLocked s"
  "shouldSuspendLocked (s \<lparr> ss_state := st \<rparr>) = shouldSuspendLocked s"
  "shouldSuspendLocked (s \<lparr> ss_unmatched := u \<rparr>) = shouldSuspendLocked s"
  "shouldSuspendLocked (s \<lparr> ss_abandonSet := ab \<rparr>) = shouldSuspendLocked s"
  "shouldSuspendLocked (s \<lparr> ss_waiters := ws \<rparr>) = shouldSuspendLocked s"
  "shouldSuspendLocked (s \<lparr> ss_checks := c \<rparr>) = shouldSuspendLocked s"
  "shouldSuspendLocked (s \<lparr> ss_settling := sb \<rparr>) = shouldSuspendLocked s"
  "shouldSuspendLocked (s \<lparr> ss_observers := os \<rparr>) = shouldSuspendLocked s"
  "shouldSuspendLocked (s \<lparr> ss_draining := dr \<rparr>) = shouldSuspendLocked s"
  by (simp_all add: shouldSuspendLocked_def commitmentLocked_def)

lemma missed_fields [simp]:
  "inv_missed (s \<lparr> ss_cells := cs \<rparr>) = inv_missed s"
  "inv_missed (s \<lparr> ss_futures := fs \<rparr>) = inv_missed s"
  "inv_missed (s \<lparr> ss_gates := gs \<rparr>) = inv_missed s"
  "inv_missed (s \<lparr> ss_parkers := ks \<rparr>) = inv_missed s"
  "inv_missed (s \<lparr> ss_timers := ts \<rparr>) = inv_missed s"
  "inv_missed (s \<lparr> ss_started := ps \<rparr>) = inv_missed s"
  "inv_missed (s \<lparr> ss_polling := ps \<rparr>) = inv_missed s"
  "inv_missed (s \<lparr> ss_pollsStopped := b \<rparr>) = inv_missed s"
  "inv_missed (s \<lparr> ss_pollsEnded := b \<rparr>) = inv_missed s"
  "inv_missed (s \<lparr> ss_gen := g \<rparr>) = inv_missed s"
  "inv_missed (s \<lparr> ss_state := st \<rparr>) = inv_missed s"
  "inv_missed (s \<lparr> ss_unmatched := u \<rparr>) = inv_missed s"
  "inv_missed (s \<lparr> ss_abandonSet := ab \<rparr>) = inv_missed s"
  "inv_missed (s \<lparr> ss_waiters := ws \<rparr>) = inv_missed s"
  "inv_missed (s \<lparr> ss_draining := dr \<rparr>) = inv_missed s"
  by (simp_all add: inv_missed_def)

lemma missed_touch [simp]: "inv_missed (touch s) = inv_missed s"
  by (simp add: touch_def)

lemma missed_less:
  assumes "inv_missed s" and "shouldSuspendLocked t \<Longrightarrow> shouldSuspendLocked s"
    and "ss_settling t = ss_settling s" and "ss_checks t = ss_checks s" and "ss_fires t = ss_fires s"
  shows "inv_missed t"
  using assms by (auto simp: inv_missed_def)

lemma missed_settleLocked: "inv_missed s \<Longrightarrow> inv_missed (settleLocked err f s)"
  by (auto simp: settleLocked_def Let_def intro: missed_quieter)

lemma missed_registerFuture: "inv_missed s \<Longrightarrow> inv_missed (registerFuture f s)"
  by (simp add: registerFuture_def Let_def missed_settleLocked)

lemma missed_stopPolls: "inv_missed s \<Longrightarrow> inv_missed (stopPolls s)"
  by (rule missed_quieter [of "s \<lparr> ss_pollsStopped := True \<rparr>"]) (simp_all add: stopPolls_def quieter_fold)

lemma firing_fire_begin: "ss_firing (fire_begin s)"
  by (simp add: fire_begin_def Let_def rest_eqD(1) [OF rest_fold [of fireWatch, OF rest_fireWatch]])

lemma commitment_retire: "commitmentLocked (retireCommitments h s) \<Longrightarrow> commitmentLocked s"
  by (auto simp: commitmentLocked_def retireCommitments_def list_ex_iff)

lemma missed_retire: "inv_missed s \<Longrightarrow> inv_missed (retireCommitments h s)"
  by (erule missed_less) (auto elim!: shouldSuspend_mono intro: commitment_retire simp: retireCommitments_def)

lemma missed_counts:
  assumes "inv_missed s"
  shows "inv_missed (s \<lparr> ss_active := ss_active s + 1 \<rparr>)"
    "inv_missed (s \<lparr> ss_executing := ss_executing s + 1, ss_executingGen := g \<rparr>)"
    "inv_missed (s \<lparr> ss_outstanding := ss_outstanding s + 1 \<rparr>)"
    "inv_missed (s \<lparr> ss_parkers := ks, ss_parked := ss_parked s - 1 \<rparr>)"
    "ss_outstanding s \<noteq> 1 \<Longrightarrow> inv_missed (s \<lparr> ss_outstanding := ss_outstanding s - 1 \<rparr>)"
  using assms by (auto simp: inv_missed_def shouldSuspendLocked_def commitmentLocked_def split: if_splits)

lemma missed_unpark: "inv_missed s \<Longrightarrow> inv_missed (parker_unpark d p s)"
  by (simp add: parker_unpark_def Let_def missed_counts)

lemma missed_step:
  assumes "ss_step a s = Some s'" and "inv_missed s" and "inv_firing s"
  shows "inv_missed s'"
proof (cases a)
  case (SMatch now)
  then show ?thesis
    using assms by (auto simp: ss_step_def onStateMerged_def split: option.splits
        intro!: missed_quieter [OF _ quieter_fold [OF quieter_matchRecord]])
next
  case (SAwait wid ab det gate ready endTime now)
  then show ?thesis
    using assms by (auto simp: ss_step_def awaitOperation_begin_def parkOnOperation_def Let_def split: if_splits prod.split)
next
  case (SRetire h)
  then show ?thesis
    using assms by (auto simp: ss_step_def missed_retire split: if_splits)
next
  case (SPollBegin now)
  then show ?thesis
    using assms by (auto simp: ss_step_def pollWatch_begin_def Let_def split: list.splits option.splits if_splits
        intro!: missed_quieter [OF _ quieter_setWatch])
next
  case SDrain
  then have "ss_firing s"
    using assms by (auto simp: ss_step_def fire_drain_def inv_firing_def split: list.splits if_splits)
  then show ?thesis
    using assms SDrain by (auto simp: ss_step_def fire_drain_def missed_settleLocked missed_firing split: list.splits if_splits)
next
  case SFire
  then show ?thesis
    using assms by (auto simp: ss_step_def maybeSuspend_fire_def missed_firing firing_fire_begin split: if_splits)
next
  case SRegister
  then show ?thesis
    using assms by (auto simp: ss_step_def registerBranch_def missed_counts split: if_splits)
next
  case SEnterExecuting
  then show ?thesis
    using assms by (auto simp: ss_step_def enterExecuting_def missed_counts split: if_splits)
next
  case SQueued
  then show ?thesis
    using assms by (auto simp: ss_step_def requestQueued_def missed_counts split: if_splits)
next
  case SSettled
  then show ?thesis
    using assms by (auto simp: ss_step_def requestSettled_def Let_def missed_counts split: if_splits)
next
  case (SSignal p)
  then show ?thesis
    using assms by (auto simp: ss_step_def parker_signal_def missed_unpark split: if_splits)
next
  case (SReceived p)
  then show ?thesis
    using assms by (auto simp: ss_step_def parker_received_def missed_unpark split: if_splits)
next
  case SCheck
  then show ?thesis
    using assms by (auto simp: ss_step_def maybeSuspend_check_def Let_def inv_missed_def split: if_splits)
next
  case SObserve
  then show ?thesis
    using assms by (auto simp: ss_step_def maybeSuspend_settled_def Let_def split: list.splits) (simp add: inv_missed_def)
qed (use assms in \<open>auto simp: ss_step_def deregisterBranch_def exitExecuting_def
    mergeResponse_def newFuture_def missed_registerFuture missed_settleLocked awaitAnySettled_def Let_def leaveFutures_def
    markAwaited_def parker_park_def abandon_def wakeAbandoned_def commitPending_def contextEnds_def
    timerFires_def pollWatch_end_def missed_stopPolls split: if_splits option.splits list.splits prod.splits\<close>)

section \<open>No wakeup is lost\<close>

text \<open>Every watch of t was a watch of s with the same readiness test.\<close>

definition fewerWatches :: "suspendSignal \<Rightarrow> suspendSignal \<Rightarrow> bool" where
  "fewerWatches t s \<longleftrightarrow> (\<forall>k w. watchOf t k = Some w \<longrightarrow> (\<exists>v. watchOf s k = Some v \<and> ow_ready w = ow_ready v))"

lemma fewerWatches_refl [simp]: "ss_watches t = ss_watches s \<Longrightarrow> fewerWatches t s"
  by (simp add: fewerWatches_def)

lemma fewerWatches_trans: "fewerWatches t s \<Longrightarrow> fewerWatches u t \<Longrightarrow> fewerWatches u s"
  unfolding fewerWatches_def by metis

lemma fewerWatches_same: "sameWatches t s \<Longrightarrow> fewerWatches t s"
  unfolding fewerWatches_def using sameWatchesD by metis

lemma fewerWatches_fold: "(\<And>x s. fewerWatches (f x s) s) \<Longrightarrow> fewerWatches (fold f xs s) s"
  by (induction xs arbitrary: s) (auto intro: fewerWatches_trans)

lemma fewerWatches_endWatch: "fewerWatches (endWatch e k w s) s"
  using sameWatchesD [OF sameWatches_stopTimer, of k s] by (auto simp: fewerWatches_def endWatch_def)

lemma fewerWatches_setWatch:
  "watchOf s k = Some v \<Longrightarrow> ow_ready w = ow_ready v \<Longrightarrow> fewerWatches (setWatch k w s) s"
  by (auto simp: fewerWatches_def)

lemma fewerWatches_matchRecord: "fewerWatches (matchRecord now op s) s"
proof (cases "watchOf s (op_id op)")
  case (Some w)
  have "fewerWatches (armFirstPollLocked (op_id op) (Some op) now
      (setWatch (op_id op) (w \<lparr> ow_status := op_status op \<rparr>) s)) s"
    by (rule fewerWatches_trans [OF fewerWatches_setWatch [OF Some] fewerWatches_same [OF sameWatches_armFirstPoll]]) simp
  then show ?thesis
    by (simp add: matchRecord_def Some fewerWatches_endWatch fewerWatches_trans [OF _ fewerWatches_refl])
qed (simp add: matchRecord_def)

lemma fewerWatches_fireWatch: "fewerWatches (fireWatch k s) s"
  by (simp add: fireWatch_def fewerWatches_endWatch split: option.split)

lemma fewerWatches_wakeAbandoned1: "fewerWatches (wakeAbandoned1 k s) s"
proof (cases "watchOf s k")
  case (Some w)
  let ?kept = "filter (\<lambda>i. \<not> abandoned s (pw_abandon (ss_waiters s ! i))) (ow_waiters w)"
  define t where "t = setWatch k (w \<lparr> ow_waiters := ?kept \<rparr>) (wakeAll (Some (sentinelErr errSuspendExecution))
      (filter (\<lambda>i. abandoned s (pw_abandon (ss_waiters s ! i))) (ow_waiters w)) s)"
  have t: "fewerWatches t s" by (auto simp: fewerWatches_def Some t_def)
  have "fewerWatches (deleteWatch k (stopTimerLocked k t)) t"
    using sameWatchesD [OF sameWatches_stopTimer, of k t] by (auto simp: fewerWatches_def)
  moreover have "wakeAbandoned1 k s = (if ?kept = [] then deleteWatch k (stopTimerLocked k t) else t)"
    by (simp only: wakeAbandoned1_def Some option.case Let_def t_def)
  ultimately show ?thesis
    using t by (auto intro: fewerWatches_trans split: if_split)
qed (simp add: wakeAbandoned1_def)

lemma match_fewer:
  assumes "inv_match s" and "fewerWatches t s" and "ss_state t = ss_state s" and "ss_unmatched t = ss_unmatched s"
  shows "inv_match t"
  using assms unfolding inv_match_def fewerWatches_def by metis

lemma match_fields [simp]:
  "inv_match (enterCheck s) = inv_match s" "inv_match (touch s) = inv_match s"
  "inv_match (s \<lparr> ss_checks := c \<rparr>) = inv_match s" "inv_match (s \<lparr> ss_polling := q \<rparr>) = inv_match s"
  "inv_match (s \<lparr> ss_pollsEnded := b \<rparr>) = inv_match s"
  by (simp_all add: inv_match_def enterCheck_def touch_def)

lemma matchRecord_settles:
  assumes "watchOf (matchRecord now op s) (op_id op) = Some w"
  shows "\<not> ow_ready w (Some op)"
proof (cases "watchOf s (op_id op)")
  case (Some v)
  have "watchOf (setWatch (op_id op) (v \<lparr> ow_status := op_status op \<rparr>) s) (op_id op) = Some (v \<lparr> ow_status := op_status op \<rparr>)"
    by (simp add: Some)
  then show ?thesis
    using assms sameWatchesD [OF sameWatches_armFirstPoll]
    by (fastforce simp: matchRecord_def Some endWatch_def split: if_splits)
qed (use assms in \<open>simp add: matchRecord_def\<close>)

lemma match_fold_settles:
  "watchOf (fold (matchRecord now) ops s) k = Some w \<Longrightarrow> op \<in> set ops \<Longrightarrow> op_id op = k \<Longrightarrow> \<not> ow_ready w (Some op)"
proof (induction ops arbitrary: s)
  case (Cons x ops)
  show ?case
  proof (cases "op \<in> set ops")
    case True
    then show ?thesis using Cons by simp
  next
    case False
    obtain v where "watchOf (matchRecord now x s) k = Some v" "ow_ready w = ow_ready v"
      using fewerWatches_fold [of "matchRecord now", OF fewerWatches_matchRecord] Cons.prems(1)
      by (metis fewerWatches_def fold_simps(2))
    then show ?thesis using matchRecord_settles [of now x s] Cons.prems False by auto
  qed
qed simp

lemma rest_matchFold: "rest (fold (matchRecord now) ops s) = rest s"
  by (rule rest_fold) (rule frame)

lemma match_onStateMerged:
  assumes "onStateMerged now s = Some t" and "inv_match s"
  shows "inv_match t"
proof -
  obtain ops where u: "ss_unmatched s = Some ops" and t: "t = fold (matchRecord now) ops (s \<lparr> ss_unmatched := None \<rparr>)"
    using assms(1) by (auto simp: onStateMerged_def split: option.splits)
  have st: "ss_state t = ss_state s"
    unfolding t by (simp add: rest_eqD [OF rest_matchFold])
  show ?thesis
    unfolding inv_match_def
  proof (intro allI impI; elim conjE)
    fix k w
    assume w: "watchOf t k = Some w" and r: "ow_ready w (getByWireID (ss_state t) k)"
    obtain v where v: "watchOf s k = Some v" "ow_ready w = ow_ready v"
      using fewerWatches_fold [of "matchRecord now" ops, OF fewerWatches_matchRecord] w unfolding t
      by (fastforce simp: fewerWatches_def)
    then obtain op where "op \<in> set ops" "op_id op = k" "ow_ready v (Some op)"
      using assms(2) r st u by (auto simp: inv_match_def)
    then show "\<exists>ops op. ss_unmatched t = Some ops \<and> op \<in> set ops \<and> op_id op = k \<and> ow_ready w (Some op)"
      using match_fold_settles w v(2) unfolding t by metis
  qed
qed

lemma merge_get_cases:
  obtains "es_operations (es_merge ops st) k = es_operations st k"
  | op where "es_operations (es_merge ops st) k = Some op" "op \<in> set ops" "op_id op = k"
proof (cases "map_of (rev (map (\<lambda>op. (op_id op, op)) ops)) k")
  case None
  then show thesis using that(1) by (simp add: es_merge_operations map_add_def)
next
  case (Some op)
  then show thesis using that(2) [of op] by (auto simp: es_merge_operations map_add_def dest!: map_of_SomeD)
qed

lemma match_merge:
  assumes "mergeResponse ops s = Some t" and "inv_match s"
  shows "inv_match t"
proof -
  have u: "ss_unmatched s = None" and t: "t = s \<lparr> ss_state := es_merge ops (ss_state s), ss_unmatched := Some ops \<rparr>"
    using assms(1) by (auto simp: mergeResponse_def split: if_splits)
  show ?thesis
    unfolding inv_match_def
  proof (intro allI impI; elim conjE)
    fix k w
    assume w: "watchOf t k = Some w" "ow_ready w (getByWireID (ss_state t) k)"
    show "\<exists>ops op. ss_unmatched t = Some ops \<and> op \<in> set ops \<and> op_id op = k \<and> ow_ready w (Some op)"
    proof (rule merge_get_cases [of ops "ss_state s" k])
      assume "es_operations (es_merge ops (ss_state s)) k = es_operations (ss_state s) k"
      then show ?thesis using w assms(2) u by (fastforce simp: t inv_match_def getByWireID_def)
    qed (use w in \<open>auto simp: t getByWireID_def\<close>)
  qed
qed

lemma settleLocked_frame [simp]:
  "ss_watches (settleLocked e f s) = ss_watches s" "ss_state (settleLocked e f s) = ss_state s"
  "ss_unmatched (settleLocked e f s) = ss_unmatched s" "ss_timers (settleLocked e f s) = ss_timers s"
  "ss_futures (settleLocked e f s) = ss_futures s" "ss_draining (settleLocked e f s) = ss_draining s"
  "ss_firing (settleLocked e f s) = ss_firing s" "ss_done (settleLocked e f s) = ss_done s"
  "ss_pollsStopped (settleLocked e f s) = ss_pollsStopped s" "ss_settling (settleLocked e f s) = ss_settling s"
  "ss_observers (settleLocked e f s) = ss_observers s" "ss_deadline (settleLocked e f s) = ss_deadline s"
  "ss_nextWatch (settleLocked e f s) = ss_nextWatch s" "length (ss_waiters (settleLocked e f s)) = length (ss_waiters s)"
  "length (ss_cells (settleLocked e f s)) = length (ss_cells s)" "ss_parkers (settleLocked e f s) = ss_parkers s"
  "ss_abandonSet (settleLocked e f s) = ss_abandonSet s" "ss_branchCommits (settleLocked e f s) = ss_branchCommits s"
  by (simp_all add: settleLocked_def Let_def rest_eqD [OF rest_wakeAll])

lemma addCellWaiters_frame:
  "fold (addCellWaiter i) fs s =
     s \<lparr> ss_cells := fold (\<lambda>f cs. cs[f := (cs ! f) \<lparr> fc_waiters := fc_waiters (cs ! f) @ [i] \<rparr>]) fs (ss_cells s) \<rparr>"
  by (induction fs arbitrary: s) (simp_all add: addCellWaiter_def)

lemma fewerWatches_armPoll: "fewerWatches (armPollLocked k d now s) s"
  by (rule fewerWatches_same) simp

lemma fewerWatches_stopPolls: "fewerWatches (stopPolls s) s"
  unfolding stopPolls_def
  by (rule fewerWatches_trans [OF _ fewerWatches_fold]) (simp_all add: fewerWatches_same)

lemma stopPolls_frame [simp]: "rest (stopPolls s) = rest (s \<lparr> ss_pollsStopped := True \<rparr>)"
  by (simp add: stopPolls_def rest_fold frame)

lemma fire_begin_rest:
  "\<not> ss_firing s \<Longrightarrow> rest (fire_begin s) = rest (s \<lparr> ss_firing := True, ss_firedReason := watchReasonLocked s,
     ss_draining := ss_futures s, ss_futures := [], ss_pollsStopped := True \<rparr>)"
  by (simp add: fire_begin_def Let_def rest_fold frame)

lemma currentWatch_Some: "currentWatch s p = Some w \<Longrightarrow> watchOf s (pr_wire p) = Some w"
  by (auto simp: currentWatch_def split: option.splits if_splits)

lemma newWatch_same:
  "watchOf s wid = None \<Longrightarrow>
   sameWatches (armFirstPollLocked wid op now (addWatch wid ready endTime r s)) (addWatch wid ready endTime r s)"
  by simp

lemma addWatch_simps [simp]:
  "watchOf (addWatch wid ready endTime r s) k =
     (case watchOf s k of Some w \<Rightarrow> Some w | None \<Rightarrow> if k = wid then Some \<lparr> ow_uid = ss_nextWatch s, ow_ready = ready,
        ow_endTime = endTime, ow_waiters = [], ow_status = (case r of None \<Rightarrow> statusOther '''' | Some r \<Rightarrow> op_status r),
        ow_timer = False, ow_polls = 0, ow_epoch = 0 \<rparr> else None)"
  "ss_waiters (addWatch wid ready endTime r s) = ss_waiters s" "ss_parked (addWatch wid ready endTime r s) = ss_parked s"
  by (auto simp: addWatch_def map_add_def split: option.split)

lemma addWatch_rest:
  "ss_state (addWatch wid ready endTime r s) = ss_state s" "ss_unmatched (addWatch wid ready endTime r s) = ss_unmatched s"
  by (simp_all add: addWatch_def)

text \<open>What parking on an operation does to the watches: none that was there changes, and a new one is not ready.\<close>

definition parkedState :: "string \<Rightarrow> abandonHandle option \<Rightarrow> bool \<Rightarrow> nat option \<Rightarrow> suspendSignal \<Rightarrow> suspendSignal" where
  "parkedState wid ab d gated s = addGateWaiter gated (length (ss_waiters s)) (snd (newWaiterLocked ab d s))"

lemma parkedState_simps [simp]:
  "ss_watches (parkedState wid ab d gated s) = ss_watches s" "ss_state (parkedState wid ab d gated s) = ss_state s"
  "ss_unmatched (parkedState wid ab d gated s) = ss_unmatched s" "ss_cells (parkedState wid ab d gated s) = ss_cells s"
  "ss_timers (parkedState wid ab d gated s) = ss_timers s" "ss_deadline (parkedState wid ab d gated s) = ss_deadline s"
  "ss_pollsStopped (parkedState wid ab d gated s) = ss_pollsStopped s" "ss_nextWatch (parkedState wid ab d gated s) = ss_nextWatch s"
  "ss_futures (parkedState wid ab d gated s) = ss_futures s" "ss_draining (parkedState wid ab d gated s) = ss_draining s"
  "ss_firing (parkedState wid ab d gated s) = ss_firing s" "ss_done (parkedState wid ab d gated s) = ss_done s"
  "ss_settling (parkedState wid ab d gated s) = ss_settling s" "ss_observers (parkedState wid ab d gated s) = ss_observers s"
  "ss_parkers (parkedState wid ab d gated s) = ss_parkers s" "ss_parked (parkedState wid ab d gated s) = ss_parked s + 1"
  "ss_waiters (parkedState wid ab d gated s) = ss_waiters s @
     [\<lparr> pw_woken = False, pw_parked = True, pw_err = None, pw_abandon = ab, pw_detached = d \<rparr>]"
  "ss_abandonSet (parkedState wid ab d gated s) = ss_abandonSet s" "ss_branchCommits (parkedState wid ab d gated s) = ss_branchCommits s"
  by (simp_all add: parkedState_def addGateWaiter_def newWaiterLocked_def split: option.split)

definition watchedState :: "string \<Rightarrow> (operation option \<Rightarrow> bool) \<Rightarrow> (operation option \<Rightarrow> time option) \<Rightarrow> operation option \<Rightarrow>
    time \<Rightarrow> suspendSignal \<Rightarrow> suspendSignal" where
  "watchedState wid ready endTime op now s =
     (if watchOf s wid = None then armFirstPollLocked wid op now (addWatch wid ready endTime op s) else s)"

lemma parkOnOperation_eq:
  "parkOnOperation wid ab d gated ready endTime op now s =
     (length (ss_waiters s), enterCheck (addWatchWaiter wid (length (ss_waiters s))
        (watchedState wid ready endTime op now (parkedState wid ab (d \<or> gated \<noteq> None) gated s))))"
  by (simp add: parkOnOperation_def watchedState_def parkedState_def newWaiterLocked_def Let_def)

lemma await_cases:
  assumes "awaitOperation_begin wid ab det gate ready endTime now s = (r, t)"
  obtains "t = s" "\<And>i. r \<noteq> AwaitParks i"
  | gated where "\<not> ss_firing s" "\<not> abandoned s ab" "\<not> ready (getByWireID (ss_state s) wid)"
      "r = AwaitParks (length (ss_waiters s))"
      "t = snd (parkOnOperation wid ab det gated ready endTime (getByWireID (ss_state s) wid) now s)"
proof (cases "ss_firing s \<or> abandoned s ab \<or> ready (getByWireID (ss_state s) wid)")
  case True
  then show thesis using assms by (intro that(1)) (auto simp: awaitOperation_begin_def split: if_splits)
next
  case False
  let ?g = "case gate of None \<Rightarrow> None | Some g \<Rightarrow> if ag_awaited (ss_gates s ! g) then None else Some g"
  have "(r, t) = (AwaitParks (length (ss_waiters s)),
      snd (parkOnOperation wid ab det ?g ready endTime (getByWireID (ss_state s) wid) now s))"
    using False unfolding assms [symmetric] awaitOperation_begin_def Let_def
    by (simp add: parkOnOperation_eq)
  then show thesis using False by (intro that(2) [of ?g]) simp_all
qed

lemma await_step_cases:
  assumes "ss_step (SAwait wid ab det gate ready endTime now) s = Some t"
  obtains "t = s"
  | gated where "\<not> ss_firing s" "\<not> abandoned s ab" "\<not> ready (getByWireID (ss_state s) wid)"
      "t = snd (parkOnOperation wid ab det gated ready endTime (getByWireID (ss_state s) wid) now s)"
proof -
  obtain r where "awaitOperation_begin wid ab det gate ready endTime now s = (r, t)"
    using assms by (cases "awaitOperation_begin wid ab det gate ready endTime now s") (auto simp: ss_step_def split: if_splits)
  then show thesis by (rule await_cases) (use that in blast)+
qed

lemma pollEnd_cases:
  assumes "pollWatch_end err now s = Some t"
  obtains p ps b where "ss_polling s = p # ps" "t = enterCheck (s \<lparr> ss_polling := ps, ss_pollsEnded := b \<rparr>)"
      "b \<or> (currentWatch s p = None \<and> b = ss_pollsEnded s)"
  | p ps w where "ss_polling s = p # ps" "watchOf s (pr_wire p) = Some w" "timerOf w p"
      "t = enterCheck (armPollLocked (pr_wire p) (pollSchedule (ow_polls w + 1)) now
             (setWatch (pr_wire p) (w \<lparr> ow_polls := ow_polls w + 1 \<rparr>) (s \<lparr> ss_polling := ps \<rparr>)))"
proof (cases "ss_polling s")
  case Nil
  then show thesis using assms by (simp add: pollWatch_end_def)
next
  case (Cons p ps)
  show thesis
  proof (cases "(case err of Some e \<Rightarrow> errors_Is e errCheckpointTerminated | None \<Rightarrow> False) \<or> currentWatch s p = None")
    case True
    let ?b = "(case err of Some e \<Rightarrow> errors_Is e errCheckpointTerminated | None \<Rightarrow> False) \<or> ss_pollsEnded s"
    show thesis using assms Cons True
      by (intro that(1) [of p ps ?b]) (auto simp: pollWatch_end_def Let_def enterCheck_def split: if_splits)
  next
    case False
    then obtain w where w: "currentWatch s p = Some w" by auto
    then show thesis using assms Cons False
      by (intro that(2) [of p ps w] currentWatch_Some [OF w])
         (auto simp: pollWatch_end_def Let_def currentWatch_def timerOf_def split: if_splits option.splits)
  qed
qed

lemma watchedState_frame [simp]:
  "ss_waiters (watchedState wid ready endTime op now s) = ss_waiters s"
  "ss_parked (watchedState wid ready endTime op now s) = ss_parked s"
  "rest (watchedState wid ready endTime op now s) =
     rest (if watchOf s wid = None then s \<lparr> ss_nextWatch := ss_nextWatch s + 1 \<rparr> else s)"
  by (simp_all add: watchedState_def frame) (simp add: addWatch_def rest_def)

lemma watchedState_watch:
  obtains v where "watchOf (watchedState wid ready endTime op now s) wid = Some v"
    "watchOf s wid = None \<Longrightarrow> ow_ready v = ready \<and> ow_waiters v = []"
    "\<And>u. watchOf s wid = Some u \<Longrightarrow> v = u"
proof (cases "watchOf s wid")
  case None
  let ?t = "addWatch wid ready endTime op s"
  have t: "watchedState wid ready endTime op now s = armFirstPollLocked wid op now ?t"
    by (simp add: watchedState_def None)
  obtain u where u: "watchOf ?t wid = Some u" "ow_ready u = ready" "ow_waiters u = []"
    by (simp add: None)
  have "map_option core (watchOf (armFirstPollLocked wid op now ?t) wid) = Some (core u)"
    using sameWatches_armFirstPoll [of wid op now ?t] u(1) unfolding sameWatches_def by simp
  then obtain v where "watchOf (armFirstPollLocked wid op now ?t) wid = Some v" "core v = core u"
    by auto
  with u show thesis by (intro that [of v]) (simp_all add: t core_def None)
next
  case (Some u)
  show thesis by (rule that [of u]) (simp_all add: watchedState_def Some)
qed

lemma watchedState_others:
  "k \<noteq> wid \<Longrightarrow> map_option core (watchOf (watchedState wid ready endTime op now s) k) = map_option core (watchOf s k)"
proof -
  let ?t = "addWatch wid ready endTime op s"
  assume "k \<noteq> wid"
  then have "watchOf ?t k = watchOf s k" by (simp split: option.split)
  moreover have "map_option core (watchOf (armFirstPollLocked wid op now ?t) k) = map_option core (watchOf ?t k)"
    using sameWatches_armFirstPoll [of wid op now ?t] unfolding sameWatches_def by (rule spec)
  ultimately show ?thesis by (simp add: watchedState_def)
qed

lemma addWatchWaiter_simps:
  "watchOf s wid = Some v \<Longrightarrow> watchOf (addWatchWaiter wid i s) k =
     (if k = wid then Some (v \<lparr> ow_waiters := ow_waiters v @ [i] \<rparr>) else watchOf s k)"
  "rest (addWatchWaiter wid i s) = rest s" "ss_waiters (addWatchWaiter wid i s) = ss_waiters s"
  "ss_parked (addWatchWaiter wid i s) = ss_parked s" "ss_timers (addWatchWaiter wid i s) = ss_timers s"
  by (simp_all add: addWatchWaiter_def frame split: option.split)

lemma match_park:
  assumes "inv_match s" and "\<not> ready (getByWireID (ss_state s) wid)"
  shows "inv_match (snd (parkOnOperation wid ab d gated ready endTime (getByWireID (ss_state s) wid) now s))"
proof -
  define p where "p = parkedState wid ab (d \<or> gated \<noteq> None) gated s"
  define t where "t = watchedState wid ready endTime (getByWireID (ss_state s) wid) now p"
  have p: "ss_watches p = ss_watches s" "ss_state p = ss_state s" "ss_unmatched p = ss_unmatched s"
    by (simp_all add: p_def)
  obtain v where v: "watchOf t wid = Some v" "watchOf s wid = None \<Longrightarrow> ow_ready v = ready"
    "\<And>u. watchOf s wid = Some u \<Longrightarrow> v = u"
    by (rule watchedState_watch [of wid ready endTime "getByWireID (ss_state s) wid" now p]) (auto simp: p t_def)
  have fields: "ss_state t = ss_state s" "ss_unmatched t = ss_unmatched s"
    unfolding t_def using rest_eqD(14,15) [OF watchedState_frame(3), of wid ready endTime "getByWireID (ss_state s) wid" now p]
    by (simp_all add: p split: if_splits)
  have t: "inv_match t"
    unfolding inv_match_def
  proof (intro allI impI; elim conjE)
    fix k w
    assume w: "watchOf t k = Some w" "ow_ready w (getByWireID (ss_state t) k)"
    obtain u where "watchOf s k = Some u" "ow_ready u = ow_ready w"
    proof (cases "k = wid")
      case True
      then show thesis using that v w fields assms(2) by (cases "watchOf s wid") auto
    next
      case False
      then have "map_option core (watchOf s k) = Some (core w)"
        using watchedState_others [of k wid ready endTime "getByWireID (ss_state s) wid" now p] w(1) by (simp add: p t_def)
      then show thesis using that by (auto simp: core_def)
    qed
    then show "\<exists>ops op. ss_unmatched t = Some ops \<and> op \<in> set ops \<and> op_id op = k \<and> ow_ready w (Some op)"
      using assms(1) w fields by (fastforce simp: inv_match_def)
  qed
  have "inv_match (addWatchWaiter wid (length (ss_waiters s)) t)"
    by (rule match_fewer [OF t])
       (auto simp: fewerWatches_def addWatchWaiter_simps(1) [OF v(1)] v(1) rest_eqD [OF addWatchWaiter_simps(2)] split: if_splits)
  then show ?thesis by (simp add: parkOnOperation_eq t_def p_def)
qed

lemma match_keep:
  "inv_match s \<Longrightarrow> ss_watches t = ss_watches s \<Longrightarrow> ss_state t = ss_state s \<Longrightarrow> ss_unmatched t = ss_unmatched s \<Longrightarrow> inv_match t"
  by (rule match_fewer) auto

lemma match_rest:
  "inv_match s \<Longrightarrow> fewerWatches t s \<Longrightarrow> rest t = rest s \<Longrightarrow> inv_match t"
  by (rule match_fewer) (assumption | erule rest_eqD)+

text \<open>fire's first section with no watch left behind.\<close>

lemma fireWatch_gone: "watchOf (fireWatch k s) k = None"
  by (simp add: fireWatch_def endWatch_def split: option.split)

lemma fold_gone:
  assumes "\<And>k s. watchOf (f k s) k = None" and "\<And>k s. fewerWatches (f k s) s" and "k \<in> set ks"
  shows "watchOf (fold f ks s) k = None"
  using assms(3)
proof (induction ks arbitrary: s)
  case (Cons x ks)
  show ?case
  proof (cases "k \<in> set ks")
    case True
    then show ?thesis using Cons by simp
  next
    case False
    then have "x = k" using Cons.prems by simp
    have "watchOf (f k s) k = None" by (rule assms(1))
    then have "watchOf (fold f ks (f k s)) k = None"
      using fewerWatches_fold [of f ks "f k s", OF assms(2)] unfolding fewerWatches_def
      by (metis option.distinct(1) option.exhaust)
    then show ?thesis using \<open>x = k\<close> by simp
  qed
qed simp

lemma fire_no_watches:
  assumes "\<not> ss_firing s"
  shows "ss_watches (fire_begin s) = []"
proof -
  let ?s = "s \<lparr> ss_firing := True, ss_firedReason := watchReasonLocked s, ss_draining := ss_futures s,
      ss_futures := [], ss_pollsStopped := True \<rparr>"
  let ?t = "fold fireWatch (map fst (ss_watches s)) ?s"
  have "watchOf ?t k = None" for k
  proof (cases "k \<in> set (map fst (ss_watches s))")
    case True
    then show ?thesis by (rule fold_gone [OF fireWatch_gone fewerWatches_fireWatch])
  next
    case False
    then have "watchOf ?s k = None" by (auto simp: map_of_eq_None_iff)
    then show ?thesis
      using fewerWatches_fold [of fireWatch "map fst (ss_watches s)" ?s, OF fewerWatches_fireWatch]
      unfolding fewerWatches_def by (metis option.distinct(1) option.exhaust)
  qed
  then have "ss_watches ?t = []" using watches_nonempty [of ?t] by auto
  then show ?thesis using assms by (simp add: fire_begin_def Let_def)
qed

lemma match_no_watches: "ss_watches s = [] \<Longrightarrow> inv_match s"
  by (simp add: inv_match_def)

lemma match_step:
  assumes "ss_step a s = Some s'" and "inv_match s" and "inv_firing s"
  shows "inv_match s'"
proof (cases a)
  case (SAwait wid ab det gate ready endTime now)
  show ?thesis
    by (rule await_step_cases [OF assms(1) [unfolded SAwait]]) (use assms(2) match_park in auto)
next
  case (SMerge ops)
  then show ?thesis using assms match_merge by (simp add: ss_step_def)
next
  case (SMatch now)
  then show ?thesis using assms match_onStateMerged by (simp add: ss_step_def)
next
  case SWakeAbandoned
  have "inv_match (fold wakeAbandoned1 (map fst (ss_watches s)) s)"
    by (rule match_rest [OF assms(2) fewerWatches_fold [OF fewerWatches_wakeAbandoned1] rest_fold [OF rest_wakeAbandoned1]])
  then show ?thesis using assms(1) SWakeAbandoned by (auto simp: ss_step_def wakeAbandoned_def)
next
  case SFire
  have "inv_match (fire_begin t)" if "ss_firing t \<longrightarrow> ss_watches t = []" for t
    using that by (intro match_no_watches) (cases "ss_firing t", simp_all add: fire_no_watches, simp add: fire_begin_def)
  then show ?thesis
    using assms SFire by (auto simp: ss_step_def maybeSuspend_fire_def inv_firing_def split: if_splits)
next
  case (SPollBegin now)
  have "inv_match (setWatch (pr_wire p) (w \<lparr> ow_timer := False \<rparr>) (s \<lparr> ss_started := ps \<rparr>))"
    if "currentWatch s p = Some w" for p ps w
    using currentWatch_Some [OF that] assms(2)
    by (intro match_fewer [OF assms(2)]) (auto simp: fewerWatches_def setWatch_def map_of_replace split: if_splits)
  then show ?thesis
    using assms SPollBegin
    by (auto simp: ss_step_def pollWatch_begin_def Let_def setWatch_def split: list.splits option.splits if_splits
        intro: match_keep [OF assms(2)] match_keep)
next
  case (SPollEnd err now)
  have "inv_match (armPollLocked (pr_wire p) d now (setWatch (pr_wire p) (w \<lparr> ow_polls := n \<rparr>) (s \<lparr> ss_polling := ps \<rparr>)))"
    if "currentWatch s p = Some w" for p ps w d n
    using currentWatch_Some [OF that]
    by (intro match_rest [OF _ fewerWatches_armPoll rest_armPoll] match_fewer [OF assms(2)])
       (auto simp: fewerWatches_def setWatch_def map_of_replace split: if_splits)
  then show ?thesis
    using assms SPollEnd
    by (auto simp: ss_step_def pollWatch_end_def Let_def split: list.splits option.splits if_splits
        intro: match_keep [OF assms(2)])
next
  case SStopPolls
  then show ?thesis
    using assms by (auto simp: ss_step_def rest_eqD [OF stopPolls_frame] intro: match_fewer [OF _ fewerWatches_stopPolls])
qed (use assms in \<open>auto simp: ss_step_def registerBranch_def deregisterBranch_def enterExecuting_def exitExecuting_def
    newFuture_def registerFuture_def awaitAnySettled_def Let_def leaveFutures_def newWaiterLocked_def addCellWaiters_frame
    markAwaited_def parker_park_def parker_signal_def parker_received_def parker_unpark_def abandon_def retireCommitments_def
    commitPending_def requestQueued_def requestSettled_def contextEnds_def maybeSuspend_check_def maybeSuspend_settled_def
    fire_drain_def timerFires_def touch_def enterCheck_def
    split: if_splits option.splits list.splits intro!: match_keep [OF assms(2)]\<close>)

section \<open>Firing and settling\<close>

lemma firing_cong:
  "inv_firing s \<Longrightarrow> ss_firing t = ss_firing s \<Longrightarrow> ss_done t = ss_done s \<Longrightarrow> ss_draining t = ss_draining s \<Longrightarrow>
   ss_futures t = ss_futures s \<Longrightarrow> (ss_pollsStopped s \<longrightarrow> ss_pollsStopped t) \<Longrightarrow>
   (ss_watches s = [] \<longrightarrow> ss_watches t = []) \<Longrightarrow> inv_firing t"
  by (auto simp: inv_firing_def split: if_splits)

lemma firing_fields [simp]:
  "inv_firing (enterCheck s) = inv_firing s" "inv_firing (s \<lparr> ss_polling := ps \<rparr>) = inv_firing s"
  "inv_firing (s \<lparr> ss_pollsEnded := b \<rparr>) = inv_firing s"
  by (simp_all add: inv_firing_def enterCheck_def)

lemma fewer_empty: "fewerWatches t s \<Longrightarrow> ss_watches s = [] \<Longrightarrow> ss_watches t = []"
  using watches_nonempty [of t] by (auto simp: fewerWatches_def)

lemma firing_fewer: "inv_firing s \<Longrightarrow> rest t = rest s \<Longrightarrow> fewerWatches t s \<Longrightarrow> inv_firing t"
  by (erule firing_cong) (auto dest: rest_eqD fewer_empty)

lemma firing_unfired: "\<not> ss_firing s \<Longrightarrow> inv_firing s \<Longrightarrow> \<not> ss_firing t \<Longrightarrow> ss_draining t = ss_draining s \<Longrightarrow>
    ss_done t = ss_done s \<Longrightarrow> inv_firing t"
  by (simp add: inv_firing_def)

lemma park_frame:
  assumes "t = snd (parkOnOperation wid ab d gated ready endTime op now s)"
  shows "ss_firing t = ss_firing s" "ss_done t = ss_done s" "ss_draining t = ss_draining s" "ss_futures t = ss_futures s"
    "ss_settling t = ss_settling s" "ss_observers t = ss_observers s" "ss_cells t = ss_cells s"
    "ss_parkers t = ss_parkers s" "ss_parked t = ss_parked s + 1"
    "ss_waiters t = ss_waiters s @
       [\<lparr> pw_woken = False, pw_parked = True, pw_err = None, pw_abandon = ab, pw_detached = d \<or> gated \<noteq> None \<rparr>]"
    "ss_abandonSet t = ss_abandonSet s" "ss_branchCommits t = ss_branchCommits s" "ss_pollsStopped t = ss_pollsStopped s"
    "ss_deadline t = ss_deadline s" "ss_state t = ss_state s" "ss_unmatched t = ss_unmatched s"
  unfolding assms parkOnOperation_eq
  by (simp_all add: enterCheck_def rest_eqD [OF addWatchWaiter_simps(2)] rest_eqD [OF watchedState_frame(3)] addWatchWaiter_simps)

lemma fire_begin_fields:
  assumes "\<not> ss_firing s"
  shows "ss_firing (fire_begin s)" "ss_pollsStopped (fire_begin s)" "ss_futures (fire_begin s) = []"
    "ss_draining (fire_begin s) = ss_futures s" "ss_done (fire_begin s) = ss_done s"
    "ss_cells (fire_begin s) = ss_cells s" "ss_parkers (fire_begin s) = ss_parkers s"
    "ss_settling (fire_begin s) = ss_settling s" "ss_observers (fire_begin s) = ss_observers s"
    "ss_abandonSet (fire_begin s) = ss_abandonSet s" "ss_branchCommits (fire_begin s) = ss_branchCommits s"
  using assms by (simp_all add: rest_eqD [OF fire_begin_rest])

lemma fire_begin_again: "ss_firing s \<Longrightarrow> fire_begin s = s"
  by (simp add: fire_begin_def)

lemma firing_fire_begin_inv: "inv_firing s \<Longrightarrow> inv_firing (fire_begin s)"
  by (cases "ss_firing s")
     (simp add: fire_begin_again, simp add: inv_firing_def fire_begin_fields fire_no_watches)

lemma firing_step:
  assumes "ss_step a s = Some s'" and "inv_firing s"
  shows "inv_firing s'"
proof (cases a)
  case (SAwait wid ab det gate ready endTime now)
  show ?thesis
  proof (rule await_step_cases [OF assms(1) [unfolded SAwait]])
    fix gated
    assume u: "\<not> ss_firing s"
      and t: "s' = snd (parkOnOperation wid ab det gated ready endTime (getByWireID (ss_state s) wid) now s)"
    show ?thesis by (rule firing_unfired [OF u assms(2)]) (simp_all add: park_frame [OF t] u)
  qed (use assms(2) in simp)
next
  case (SMatch now)
  then obtain ops where "s' = fold (matchRecord now) ops (s \<lparr> ss_unmatched := None \<rparr>)"
    using assms(1) by (auto simp: ss_step_def onStateMerged_def split: option.splits)
  moreover have "inv_firing (s \<lparr> ss_unmatched := None \<rparr>)" using assms(2) by (simp add: inv_firing_def)
  ultimately show ?thesis
    by (simp add: firing_fewer rest_matchFold fewerWatches_fold [OF fewerWatches_matchRecord])
next
  case SWakeAbandoned
  have "inv_firing (fold wakeAbandoned1 (map fst (ss_watches s)) s)"
    by (rule firing_fewer [OF assms(2) rest_fold [OF rest_wakeAbandoned1] fewerWatches_fold [OF fewerWatches_wakeAbandoned1]])
  then show ?thesis using assms(1) SWakeAbandoned by (auto simp: ss_step_def wakeAbandoned_def enterCheck_def inv_firing_def)
next
  case SFire
  then show ?thesis
    using assms by (auto simp: ss_step_def maybeSuspend_fire_def split: if_splits intro!: firing_fire_begin_inv)
      (simp add: inv_firing_def)
next
  case (SPollBegin now)
  then show ?thesis
    using assms by (auto simp: ss_step_def pollWatch_begin_def Let_def setWatch_def inv_firing_def split: list.splits option.splits if_splits)
next
  case (SPollEnd err now)
  have arm: "inv_firing (armPollLocked (pr_wire p) d now (setWatch (pr_wire p) (w \<lparr> ow_polls := n \<rparr>) (s \<lparr> ss_polling := ps \<rparr>)))"
    for p ps w d n
    by (rule firing_fewer [OF _ rest_armPoll fewerWatches_armPoll])
       (use assms(2) in \<open>simp add: setWatch_def inv_firing_def\<close>)
  have "pollWatch_end err now s = Some s'" using assms(1) SPollEnd by (simp add: ss_step_def)
  then show ?thesis
    by (rule pollEnd_cases) (use assms(2) arm in simp_all)
next
  case SStopPolls
  then show ?thesis
    using assms fewer_empty [OF fewerWatches_stopPolls, of s]
    by (auto simp: ss_step_def rest_eqD [OF stopPolls_frame] intro!: firing_cong [OF assms(2)])
next
  case (SRegisterFuture f)
  then show ?thesis
    using assms by (auto simp: ss_step_def registerFuture_def Let_def inv_firing_def split: if_splits)
next
  case SDrain
  then show ?thesis
    using assms by (auto simp: ss_step_def fire_drain_def inv_firing_def split: list.splits if_splits)
qed (use assms(1) in \<open>auto simp: ss_step_def registerBranch_def deregisterBranch_def enterExecuting_def exitExecuting_def
    newFuture_def awaitAnySettled_def Let_def leaveFutures_def newWaiterLocked_def addCellWaiters_frame
    markAwaited_def parker_park_def parker_signal_def parker_received_def parker_unpark_def abandon_def retireCommitments_def
    commitPending_def requestQueued_def requestSettled_def contextEnds_def maybeSuspend_check_def maybeSuspend_settled_def
    mergeResponse_def timerFires_def enterCheck_def touch_def
    split: if_splits option.splits list.splits intro!: firing_cong [OF assms(2)]\<close>)

lemma settle_step:
  assumes "ss_step a s = Some s'" and "inv_settle s" and "inv_firing s"
  shows "inv_settle s'"
proof (cases a)
  case (SAwait wid ab det gate ready endTime now)
  show ?thesis
  proof (rule await_step_cases [OF assms(1) [unfolded SAwait]])
    fix gated
    assume t: "s' = snd (parkOnOperation wid ab det gated ready endTime (getByWireID (ss_state s) wid) now s)"
    show ?thesis using assms(2) by (simp add: inv_settle_def park_frame [OF t])
  qed (use assms(2) in simp)
next
  case (SMatch now)
  then show ?thesis
    using assms by (auto simp: ss_step_def onStateMerged_def inv_settle_def rest_eqD [OF rest_matchFold] split: option.splits)
next
  case SWakeAbandoned
  then show ?thesis
    using assms by (auto simp: ss_step_def wakeAbandoned_def enterCheck_def inv_settle_def rest_eqD [OF rest_fold [OF rest_wakeAbandoned1]])
next
  case SFire
  have "inv_settle (fire_begin t)" if "inv_settle t" for t
    using that by (cases "ss_firing t") (simp_all add: fire_begin_again inv_settle_def fire_begin_fields)
  moreover have "inv_settle (s \<lparr> ss_fires := ss_fires s - 1 \<rparr>)" using assms(2) by (simp add: inv_settle_def)
  ultimately show ?thesis
    using assms(1) SFire by (auto simp: ss_step_def maybeSuspend_fire_def split: if_splits)
next
  case (SPollEnd err now)
  then have "pollWatch_end err now s = Some s'" using assms(1) by (simp add: ss_step_def)
  then show ?thesis
    by (rule pollEnd_cases)
       (use assms(2) in \<open>simp_all add: inv_settle_def enterCheck_def setWatch_def rest_eqD [OF rest_armPoll]\<close>)
next
  case SStopPolls
  then show ?thesis
    using assms by (auto simp: ss_step_def inv_settle_def rest_eqD [OF stopPolls_frame])
qed (use assms in \<open>auto simp: ss_step_def registerBranch_def deregisterBranch_def enterExecuting_def exitExecuting_def
    newFuture_def registerFuture_def awaitAnySettled_def Let_def leaveFutures_def newWaiterLocked_def addCellWaiters_frame
    markAwaited_def parker_park_def parker_signal_def parker_received_def parker_unpark_def abandon_def retireCommitments_def
    commitPending_def requestQueued_def requestSettled_def contextEnds_def maybeSuspend_check_def maybeSuspend_settled_def
    mergeResponse_def fire_drain_def timerFires_def enterCheck_def touch_def inv_settle_def pollWatch_begin_def setWatch_def
    split: if_splits option.splits list.splits\<close>)

end
