(* ===== verification/Suspend_Held.thy ===== *)
theory Suspend_Held
  imports Suspend_Inv
begin

text \<open>
  Who is parked and who wakes them: every action of the suspension signal
  keeps the parked count exact and keeps every blocked goroutine in a watch or
  in a future that fire will settle, and it keeps every armed poll with its
  watch.  The invariant of the signal follows.
\<close>

section \<open>Waiters are held\<close>

lemma held_intro:
  assumes "inv_held s"
    and "length (ss_waiters t) = length (ss_waiters s)" and "length (ss_cells t) = length (ss_cells s)"
    and "\<And>j. j < length (ss_waiters s) \<Longrightarrow> pw_woken (ss_waiters s ! j) \<Longrightarrow> pw_woken (ss_waiters t ! j)"
    and "\<And>k w. watchOf t k = Some w \<Longrightarrow>
      ow_waiters w \<noteq> [] \<and> (\<exists>v. watchOf s k = Some v \<and> set (ow_waiters w) \<subseteq> set (ow_waiters v))"
    and "\<And>k v j. watchOf s k = Some v \<Longrightarrow> j \<in> set (ow_waiters v) \<Longrightarrow> j < length (ss_waiters s) \<Longrightarrow>
      \<not> pw_woken (ss_waiters t ! j) \<Longrightarrow> \<exists>w. watchOf t k = Some w \<and> j \<in> set (ow_waiters w)"
    and "\<And>f j. f < length (ss_cells s) \<Longrightarrow> j \<in> set (fc_waiters (ss_cells s ! f)) \<Longrightarrow> j < length (ss_waiters s) \<Longrightarrow>
      \<not> pw_woken (ss_waiters t ! j) \<Longrightarrow> j \<in> set (fc_waiters (ss_cells t ! f))"
  shows "inv_held t"
proof -
  have "\<forall>j < length (ss_waiters s). \<not> pw_woken (ss_waiters t ! j) \<longrightarrow>
      (\<exists>k w. watchOf t k = Some w \<and> j \<in> set (ow_waiters w)) \<or>
      (\<exists>f < length (ss_cells s). j \<in> set (fc_waiters (ss_cells t ! f)))"
    using assms(1,4,6,7) unfolding inv_held_def by metis
  moreover have "\<forall>k w. watchOf t k = Some w \<longrightarrow> ow_waiters w \<noteq> [] \<and> (\<forall>i \<in> set (ow_waiters w). i < length (ss_waiters s))"
    using assms(1,5) unfolding inv_held_def by (metis subsetD)
  ultimately show ?thesis by (simp add: inv_held_def assms(2,3))
qed

lemma held_same:
  assumes "inv_held s" and "sameWatches t s" and "ss_waiters t = ss_waiters s" and "ss_cells t = ss_cells s"
  shows "inv_held t"
proof (rule held_intro [OF assms(1)])
  fix k w assume "watchOf t k = Some w"
  then show "ow_waiters w \<noteq> [] \<and> (\<exists>v. watchOf s k = Some v \<and> set (ow_waiters w) \<subseteq> set (ow_waiters v))"
    using assms(1) sameWatchesD [OF assms(2)] unfolding inv_held_def by (metis order_refl)
next
  fix k v j assume "watchOf s k = Some v" "j \<in> set (ow_waiters v)"
  then show "\<exists>w. watchOf t k = Some w \<and> j \<in> set (ow_waiters w)"
    using assms(2) sameWatchesD [of s t k v] by (fastforce simp: sameWatches_def)
qed (simp_all add: assms)

lemma wakeAll_cong:
  "ss_waiters t = ss_waiters u \<Longrightarrow> ss_parked t = ss_parked u \<Longrightarrow>
   ss_waiters (wakeAll e is t) = ss_waiters (wakeAll e is u) \<and> ss_parked (wakeAll e is t) = ss_parked (wakeAll e is u)"
proof (induction "is" arbitrary: t u)
  case (Cons i "is")
  have "ss_waiters (wakeLocked e i t) = ss_waiters (wakeLocked e i u)" "ss_parked (wakeLocked e i t) = ss_parked (wakeLocked e i u)"
    using Cons.prems by (simp_all add: wakeLocked_def Let_def)
  from Cons.IH [OF this] show ?case by simp
qed simp

lemma wakeAll_stopTimer:
  "ss_waiters (wakeAll e is (stopTimerLocked k s)) = ss_waiters (wakeAll e is s)"
  "ss_parked (wakeAll e is (stopTimerLocked k s)) = ss_parked (wakeAll e is s)"
  using wakeAll_cong [of "stopTimerLocked k s" s] by simp_all

lemma endWatch_simps:
  "watchOf (endWatch e k w s) k = None"
  "k' \<noteq> k \<Longrightarrow> map_option core (watchOf (endWatch e k w s) k') = map_option core (watchOf s k')"
  "ss_waiters (endWatch e k w s) = ss_waiters (wakeAll e (ow_waiters w) s)"
  "ss_cells (endWatch e k w s) = ss_cells s" "ss_parkers (endWatch e k w s) = ss_parkers s"
proof -
  have st: "sameWatches (stopTimerLocked k s) s" by simp
  show "k' \<noteq> k \<Longrightarrow> map_option core (watchOf (endWatch e k w s) k') = map_option core (watchOf s k')"
    using st by (simp add: endWatch_def sameWatches_def)
  show "ss_waiters (endWatch e k w s) = ss_waiters (wakeAll e (ow_waiters w) s)"
    by (simp add: endWatch_def wakeAll_stopTimer)
qed (simp_all add: endWatch_def rest_eqD [OF rest_wakeAll] rest_eqD [OF rest_deleteWatch] rest_eqD [OF rest_stopTimer])

lemma held_endWatch:
  assumes "inv_held s" and w: "watchOf s k = Some w"
  shows "inv_held (endWatch e k w s)"
proof (rule held_intro [OF assms(1)])
  fix k' u assume u: "watchOf (endWatch e k w s) k' = Some u"
  then have "k' \<noteq> k" by (auto simp: endWatch_simps(1))
  with u have "map_option core (watchOf s k') = Some (core u)"
    using endWatch_simps(2) [of k' k e w s] by simp
  then show "ow_waiters u \<noteq> [] \<and> (\<exists>v. watchOf s k' = Some v \<and> set (ow_waiters u) \<subseteq> set (ow_waiters v))"
    using assms(1) by (auto simp: core_def inv_held_def)
next
  fix k' v j
  assume v: "watchOf s k' = Some v" "j \<in> set (ow_waiters v)" "j < length (ss_waiters s)"
    "\<not> pw_woken (ss_waiters (endWatch e k w s) ! j)"
  then have "j \<notin> set (ow_waiters w)" by (simp add: endWatch_simps woken_wakeAll)
  then have "k' \<noteq> k" using v(1,2) w by auto
  then have "map_option core (watchOf (endWatch e k w s) k') = Some (core v)"
    using endWatch_simps(2) [of k' k e w s] v(1) by simp
  then show "\<exists>w'. watchOf (endWatch e k w s) k' = Some w' \<and> j \<in> set (ow_waiters w')"
    using v(2) by (auto simp: core_def)
qed (simp_all add: endWatch_simps woken_wakeAll)

text \<open>The account, who holds the waiters and the timers' watches, kept together by the helpers.\<close>

definition inv_wait :: "suspendSignal \<Rightarrow> bool" where
  "inv_wait s \<longleftrightarrow> inv_account s \<and> inv_held s"

lemma wait_same:
  assumes "inv_wait s" and "sameWatches t s" and "ss_waiters t = ss_waiters s" and "ss_parked t = ss_parked s"
    and "rest t = rest s"
  shows "inv_wait t"
  using assms held_same [of s t] account_cong [of s t] rest_eqD(17,18) [OF assms(5)] by (simp add: inv_wait_def)

lemma account_rest_wake:
  assumes "inv_account s" and "\<forall>i \<in> set is. i < length (ss_waiters s)" and "ss_waiters u = ss_waiters (wakeAll e is s)"
    and "ss_parked u = ss_parked (wakeAll e is s)" and "ss_parkers u = ss_parkers s"
  shows "inv_account u"
  by (rule account_cong [OF account_wakeAll [OF assms(1,2), of e]])
     (simp_all add: assms rest_eqD [OF rest_wakeAll])

lemma parked_endWatch: "ss_parked (endWatch e k w s) = ss_parked (wakeAll e (ow_waiters w) s)"
  by (simp add: endWatch_def wakeAll_stopTimer)

lemma wait_endWatch:
  assumes "inv_wait s" and "watchOf s k = Some w"
  shows "inv_wait (endWatch e k w s)"
proof -
  have "\<forall>i \<in> set (ow_waiters w). i < length (ss_waiters s)"
    using assms unfolding inv_wait_def inv_held_def by blast
  then show ?thesis
    using assms held_endWatch account_rest_wake [of s "ow_waiters w" "endWatch e k w s" e]
    by (simp add: inv_wait_def endWatch_simps parked_endWatch)
qed

lemma wait_touch: "inv_wait s \<Longrightarrow> inv_wait (touch s)"
  by (erule wait_same) (simp_all add: frame)

lemma wait_matchRecord: "inv_wait s \<Longrightarrow> inv_wait (matchRecord now op s)"
proof (cases "watchOf s (op_id op)")
  case (Some w)
  assume s: "inv_wait s"
  let ?t = "setWatch (op_id op) (w \<lparr> ow_status := op_status op \<rparr>) s"
  have "sameWatches ?t s" by (rule sameWatches_setWatch [OF Some]) (simp add: core_def)
  then have "inv_wait (armFirstPollLocked (op_id op) (Some op) now ?t)"
    by (intro wait_same [OF s]) (auto intro: sameWatches_trans [OF sameWatches_armFirstPoll] simp: frame)
  then show ?thesis
    using s by (simp add: matchRecord_def Some wait_endWatch wait_touch)
qed (simp add: matchRecord_def)

lemma wait_fireWatch: "inv_wait s \<Longrightarrow> inv_wait (fireWatch k s)"
  by (simp add: fireWatch_def wait_endWatch split: option.split)

lemma wait_fold: "(\<And>x s. inv_wait s \<Longrightarrow> inv_wait (f x s)) \<Longrightarrow> inv_wait s \<Longrightarrow> inv_wait (fold f xs s)"
  by (induction xs arbitrary: s) simp_all

lemma wait_wakeAbandoned1:
  assumes s: "inv_wait s"
  shows "inv_wait (wakeAbandoned1 k s)"
proof (cases "watchOf s k")
  case (Some w)
  let ?e = "Some (sentinelErr errSuspendExecution)"
  define gone where "gone = filter (\<lambda>i. abandoned s (pw_abandon (ss_waiters s ! i))) (ow_waiters w)"
  define kept where "kept = filter (\<lambda>i. \<not> abandoned s (pw_abandon (ss_waiters s ! i))) (ow_waiters w)"
  define t where "t = setWatch k (w \<lparr> ow_waiters := kept \<rparr>) (wakeAll ?e gone s)"
  define u where "u = (if kept = [] then deleteWatch k (stopTimerLocked k t) else t)"
  have u: "wakeAbandoned1 k s = u"
    by (simp only: wakeAbandoned1_def Some option.case Let_def u_def t_def gone_def kept_def)
  have split: "set (ow_waiters w) = set gone \<union> set kept" by (auto simp: gone_def kept_def)
  have range: "\<forall>i \<in> set gone. i < length (ss_waiters s)"
    using s Some split unfolding inv_wait_def inv_held_def by blast
  have fields: "ss_waiters u = ss_waiters (wakeAll ?e gone s)" "ss_parked u = ss_parked (wakeAll ?e gone s)"
    "ss_cells u = ss_cells s" "ss_parkers u = ss_parkers s"
    by (simp_all add: u_def t_def rest_eqD [OF rest_wakeAll] rest_eqD [OF rest_deleteWatch]
        rest_eqD [OF rest_stopTimer] rest_eqD [OF rest_setWatch])
  have other: "map_option core (watchOf u k') = map_option core (watchOf s k')" if "k' \<noteq> k" for k'
  proof -
    have "map_option core (watchOf (stopTimerLocked k t) k') = map_option core (watchOf t k')"
      using sameWatches_stopTimer unfolding sameWatches_def by blast
    then show ?thesis using that by (simp add: u_def) (simp add: t_def)
  qed
  have at: "watchOf u k = (if kept = [] then None else Some (w \<lparr> ow_waiters := kept \<rparr>))"
    by (simp add: u_def t_def Some)
  have "inv_held u"
  proof (rule held_intro)
    show "inv_held s" using s by (simp add: inv_wait_def)
  next
    fix k' v assume v: "watchOf u k' = Some v"
    show "ow_waiters v \<noteq> [] \<and> (\<exists>v'. watchOf s k' = Some v' \<and> set (ow_waiters v) \<subseteq> set (ow_waiters v'))"
    proof (cases "k' = k")
      case True
      then show ?thesis using v at split by (auto simp: Some split: if_splits)
    next
      case False
      then have "map_option core (watchOf s k') = Some (core v)" using other [of k'] v by (metis option.map(2))
      then show ?thesis using s by (auto simp: core_def inv_wait_def inv_held_def)
    qed
  next
    fix k' v j
    assume v: "watchOf s k' = Some v" "j \<in> set (ow_waiters v)" "j < length (ss_waiters s)"
      "\<not> pw_woken (ss_waiters u ! j)"
    then have j: "j \<notin> set gone" by (simp add: fields woken_wakeAll)
    show "\<exists>w'. watchOf u k' = Some w' \<and> j \<in> set (ow_waiters w')"
    proof (cases "k' = k")
      case True
      then have "j \<in> set kept" using v Some j split by auto
      then show ?thesis using at True by auto
    next
      case False
      then have "map_option core (watchOf u k') = Some (core v)" using other [of k'] v(1) by simp
      then show ?thesis using v(2) by (auto simp: core_def)
    qed
  qed (simp_all add: fields woken_wakeAll)
  moreover have "inv_account u"
    using account_rest_wake [of s gone u ?e] s range fields by (simp add: inv_wait_def)
  ultimately show ?thesis by (simp add: u inv_wait_def)
qed (simp add: wakeAbandoned1_def s)

lemma wait_fields [simp]:
  "inv_wait (enterCheck s) = inv_wait s" "inv_wait (s \<lparr> ss_polling := ps \<rparr>) = inv_wait s"
  "inv_wait (s \<lparr> ss_pollsEnded := b \<rparr>) = inv_wait s" "inv_wait (s \<lparr> ss_started := ps \<rparr>) = inv_wait s"
  "inv_wait (s \<lparr> ss_unmatched := o' \<rparr>) = inv_wait s" "inv_wait (s \<lparr> ss_fires := n \<rparr>) = inv_wait s"
  "inv_wait (s \<lparr> ss_draining := fs \<rparr>) = inv_wait s" "inv_wait (s \<lparr> ss_pollsStopped := b \<rparr>) = inv_wait s"
  by (simp_all add: inv_wait_def inv_account_def inv_held_def enterCheck_def)

text \<open>The settlement of a future wakes exactly the goroutines parked on it.\<close>

lemma wait_settleLocked:
  assumes s: "inv_wait s" and range: "\<forall>i \<in> set (fc_waiters (ss_cells s ! f)). i < length (ss_waiters s)"
    and f: "f < length (ss_cells s)"
  shows "inv_wait (settleLocked err f s)"
proof (cases "fc_outcome (ss_cells s ! f)")
  case None
  let ?ws = "fc_waiters (ss_cells s ! f)" and ?t = "settleLocked err f s"
  have t: "?t = (wakeAll None ?ws s) \<lparr> ss_cells := (ss_cells s)[f := (ss_cells s ! f) \<lparr> fc_outcome := Some err, fc_waiters := [] \<rparr>] \<rparr>"
    by (simp add: settleLocked_def Let_def None)
  have "inv_held ?t"
  proof (rule held_intro)
    fix k v j assume "watchOf s k = Some v" "j \<in> set (ow_waiters v)"
    then show "\<exists>w. watchOf ?t k = Some w \<and> j \<in> set (ow_waiters w)" by simp
  next
    fix f' j
    assume "f' < length (ss_cells s)" "j \<in> set (fc_waiters (ss_cells s ! f'))" "j < length (ss_waiters s)"
      "\<not> pw_woken (ss_waiters ?t ! j)"
    then show "j \<in> set (fc_waiters (ss_cells ?t ! f'))"
      by (cases "f' = f") (auto simp: t woken_wakeAll nth_list_update f)
  qed (use s in \<open>auto simp: t woken_wakeAll inv_wait_def inv_held_def\<close>)
  moreover have "inv_account ?t"
    using account_wakeAll [of s ?ws None] s range by (simp add: t inv_wait_def inv_account_def rest_eqD [OF rest_wakeAll])
  ultimately show ?thesis by (simp add: inv_wait_def)
qed (simp add: settleLocked_def Let_def s)

lemma wait_park:
  assumes s: "inv_wait s" and t: "t = snd (parkOnOperation wid ab d gated ready endTime op now s)"
  shows "inv_wait t"
proof -
  define p where "p = parkedState wid ab (d \<or> gated \<noteq> None) gated s"
  define q where "q = watchedState wid ready endTime op now p"
  have p: "ss_watches p = ss_watches s" by (simp add: p_def)
  obtain v where v: "watchOf q wid = Some v" "watchOf s wid = None \<Longrightarrow> ow_waiters v = []"
    "\<And>u. watchOf s wid = Some u \<Longrightarrow> v = u"
    by (rule watchedState_watch [of wid ready endTime op now p]) (auto simp: p q_def)
  let ?n = "length (ss_waiters s)"
  have tq: "t = enterCheck (addWatchWaiter wid ?n q)"
    by (simp add: t parkOnOperation_eq q_def p_def)
  have at: "watchOf t wid = Some (v \<lparr> ow_waiters := ow_waiters v @ [?n] \<rparr>)"
    by (simp add: tq enterCheck_def addWatchWaiter_simps(1) [OF v(1)])
  have other: "map_option core (watchOf t k) = map_option core (watchOf s k)" if "k \<noteq> wid" for k
    using watchedState_others [OF that, of ready endTime op now p, folded q_def] that
    by (simp add: tq enterCheck_def addWatchWaiter_simps(1) [OF v(1)] p)
  have old: "j < ?n" if "watchOf s k = Some w" "j \<in> set (ow_waiters w)" for k w j
    using s that unfolding inv_wait_def inv_held_def by blast
  have watch: "ow_waiters w \<noteq> [] \<and> (\<forall>i \<in> set (ow_waiters w). i < Suc ?n)" if w: "watchOf t k = Some w" for k w
  proof (cases "k = wid")
    case True
    have "i < ?n" if "i \<in> set (ow_waiters v)" for i
      using v(2,3) old that by (cases "watchOf s wid") auto
    then show ?thesis using w at True by (auto simp: less_SucI)
  next
    case False
    then obtain u where "watchOf s k = Some u" "ow_waiters u = ow_waiters w"
      using other [of k] w by (cases "watchOf s k") (auto simp: core_def)
    then show ?thesis using s old by (fastforce simp: inv_wait_def inv_held_def)
  qed
  have "inv_held t"
    unfolding inv_held_def
  proof (intro conjI allI impI)
    fix k w assume "watchOf t k = Some w"
    then show "ow_waiters w \<noteq> []" "\<forall>i \<in> set (ow_waiters w). i < length (ss_waiters t)"
      using watch by (auto simp: park_frame [OF t])
  next
    fix i assume i: "i < length (ss_waiters t)" "\<not> pw_woken (ss_waiters t ! i)"
    show "(\<exists>k w. watchOf t k = Some w \<and> i \<in> set (ow_waiters w)) \<or>
        (\<exists>f < length (ss_cells t). i \<in> set (fc_waiters (ss_cells t ! f)))"
    proof (cases "i = ?n")
      case True
      have "i \<in> set (ow_waiters (v \<lparr> ow_waiters := ow_waiters v @ [?n] \<rparr>))" by (simp add: True)
      then show ?thesis using at by blast
    next
      case False
      then have "i < ?n" "\<not> pw_woken (ss_waiters s ! i)" using i by (auto simp: park_frame [OF t] nth_append)
      then consider k w where "watchOf s k = Some w" "i \<in> set (ow_waiters w)"
        | f where "f < length (ss_cells s)" "i \<in> set (fc_waiters (ss_cells s ! f))"
        using s unfolding inv_wait_def inv_held_def by blast
      then show ?thesis
      proof cases
        case (1 k w)
        show ?thesis
        proof (cases "k = wid")
          case True
          then have "i \<in> set (ow_waiters (v \<lparr> ow_waiters := ow_waiters v @ [?n] \<rparr>))" using 1 v(3) by auto
          then show ?thesis using at by blast
        next
          case False
          then obtain z where "watchOf t k = Some z" "i \<in> set (ow_waiters z)"
            using other [of k] 1 by (auto simp: core_def)
          then show ?thesis by blast
        qed
      qed (auto simp: park_frame [OF t])
    qed
  qed
  moreover have "inv_account t"
    using s by (auto simp: inv_wait_def inv_account_def park_frame [OF t] nth_append)
  ultimately show ?thesis by (simp add: inv_wait_def)
qed

lemma wait_keep:
  assumes "inv_wait s" and "ss_watches t = ss_watches s" and "ss_waiters t = ss_waiters s"
    and "ss_parked t = ss_parked s" and "ss_parkers t = ss_parkers s" and "ss_cells t = ss_cells s"
  shows "inv_wait t"
  using assms by (simp add: inv_wait_def inv_account_def inv_held_def)

lemma detach_fold:
  fixes ws :: "parkWaiter list"
  defines "att \<equiv> \<lambda>i ws. ws[i := (ws ! i) \<lparr> pw_detached := False \<rparr>]"
  shows "length (fold att is ws) = length ws"
    "map pw_parked (fold att is ws) = map pw_parked ws" "map pw_woken (fold att is ws) = map pw_woken ws"
proof -
  have "map f (att i ws) = map f ws" if "\<And>w :: parkWaiter. f (w \<lparr> pw_detached := False \<rparr>) = f w"
    for f :: "parkWaiter \<Rightarrow> bool" and i ws
    unfolding att_def
    by (cases "i < length ws") (simp_all add: map_update that list_update_same_conv [THEN iffD2] list_update_beyond)
  then show "map pw_parked (fold att is ws) = map pw_parked ws" "map pw_woken (fold att is ws) = map pw_woken ws"
    by (induction "is" arbitrary: ws) simp_all
  show "length (fold att is ws) = length ws"
    by (induction "is" arbitrary: ws) (simp_all add: att_def)
qed

lemma wait_markAwaited: "inv_wait s \<Longrightarrow> inv_wait (markAwaited g s)"
proof -
  assume s: "inv_wait s"
  have p: "parkedWaiters (fold (\<lambda>i ws. ws[i := (ws ! i) \<lparr> pw_detached := False \<rparr>]) is ws) = parkedWaiters ws" for "is" ws
    using arg_cong [OF detach_fold(2), of "\<lambda>bs. \<Sum>b\<leftarrow>bs. of_bool b"] by (simp add: parkedWaiters_def comp_def)
  have nth: "pw_parked (fold (\<lambda>i ws. ws[i := (ws ! i) \<lparr> pw_detached := False \<rparr>]) is ws ! j) = pw_parked (ws ! j)"
    "pw_woken (fold (\<lambda>i ws. ws[i := (ws ! i) \<lparr> pw_detached := False \<rparr>]) is ws ! j) = pw_woken (ws ! j)"
    if "j < length ws" for j "is" and ws :: "parkWaiter list"
    using that arg_cong [OF detach_fold(2) [of "is" ws], of "\<lambda>bs. bs ! j"]
      arg_cong [OF detach_fold(3) [of "is" ws], of "\<lambda>bs. bs ! j"]
    by (simp_all add: detach_fold(1))
  show ?thesis
    using s by (simp add: markAwaited_def Let_def touch_def inv_wait_def inv_account_def inv_held_def p detach_fold nth)
qed

lemma wait_parkers:
  assumes "inv_wait s" and "p < length (ss_parkers s)"
  shows "inv_wait (parker_park p s)" "inv_wait (parker_unpark d p s)"
  using assms by (auto simp: parker_park_def parker_unpark_def Let_def touch_def enterCheck_def inv_wait_def
      inv_account_def inv_held_def)

text \<open>Several futures: the waiter sits in each of them.\<close>

definition addTo :: "nat \<Rightarrow> nat list \<Rightarrow> futureCell list \<Rightarrow> futureCell list" where
  "addTo i fs cs = fold (\<lambda>f cs. cs[f := (cs ! f) \<lparr> fc_waiters := fc_waiters (cs ! f) @ [i] \<rparr>]) fs cs"

lemma addTo_simps [simp]:
  "length (addTo i fs cs) = length cs"
  "f < length cs \<Longrightarrow> fc_outcome (addTo i fs cs ! f) = fc_outcome (cs ! f)"
  "f < length cs \<Longrightarrow> fc_registered (addTo i fs cs ! f) = fc_registered (cs ! f)"
  "f < length cs \<Longrightarrow> set (fc_waiters (addTo i fs cs ! f)) = set (fc_waiters (cs ! f)) \<union> (if f \<in> set fs then {i} else {})"
proof -
  have step: "addTo i (f # fs) cs = addTo i fs (cs[f := (cs ! f) \<lparr> fc_waiters := fc_waiters (cs ! f) @ [i] \<rparr>])" for f fs cs
    by (simp add: addTo_def)
  show l: "length (addTo i fs cs) = length cs" for cs
    by (induction fs arbitrary: cs) (simp_all add: step, simp add: addTo_def)
  have frame: "f < length cs \<Longrightarrow> g (addTo i fs cs ! f) = g (cs ! f)"
    if g: "\<And>c is. g (c \<lparr> fc_waiters := is \<rparr>) = g c" for g :: "futureCell \<Rightarrow> 'b"
  proof (induction fs arbitrary: cs)
    case (Cons a fs)
    have "g (cs[a := (cs ! a) \<lparr> fc_waiters := fc_waiters (cs ! a) @ [i] \<rparr>] ! f) = g (cs ! f)"
      using Cons.prems g by (cases "a = f") simp_all
    then show ?case using Cons.IH [of "cs[a := (cs ! a) \<lparr> fc_waiters := fc_waiters (cs ! a) @ [i] \<rparr>]"] Cons.prems
      by (simp add: step)
  qed (simp add: addTo_def)
  show "f < length cs \<Longrightarrow> fc_outcome (addTo i fs cs ! f) = fc_outcome (cs ! f)"
    "f < length cs \<Longrightarrow> fc_registered (addTo i fs cs ! f) = fc_registered (cs ! f)"
    by (rule frame; simp)+
  show "f < length cs \<Longrightarrow> set (fc_waiters (addTo i fs cs ! f)) = set (fc_waiters (cs ! f)) \<union> (if f \<in> set fs then {i} else {})"
  proof (induction fs arbitrary: cs)
    case (Cons a fs)
    have "set (fc_waiters (cs[a := (cs ! a) \<lparr> fc_waiters := fc_waiters (cs ! a) @ [i] \<rparr>] ! f)) =
        set (fc_waiters (cs ! f)) \<union> (if f = a then {i} else {})"
      using Cons.prems by (cases "a = f") simp_all
    then show ?case using Cons.IH [of "cs[a := (cs ! a) \<lparr> fc_waiters := fc_waiters (cs ! a) @ [i] \<rparr>]"] Cons.prems
      by (auto simp: step)
  qed (simp add: addTo_def)
qed

lemma addTo_waiters_empty: "f < length cs \<Longrightarrow> f \<notin> set fs \<Longrightarrow> fc_waiters (addTo i fs cs ! f) = fc_waiters (cs ! f)"
  unfolding addTo_def by (induction fs arbitrary: cs) (auto simp: nth_list_update)

lemma awaitAnySettled_cases:
  assumes "awaitAnySettled fs s = (r, t)"
  obtains "t = s"
  | "r = Some (length (ss_waiters s))" "fs \<noteq> []" "\<forall>f \<in> set fs. \<not> isDone s f"
    "t = enterCheck (s \<lparr> ss_waiters := ss_waiters s @
         [\<lparr> pw_woken = False, pw_parked = True, pw_err = None, pw_abandon = None, pw_detached = False \<rparr>],
       ss_parked := ss_parked s + 1, ss_gen := ss_gen s + 1,
       ss_cells := addTo (length (ss_waiters s)) fs (ss_cells s) \<rparr>)"
proof (cases "fs = [] \<or> list_ex (isDone s) fs")
  case True
  then show thesis using assms by (intro that(1)) (simp add: awaitAnySettled_def)
next
  case False
  then show thesis using assms
    by (intro that(2)) (auto simp: awaitAnySettled_def newWaiterLocked_def addCellWaiters_frame addTo_def list_ex_iff)
qed

lemma wait_awaitAny:
  assumes s: "inv_wait s" and fs: "list_all (\<lambda>f. f < length (ss_cells s)) fs"
    and t: "awaitAnySettled fs s = (r, t)"
  shows "inv_wait t"
  using t
proof (rule awaitAnySettled_cases)
  let ?n = "length (ss_waiters s)"
  assume ne: "fs \<noteq> []" and t': "t = enterCheck (s \<lparr> ss_waiters := ss_waiters s @
      [\<lparr> pw_woken = False, pw_parked = True, pw_err = None, pw_abandon = None, pw_detached = False \<rparr>],
      ss_parked := ss_parked s + 1, ss_gen := ss_gen s + 1, ss_cells := addTo ?n fs (ss_cells s) \<rparr>)"
  have fields: "ss_waiters t = ss_waiters s @
      [\<lparr> pw_woken = False, pw_parked = True, pw_err = None, pw_abandon = None, pw_detached = False \<rparr>]"
    "ss_cells t = addTo ?n fs (ss_cells s)" "ss_watches t = ss_watches s" "ss_parked t = ss_parked s + 1"
    "ss_parkers t = ss_parkers s"
    by (simp_all add: t' enterCheck_def)
  obtain f fs' where f: "fs = f # fs'" "f < length (ss_cells s)"
    using ne fs by (cases fs) auto
  have "inv_held t"
    unfolding inv_held_def
  proof (intro conjI allI impI)
    fix k w assume "watchOf t k = Some w"
    then show "ow_waiters w \<noteq> []" "\<forall>i \<in> set (ow_waiters w). i < length (ss_waiters t)"
      using s unfolding inv_wait_def inv_held_def by (auto simp: fields less_SucI)
  next
    fix i assume i: "i < length (ss_waiters t)" "\<not> pw_woken (ss_waiters t ! i)"
    show "(\<exists>k w. watchOf t k = Some w \<and> i \<in> set (ow_waiters w)) \<or>
        (\<exists>f < length (ss_cells t). i \<in> set (fc_waiters (ss_cells t ! f)))"
    proof (cases "i = ?n")
      case True
      have "i \<in> set (fc_waiters (addTo ?n fs (ss_cells s) ! f))" using True f by simp
      then show ?thesis using f(2) by (auto simp: fields)
    next
      case False
      then have "i < ?n" "\<not> pw_woken (ss_waiters s ! i)" using i by (auto simp: fields nth_append)
      then consider k w where "watchOf s k = Some w" "i \<in> set (ow_waiters w)"
        | f where "f < length (ss_cells s)" "i \<in> set (fc_waiters (ss_cells s ! f))"
        using s unfolding inv_wait_def inv_held_def by blast
      then show ?thesis
      proof cases
        case (2 f)
        then have "i \<in> set (fc_waiters (addTo ?n fs (ss_cells s) ! f))" by simp
        then show ?thesis using 2 by (auto simp: fields)
      qed (auto simp: fields)
    qed
  qed
  moreover have "inv_account t"
    using s by (auto simp: inv_wait_def inv_account_def fields nth_append)
  ultimately show ?thesis by (simp add: inv_wait_def)
qed (use s in simp)

definition removeFrom :: "nat \<Rightarrow> nat list \<Rightarrow> futureCell list \<Rightarrow> futureCell list" where
  "removeFrom i fs cs = fold (\<lambda>f cs. cs[f := (cs ! f) \<lparr> fc_waiters := remove1 i (fc_waiters (cs ! f)) \<rparr>]) fs cs"

lemma leaveFutures_eq: "leaveFutures i fs s = s \<lparr> ss_cells := removeFrom i fs (ss_cells s) \<rparr>"
  by (simp add: leaveFutures_def removeFrom_def)

lemma removeFrom_simps [simp]:
  "length (removeFrom i fs cs) = length cs"
  "f < length cs \<Longrightarrow> fc_outcome (removeFrom i fs cs ! f) = fc_outcome (cs ! f)"
  "f < length cs \<Longrightarrow> fc_registered (removeFrom i fs cs ! f) = fc_registered (cs ! f)"
  "f < length cs \<Longrightarrow> set (fc_waiters (removeFrom i fs cs ! f)) \<subseteq> set (fc_waiters (cs ! f))"
  "f < length cs \<Longrightarrow> j \<noteq> i \<Longrightarrow> j \<in> set (fc_waiters (cs ! f)) \<Longrightarrow> j \<in> set (fc_waiters (removeFrom i fs cs ! f))"
proof -
  let ?c = "\<lambda>a cs. cs[a := (cs ! a) \<lparr> fc_waiters := remove1 i (fc_waiters (cs ! a)) \<rparr>]"
  have step: "removeFrom i (a # fs) cs = removeFrom i fs (?c a cs)" for a fs cs
    by (simp add: removeFrom_def)
  have frame: "f < length cs \<Longrightarrow> g (removeFrom i fs cs ! f) = g (cs ! f)"
    if g: "\<And>c is. g (c \<lparr> fc_waiters := is \<rparr>) = g c" for g :: "futureCell \<Rightarrow> 'b"
  proof (induction fs arbitrary: cs)
    case (Cons a fs)
    have "g (?c a cs ! f) = g (cs ! f)" using Cons.prems g by (cases "a = f") simp_all
    then show ?case using Cons.IH [of "?c a cs"] Cons.prems by (simp add: step)
  qed (simp add: removeFrom_def)
  show "length (removeFrom i fs cs) = length cs"
    by (induction fs arbitrary: cs) (simp_all add: step, simp add: removeFrom_def)
  show "f < length cs \<Longrightarrow> fc_outcome (removeFrom i fs cs ! f) = fc_outcome (cs ! f)"
    "f < length cs \<Longrightarrow> fc_registered (removeFrom i fs cs ! f) = fc_registered (cs ! f)"
    by (rule frame; simp)+
  have sub: "set (fc_waiters (?c a cs ! f)) \<subseteq> set (fc_waiters (cs ! f))" if "f < length cs" for a cs
    using that set_remove1_subset by (cases "a = f") fastforce+
  show "f < length cs \<Longrightarrow> set (fc_waiters (removeFrom i fs cs ! f)) \<subseteq> set (fc_waiters (cs ! f))"
  proof (induction fs arbitrary: cs)
    case (Cons a fs)
    then show ?case using subset_trans [OF Cons.IH [of "?c a cs"] sub [of cs a]] by (simp add: step)
  qed (simp add: removeFrom_def)
  show "f < length cs \<Longrightarrow> j \<noteq> i \<Longrightarrow> j \<in> set (fc_waiters (cs ! f)) \<Longrightarrow> j \<in> set (fc_waiters (removeFrom i fs cs ! f))"
  proof (induction fs arbitrary: cs)
    case (Cons a fs)
    have "j \<in> set (fc_waiters (?c a cs ! f))"
      using Cons.prems by (cases "a = f") simp_all
    then show ?case using Cons.IH [of "?c a cs"] Cons.prems by (simp add: step)
  qed (simp add: removeFrom_def)
qed

lemma wait_leaveFutures:
  assumes s: "inv_wait s" and i: "pw_woken (ss_waiters s ! i)"
  shows "inv_wait (leaveFutures i fs s)"
proof -
  have "inv_held (leaveFutures i fs s)"
  proof (rule held_intro)
    show "inv_held s" using s by (simp add: inv_wait_def)
    fix f j assume "f < length (ss_cells s)" "j \<in> set (fc_waiters (ss_cells s ! f))" "j < length (ss_waiters s)"
      "\<not> pw_woken (ss_waiters (leaveFutures i fs s) ! j)"
    then show "j \<in> set (fc_waiters (ss_cells (leaveFutures i fs s) ! f))"
      using i by (cases "j = i") (simp_all add: leaveFutures_eq)
  qed (use s in \<open>auto simp: leaveFutures_eq inv_wait_def inv_held_def\<close>)
  then show ?thesis using s by (simp add: inv_wait_def inv_account_def leaveFutures_eq)
qed

lemma wait_newFuture: "inv_wait s \<Longrightarrow> inv_wait (snd (newFuture s))"
  by (auto simp: newFuture_def inv_wait_def inv_account_def inv_held_def nth_append dest: less_SucI)

lemma wait_register:
  assumes s: "inv_wait s" and c: "inv_cells s" and f: "f < length (ss_cells s)"
  shows "inv_wait (registerFuture f s)"
proof -
  let ?t = "s \<lparr> ss_cells := (ss_cells s)[f := (ss_cells s ! f) \<lparr> fc_registered := True \<rparr>] \<rparr>"
  have cell: "fc_waiters (ss_cells ?t ! g) = fc_waiters (ss_cells s ! g)" for g
    using f by (cases "f = g") simp_all
  have t: "inv_wait ?t"
    using s cell by (simp add: inv_wait_def inv_account_def inv_held_def)
  have "inv_wait (settleLocked e f ?t)" for e
    by (rule wait_settleLocked [OF t]) (use c f in \<open>auto simp: inv_cells_def Let_def\<close>)
  moreover have "inv_wait (?t \<lparr> ss_futures := ss_futures s @ [f] \<rparr>)"
    using t by (simp add: inv_wait_def inv_account_def inv_held_def)
  ultimately show ?thesis by (simp add: registerFuture_def Let_def)
qed

lemma held_parkers: "inv_held (s \<lparr> ss_parkers := ks \<rparr>) = inv_held s"
  by (simp add: inv_held_def)

lemma wait_step:
  assumes "ss_step a s = Some s'" and s: "inv_wait s" and c: "inv_cells s"
  shows "inv_wait s'"
proof (cases a)
  case (SAwait wid ab det gate ready endTime now)
  show ?thesis
    by (rule await_step_cases [OF assms(1) [unfolded SAwait]]) (use s wait_park in auto)
next
  case (SMatch now)
  then show ?thesis
    using assms by (auto simp: ss_step_def onStateMerged_def wait_matchRecord intro!: wait_fold split: option.splits)
next
  case SWakeAbandoned
  then show ?thesis
    using assms by (auto simp: ss_step_def wakeAbandoned_def wait_wakeAbandoned1 intro!: wait_fold)
next
  case SFire
  have "inv_wait (fire_begin t)" if "inv_wait t" for t
    using that by (auto simp: fire_begin_def Let_def intro!: wait_fold wait_fireWatch intro: wait_keep)
  then show ?thesis
    using assms SFire by (auto simp: ss_step_def maybeSuspend_fire_def split: if_splits)
next
  case SDrain
  then show ?thesis
    using assms by (auto simp: ss_step_def fire_drain_def inv_cells_def Let_def intro!: wait_settleLocked
        intro: wait_keep split: list.splits if_splits)
next
  case (SSettle f err)
  then show ?thesis
    using assms by (auto simp: ss_step_def inv_cells_def Let_def intro!: wait_settleLocked split: if_splits)
next
  case (SRegisterFuture f)
  then show ?thesis
    using assms wait_register [OF s c] by (auto simp: ss_step_def split: if_splits)
next
  case SNewFuture
  then show ?thesis using assms(1) wait_newFuture [OF s] by (auto simp: ss_step_def)
next
  case (SAwaitFutures fs)
  then have "list_all (\<lambda>f. f < length (ss_cells s)) fs" "awaitAnySettled fs s = (fst (awaitAnySettled fs s), s')"
    using assms(1) by (auto simp: ss_step_def list_all_iff split: if_splits)
  then show ?thesis by (rule wait_awaitAny [OF s])
next
  case (SLeaveFutures i fs)
  then show ?thesis using assms wait_leaveFutures [OF s] by (auto simp: ss_step_def split: if_splits)
next
  case (SMarkAwaited g)
  then show ?thesis using assms wait_markAwaited [OF s] by (auto simp: ss_step_def split: if_splits)
next
  case (SPark p)
  then show ?thesis using assms wait_parkers(1) [OF s] by (auto simp: ss_step_def split: if_splits)
next
  case (SSignal p)
  then show ?thesis using assms wait_parkers(2) [OF s] by (auto simp: ss_step_def parker_signal_def split: if_splits)
next
  case (SReceived p)
  then show ?thesis using assms wait_parkers(2) [OF s] by (auto simp: ss_step_def parker_received_def split: if_splits)
next
  case SNewParker
  then show ?thesis
    using assms by (auto simp: ss_step_def inv_wait_def inv_account_def held_parkers)
next
  case (SPollBegin now)
  have "inv_wait (setWatch (pr_wire p) (w \<lparr> ow_timer := False \<rparr>) (s \<lparr> ss_started := ps \<rparr>))"
    if "currentWatch s p = Some w" for p w ps
  proof (rule wait_same)
    have "watchOf (s \<lparr> ss_started := ps \<rparr>) (pr_wire p) = Some w" using currentWatch_Some [OF that] by simp
    then show "sameWatches (setWatch (pr_wire p) (w \<lparr> ow_timer := False \<rparr>) (s \<lparr> ss_started := ps \<rparr>)) (s \<lparr> ss_started := ps \<rparr>)"
      by (rule sameWatches_setWatch) (simp add: core_def)
  qed (simp_all add: s frame)
  then show ?thesis
    using assms SPollBegin by (auto simp: ss_step_def pollWatch_begin_def Let_def split: list.splits option.splits if_splits)
next
  case (SPollEnd err now)
  then have "pollWatch_end err now s = Some s'" using assms(1) by (simp add: ss_step_def)
  then show ?thesis
  proof (rule pollEnd_cases)
    fix p ps w
    let ?t = "setWatch (pr_wire p) (w \<lparr> ow_polls := ow_polls w + 1 \<rparr>) (s \<lparr> ss_polling := ps \<rparr>)"
    assume w: "watchOf s (pr_wire p) = Some w"
      and t: "s' = enterCheck (armPollLocked (pr_wire p) (pollSchedule (ow_polls w + 1)) now ?t)"
    have "sameWatches ?t (s \<lparr> ss_polling := ps \<rparr>)"
      by (rule sameWatches_setWatch [of _ _ w]) (use w in \<open>simp_all add: core_def\<close>)
    then have "inv_wait ?t" by (rule wait_same [rotated]) (simp_all add: s frame)
    then have "inv_wait (armPollLocked (pr_wire p) (pollSchedule (ow_polls w + 1)) now ?t)"
      by (rule wait_same) (simp_all add: frame)
    then show ?thesis by (simp add: t)
  qed (simp add: s)
next
  case SStopPolls
  have "inv_wait (stopPolls s)"
    unfolding stopPolls_def by (rule wait_fold) (use s in \<open>auto intro: wait_same simp: frame\<close>)
  then show ?thesis using assms SStopPolls by (simp add: ss_step_def)
qed (use assms(1) in \<open>auto simp: ss_step_def registerBranch_def deregisterBranch_def enterExecuting_def exitExecuting_def
    Let_def abandon_def retireCommitments_def commitPending_def requestQueued_def requestSettled_def contextEnds_def
    maybeSuspend_check_def maybeSuspend_settled_def mergeResponse_def timerFires_def enterCheck_def touch_def
    split: if_splits option.splits list.splits intro!: wait_keep [OF s]\<close>)

section \<open>Futures\<close>

lemma cells_keep:
  assumes "inv_cells s" and "ss_cells t = ss_cells s" and "ss_futures t = ss_futures s" and "ss_draining t = ss_draining s"
    and "length (ss_waiters s) \<le> length (ss_waiters t)"
  shows "inv_cells t"
  using assms(1,5) unfolding inv_cells_def Let_def assms(2-4) by (meson order_less_le_trans)

lemma cells_rest:
  assumes "inv_cells s" and "rest t = rest s" and "length (ss_waiters t) = length (ss_waiters s)"
  shows "inv_cells t"
  using assms by (intro cells_keep [OF assms(1)]) (auto dest: rest_eqD)

lemma length_waiters_helpers [simp]:
  "length (ss_waiters (endWatch e k w s)) = length (ss_waiters s)"
  "length (ss_waiters (matchRecord now op s)) = length (ss_waiters s)"
  "length (ss_waiters (fireWatch k s)) = length (ss_waiters s)"
  "length (ss_waiters (wakeAbandoned1 k s)) = length (ss_waiters s)"
  by (simp_all add: endWatch_simps matchRecord_def fireWatch_def wakeAbandoned1_def Let_def split: option.split)

lemma length_waiters_fold:
  "(\<And>x s. length (ss_waiters (f x s)) = length (ss_waiters s)) \<Longrightarrow>
   length (ss_waiters (fold f xs s)) = length (ss_waiters s)"
  by (induction xs arbitrary: s) simp_all

lemma cells_settleLocked:
  assumes "\<forall>g < length (ss_cells s). let c = ss_cells s ! g in
        (fc_outcome c \<noteq> None \<longrightarrow> fc_waiters c = []) \<and>
        (fc_waiters c \<noteq> [] \<longrightarrow> fc_registered c) \<and>
        (g \<noteq> f \<and> fc_registered c \<and> fc_outcome c = None \<longrightarrow> g \<in> set (ss_futures s) \<union> set (ss_draining s)) \<and>
        (\<forall>i \<in> set (fc_waiters c). i < length (ss_waiters s))"
    and "\<forall>g \<in> set (ss_futures s) \<union> set (ss_draining s). g < length (ss_cells s)"
    and f: "f < length (ss_cells s)"
  shows "inv_cells (settleLocked err f s)"
proof (cases "fc_outcome (ss_cells s ! f)")
  case None
  have "ss_cells (settleLocked err f s) = (ss_cells s)[f := (ss_cells s ! f) \<lparr> fc_outcome := Some err, fc_waiters := [] \<rparr>]"
    by (simp add: settleLocked_def Let_def None)
  note cells = this
  have "let c = ss_cells (settleLocked err f s) ! g in
      (fc_outcome c \<noteq> None \<longrightarrow> fc_waiters c = []) \<and> (fc_waiters c \<noteq> [] \<longrightarrow> fc_registered c) \<and>
      (fc_registered c \<and> fc_outcome c = None \<longrightarrow> g \<in> set (ss_futures s) \<union> set (ss_draining s)) \<and>
      (\<forall>i \<in> set (fc_waiters c). i < length (ss_waiters s))" if "g < length (ss_cells s)" for g
    using assms(1) [rule_format, OF that] that by (cases "g = f") (simp_all add: Let_def cells)
  then show ?thesis
    using assms(2) by (simp add: inv_cells_def)
next
  case (Some e)
  have "settleLocked err f s = s" by (simp add: settleLocked_def Let_def Some)
  moreover have "let c = ss_cells s ! g in
      (fc_outcome c \<noteq> None \<longrightarrow> fc_waiters c = []) \<and> (fc_waiters c \<noteq> [] \<longrightarrow> fc_registered c) \<and>
      (fc_registered c \<and> fc_outcome c = None \<longrightarrow> g \<in> set (ss_futures s) \<union> set (ss_draining s)) \<and>
      (\<forall>i \<in> set (fc_waiters c). i < length (ss_waiters s))" if "g < length (ss_cells s)" for g
    using assms(1) [rule_format, OF that] by (cases "g = f") (simp_all add: Let_def Some)
  ultimately show ?thesis
    using assms(2) by (simp add: inv_cells_def)
qed

lemma cells_step:
  assumes "ss_step a s = Some s'" and s: "inv_cells s" and fi: "inv_firing s"
  shows "inv_cells s'"
proof (cases a)
  case (SAwait wid ab det gate ready endTime now)
  show ?thesis
  proof (rule await_step_cases [OF assms(1) [unfolded SAwait]])
    fix gated
    assume t: "s' = snd (parkOnOperation wid ab det gated ready endTime (getByWireID (ss_state s) wid) now s)"
    show ?thesis by (rule cells_keep [OF s]) (simp_all add: park_frame [OF t])
  qed (use s in simp)
next
  case (SMatch now)
  have "inv_cells (fold (matchRecord now) ops (s \<lparr> ss_unmatched := None \<rparr>))" for ops
    by (rule cells_keep [OF s]) (simp_all add: rest_eqD [OF rest_matchFold] length_waiters_fold)
  then show ?thesis using assms(1) SMatch by (auto simp: ss_step_def onStateMerged_def split: option.splits)
next
  case SWakeAbandoned
  have w: "inv_cells (fold wakeAbandoned1 ks s)" for ks
    by (rule cells_rest [OF s]) (simp_all add: rest_fold frame length_waiters_fold)
  have "inv_cells (enterCheck (fold wakeAbandoned1 ks s))" for ks
    by (rule cells_keep [OF w [of ks]]) (simp_all add: enterCheck_def)
  then show ?thesis using assms(1) SWakeAbandoned by (auto simp: ss_step_def wakeAbandoned_def)
next
  case SFire
  have l: "length (ss_waiters (fire_begin t)) = length (ss_waiters t)" for t
    by (simp add: fire_begin_def Let_def length_waiters_fold)
  have "inv_cells (fire_begin t)" if t: "inv_cells t" "\<not> ss_firing t \<longrightarrow> ss_draining t = []" for t
  proof (cases "ss_firing t")
    case False
    then show ?thesis using t l [of t] by (simp add: inv_cells_def fire_begin_fields)
  qed (simp add: fire_begin_again t)
  moreover have "inv_cells (s \<lparr> ss_fires := ss_fires s - 1 \<rparr>)" by (rule cells_keep [OF s]) simp_all
  ultimately show ?thesis using assms(1) fi SFire by (auto simp: inv_firing_def ss_step_def maybeSuspend_fire_def split: if_splits)
next
  case SDrain
  have "inv_cells (settleLocked e f (s \<lparr> ss_draining := fs \<rparr>))" if "ss_draining s = f # fs" for e f fs
    by (rule cells_settleLocked) (use s that in \<open>auto simp: inv_cells_def Let_def\<close>)
  then show ?thesis
    using assms SDrain by (auto simp: ss_step_def fire_drain_def split: list.splits if_splits intro: cells_keep)
next
  case (SSettle f err)
  have "inv_cells (settleLocked err f s)" if "f < length (ss_cells s)"
    by (rule cells_settleLocked [OF _ _ that]) (use s in \<open>auto simp: inv_cells_def Let_def\<close>)
  then show ?thesis using assms(1) SSettle by (auto simp: ss_step_def split: if_splits)
next
  case (SRegisterFuture f)
  let ?t = "s \<lparr> ss_cells := (ss_cells s)[f := (ss_cells s ! f) \<lparr> fc_registered := True \<rparr>] \<rparr>"
  have "inv_cells (settleLocked e f ?t)" if "f < length (ss_cells s)" for e
  proof (rule cells_settleLocked, intro allI impI)
    fix g assume "g < length (ss_cells ?t)"
    then have g: "g < length (ss_cells s)" by simp
    show "let c = ss_cells ?t ! g in
        (fc_outcome c \<noteq> None \<longrightarrow> fc_waiters c = []) \<and> (fc_waiters c \<noteq> [] \<longrightarrow> fc_registered c) \<and>
        (g \<noteq> f \<and> fc_registered c \<and> fc_outcome c = None \<longrightarrow> g \<in> set (ss_futures ?t) \<union> set (ss_draining ?t)) \<and>
        (\<forall>i \<in> set (fc_waiters c). i < length (ss_waiters ?t))"
      using s [unfolded inv_cells_def, THEN conjunct1, rule_format, OF g] that by (cases "g = f") (simp_all add: Let_def)
  qed (use s that in \<open>simp_all add: inv_cells_def\<close>)
  moreover have "inv_cells (?t \<lparr> ss_futures := ss_futures s @ [f] \<rparr>)" if f: "f < length (ss_cells s)"
  proof -
    have "let c = ss_cells ?t ! g in
        (fc_outcome c \<noteq> None \<longrightarrow> fc_waiters c = []) \<and> (fc_waiters c \<noteq> [] \<longrightarrow> fc_registered c) \<and>
        (fc_registered c \<and> fc_outcome c = None \<longrightarrow> g \<in> set (ss_futures s @ [f]) \<union> set (ss_draining s)) \<and>
        (\<forall>i \<in> set (fc_waiters c). i < length (ss_waiters s))" if "g < length (ss_cells s)" for g
      using s [unfolded inv_cells_def, THEN conjunct1, rule_format, OF that] f by (cases "g = f") (simp_all add: Let_def)
    then show ?thesis using s f by (simp add: inv_cells_def)
  qed
  ultimately show ?thesis
    using assms(1) SRegisterFuture by (auto simp: ss_step_def registerFuture_def Let_def split: if_splits)
next
  case SNewFuture
  let ?t = "snd (newFuture s)"
  have "let c = ss_cells ?t ! g in
      (fc_outcome c \<noteq> None \<longrightarrow> fc_waiters c = []) \<and> (fc_waiters c \<noteq> [] \<longrightarrow> fc_registered c) \<and>
      (fc_registered c \<and> fc_outcome c = None \<longrightarrow> g \<in> set (ss_futures s) \<union> set (ss_draining s)) \<and>
      (\<forall>i \<in> set (fc_waiters c). i < length (ss_waiters s))" if "g < Suc (length (ss_cells s))" for g
  proof (cases "g < length (ss_cells s)")
    case True
    show ?thesis using s [unfolded inv_cells_def, THEN conjunct1, rule_format, OF True] True
      by (simp add: newFuture_def nth_append)
  qed (use that in \<open>simp add: newFuture_def nth_append less_Suc_eq\<close>)
  moreover have "\<forall>f \<in> set (ss_futures s) \<union> set (ss_draining s). f < Suc (length (ss_cells s))"
    using s [unfolded inv_cells_def, THEN conjunct2] less_SucI by blast
  ultimately have "inv_cells ?t" by (simp add: inv_cells_def newFuture_def)
  then show ?thesis using assms(1) SNewFuture by (simp add: ss_step_def)
next
  case (SAwaitFutures fs)
  then have g: "list_all (\<lambda>f. f < length (ss_cells s) \<and> (fc_registered (ss_cells s ! f) \<or> isDone s f)) fs"
      and t: "awaitAnySettled fs s = (fst (awaitAnySettled fs s), s')"
    using assms(1) by (auto simp: ss_step_def split: if_splits)
  from t show ?thesis
  proof (rule awaitAnySettled_cases)
    let ?n = "length (ss_waiters s)"
    assume nd: "\<forall>f \<in> set fs. \<not> isDone s f" and t': "s' = enterCheck (s \<lparr> ss_waiters := ss_waiters s @
      [\<lparr> pw_woken = False, pw_parked = True, pw_err = None, pw_abandon = None, pw_detached = False \<rparr>],
      ss_parked := ss_parked s + 1, ss_gen := ss_gen s + 1, ss_cells := addTo ?n fs (ss_cells s) \<rparr>)"
    have fields: "ss_cells s' = addTo ?n fs (ss_cells s)" "ss_futures s' = ss_futures s" "ss_draining s' = ss_draining s"
      "length (ss_waiters s') = Suc ?n"
      by (simp_all add: t' enterCheck_def)
    have cell: "(fc_outcome (addTo ?n fs (ss_cells s) ! f) \<noteq> None \<longrightarrow> fc_waiters (addTo ?n fs (ss_cells s) ! f) = []) \<and>
        (fc_waiters (addTo ?n fs (ss_cells s) ! f) \<noteq> [] \<longrightarrow> fc_registered (addTo ?n fs (ss_cells s) ! f))"
      if f: "f < length (ss_cells s)" for f
    proof (cases "f \<in> set fs")
      case True
      then show ?thesis using f g nd by (auto simp: isDone_def list_all_iff)
    next
      case False
      then show ?thesis using f s by (auto simp: inv_cells_def Let_def addTo_waiters_empty)
    qed
    have "let c = addTo ?n fs (ss_cells s) ! f in
        (fc_outcome c \<noteq> None \<longrightarrow> fc_waiters c = []) \<and> (fc_waiters c \<noteq> [] \<longrightarrow> fc_registered c) \<and>
        (fc_registered c \<and> fc_outcome c = None \<longrightarrow> f \<in> set (ss_futures s) \<union> set (ss_draining s)) \<and>
        (\<forall>i \<in> set (fc_waiters c). i < Suc ?n)" if f: "f < length (ss_cells s)" for f
      using s [unfolded inv_cells_def, THEN conjunct1, rule_format, OF f] cell [OF f] f
      by (simp add: Let_def less_SucI)
    then show ?thesis
      using s [unfolded inv_cells_def, THEN conjunct2] by (simp add: inv_cells_def fields)
  qed (use s in simp)
next
  case (SLeaveFutures i fs)
  let ?cs = "removeFrom i fs (ss_cells s)"
  have "let c = ?cs ! f in
      (fc_outcome c \<noteq> None \<longrightarrow> fc_waiters c = []) \<and> (fc_waiters c \<noteq> [] \<longrightarrow> fc_registered c) \<and>
      (fc_registered c \<and> fc_outcome c = None \<longrightarrow> f \<in> set (ss_futures s) \<union> set (ss_draining s)) \<and>
      (\<forall>i \<in> set (fc_waiters c). i < length (ss_waiters s))" if f: "f < length (ss_cells s)" for f
  proof -
    define c where "c = ss_cells s ! f"
    define d where "d = ?cs ! f"
    have d: "fc_outcome d = fc_outcome c" "fc_registered d = fc_registered c" "set (fc_waiters d) \<subseteq> set (fc_waiters c)"
      using f by (simp_all add: c_def d_def)
    then have "fc_waiters c = [] \<Longrightarrow> fc_waiters d = []" by simp
    then show ?thesis
      using s [unfolded inv_cells_def, THEN conjunct1, rule_format, OF f] d
      unfolding Let_def c_def [symmetric] d_def [symmetric] by (metis subsetD)
  qed
  then have "inv_cells (leaveFutures i fs s)"
    using s [unfolded inv_cells_def, THEN conjunct2] by (simp add: inv_cells_def leaveFutures_eq)
  then show ?thesis using assms(1) SLeaveFutures by (auto simp: ss_step_def split: if_splits)
next
  case (SPollEnd err now)
  then have "pollWatch_end err now s = Some s'" using assms(1) by (simp add: ss_step_def)
  then show ?thesis
    by (rule pollEnd_cases) (auto simp: enterCheck_def setWatch_def rest_eqD [OF rest_armPoll] intro!: cells_keep [OF s])
next
  case SStopPolls
  have "length (ss_waiters (stopPolls s)) = length (ss_waiters s)"
    by (simp add: stopPolls_def length_waiters_fold)
  then show ?thesis
    using assms SStopPolls by (auto simp: ss_step_def rest_eqD [OF stopPolls_frame] intro!: cells_keep [OF s])
qed (use assms(1) in \<open>auto simp: ss_step_def registerBranch_def deregisterBranch_def enterExecuting_def exitExecuting_def
    Let_def abandon_def retireCommitments_def commitPending_def requestQueued_def requestSettled_def contextEnds_def
    maybeSuspend_check_def maybeSuspend_settled_def mergeResponse_def timerFires_def enterCheck_def touch_def
    markAwaited_def parker_park_def parker_signal_def parker_received_def parker_unpark_def pollWatch_begin_def setWatch_def
    detach_fold
    split: if_splits option.splits list.splits intro!: cells_keep [OF s]\<close>)

end
