(* ===== verification/Suspend_Polls.thy ===== *)
theory Suspend_Polls
  imports Suspend_Held
begin

text \<open>
  The polls of the suspension signal: until polling ends, every operation a
  goroutine waits for has a poll scheduled, started or in flight.  With it the
  invariant of the signal is complete.
\<close>

section \<open>Watched operations are polled\<close>

abbreviation runs :: "suspendSignal \<Rightarrow> pollRun set" where
  "runs s \<equiv> set (ss_timers s) \<union> set (ss_started s) \<union> set (ss_polling s)"

definition uids_ok :: "suspendSignal \<Rightarrow> bool" where
  "uids_ok s \<longleftrightarrow>
     (\<forall>k w k' w'. watchOf s k = Some w \<and> watchOf s k' = Some w' \<and> ow_uid w = ow_uid w' \<longrightarrow> k = k') \<and>
     (\<forall>k w. watchOf s k = Some w \<longrightarrow> ow_uid w < ss_nextWatch s)"

definition polling_on :: "suspendSignal \<Rightarrow> bool" where
  "polling_on s \<longleftrightarrow> \<not> ss_pollsStopped s \<and> \<not> ss_pollsEnded s"

lemma inv_polled_alt:
  "inv_polled s \<longleftrightarrow> (polling_on s \<longrightarrow> (\<forall>k w. watchOf s k = Some w \<longrightarrow> polled s k w)) \<and> uids_ok s"
  by (simp add: inv_polled_def polling_on_def uids_ok_def)

text \<open>
  An operation on the watch of one operation: the other watches stay, and a
  poll that disappears belonged to it.
\<close>

definition onlyAt :: "string \<Rightarrow> suspendSignal \<Rightarrow> suspendSignal \<Rightarrow> bool" where
  "onlyAt k t s \<longleftrightarrow>
     (\<forall>k'. k' \<noteq> k \<longrightarrow> watchOf t k' = watchOf s k') \<and>
     (\<forall>w. watchOf t k = Some w \<longrightarrow> (\<exists>v. watchOf s k = Some v \<and> ow_uid w = ow_uid v)) \<and>
     (\<forall>p \<in> runs s. p \<in> runs t \<or> (\<exists>v. watchOf s k = Some v \<and> pr_uid p = ow_uid v)) \<and>
     (polling_on t \<longrightarrow> polling_on s) \<and> ss_nextWatch t = ss_nextWatch s"

lemma onlyAt_refl [simp]: "onlyAt k s s"
  by (simp add: onlyAt_def)

lemma onlyAt_trans:
  assumes "onlyAt k t s" and "onlyAt k u t"
  shows "onlyAt k u s"
proof -
  have "\<exists>v. watchOf s k = Some v \<and> ow_uid w = ow_uid v" if "watchOf u k = Some w" for w
    using assms that unfolding onlyAt_def by metis
  moreover have "p \<in> runs u \<or> (\<exists>v. watchOf s k = Some v \<and> pr_uid p = ow_uid v)" if "p \<in> runs s" for p
  proof (cases "p \<in> runs t")
    case True
    then have "p \<in> runs u \<or> (\<exists>v. watchOf t k = Some v \<and> pr_uid p = ow_uid v)"
      using assms(2) unfolding onlyAt_def by blast
    then show ?thesis using assms(1) unfolding onlyAt_def by metis
  next
    case False
    then show ?thesis using assms(1) that unfolding onlyAt_def by blast
  qed
  ultimately show ?thesis using assms unfolding onlyAt_def by auto
qed

definition polled_except :: "string \<Rightarrow> suspendSignal \<Rightarrow> bool" where
  "polled_except k s \<longleftrightarrow>
     (polling_on s \<longrightarrow> (\<forall>k' w. k' \<noteq> k \<and> watchOf s k' = Some w \<longrightarrow> polled s k' w)) \<and> uids_ok s"

lemma polled_exceptI: "inv_polled s \<Longrightarrow> polled_except k s"
  by (simp add: inv_polled_alt polled_except_def)

lemma polled_onlyAt:
  assumes "polled_except k s" and o: "onlyAt k t s"
    and "\<And>w. polling_on t \<Longrightarrow> watchOf t k = Some w \<Longrightarrow> polled t k w"
  shows "inv_polled t"
proof -
  have u: "uids_ok s" using assms(1) by (simp add: polled_except_def)
  have prev: "\<exists>v. watchOf s k' = Some v \<and> ow_uid w = ow_uid v" if "watchOf t k' = Some w" for k' w
    using o that unfolding onlyAt_def by (cases "k' = k") auto
  have "uids_ok t"
    using u prev o unfolding uids_ok_def onlyAt_def by metis
  moreover have "polled t k' w" if p: "polling_on t" and w: "watchOf t k' = Some w" for k' w
  proof (cases "k' = k")
    case False
    then have w': "watchOf s k' = Some w" using o w unfolding onlyAt_def by metis
    have "polling_on s" using o p unfolding onlyAt_def by blast
    then have "polled s k' w" using assms(1) w' False by (simp add: polled_except_def)
    then obtain r where r: "r \<in> runs s" "pr_wire r = k'" "timerOf w r" by (auto simp: polled_def)
    have "r \<in> runs t"
    proof (rule ccontr)
      assume "r \<notin> runs t"
      then obtain v where "watchOf s k = Some v" "pr_uid r = ow_uid v"
        using o r(1) unfolding onlyAt_def by blast
      then have "k = k'" using u w' r(3) unfolding uids_ok_def timerOf_def by metis
      then show False using False by simp
    qed
    then show ?thesis using r by (auto simp: polled_def)
  qed (use assms(3) p w in auto)
  ultimately show ?thesis by (simp add: inv_polled_alt)
qed

lemma onlyAt_setWatch: "watchOf s k = Some v \<Longrightarrow> ow_uid w = ow_uid v \<Longrightarrow> onlyAt k (setWatch k w s) s"
  by (auto simp: onlyAt_def polling_on_def rest_eqD [OF rest_setWatch]) (simp_all add: setWatch_def)

lemma onlyAt_deleteWatch: "onlyAt k (deleteWatch k s) s"
  by (auto simp: onlyAt_def polling_on_def rest_eqD [OF rest_deleteWatch]) (simp_all add: deleteWatch_def)

lemma pollsEnded_wake [simp]: "ss_pollsEnded (wakeAll e is s) = ss_pollsEnded s"
proof (induction "is" arbitrary: s)
  case (Cons i "is")
  have "ss_pollsEnded (wakeLocked e i s) = ss_pollsEnded s" by (simp add: wakeLocked_def Let_def)
  then show ?case using Cons by simp
qed simp

lemma onlyAt_wakeAll: "onlyAt k (wakeAll e is s) s"
  by (auto simp: onlyAt_def polling_on_def rest_eqD [OF rest_wakeAll])

lemma onlyAt_stopTimer: "onlyAt k (stopTimerLocked k s) s"
proof (cases "watchOf s k")
  case (Some w)
  let ?u = "if ow_timer w then s \<lparr> ss_timers := filter (\<lambda>t. \<not> timerOf w t) (ss_timers s) \<rparr> else s"
  have u: "onlyAt k ?u s" by (auto simp: onlyAt_def polling_on_def Some timerOf_def)
  have "onlyAt k (setWatch k (w \<lparr> ow_timer := False, ow_epoch := ow_epoch w + 1 \<rparr>) ?u) ?u"
    by (rule onlyAt_setWatch [of _ _ w]) (simp_all add: Some)
  from onlyAt_trans [OF u this] show ?thesis by (simp add: stopTimerLocked_def Some)
qed (simp add: stopTimerLocked_def)

lemma onlyAt_armPoll: "onlyAt k (armPollLocked k d now s) s"
proof -
  let ?u = "stopTimerLocked k s"
  have "onlyAt k (?u \<lparr> ss_pollsEnded := True \<rparr>) ?u" by (simp add: onlyAt_def polling_on_def)
  moreover have "onlyAt k ((setWatch k (w \<lparr> ow_timer := True \<rparr>) ?u) \<lparr> ss_timers := ss_timers ?u @ ps \<rparr>) ?u"
    if w: "watchOf ?u k = Some w" for w ps
  proof (rule onlyAt_trans [OF onlyAt_setWatch [OF w, of "w \<lparr> ow_timer := True \<rparr>"]])
    show "onlyAt k ((setWatch k (w \<lparr> ow_timer := True \<rparr>) ?u) \<lparr> ss_timers := ss_timers ?u @ ps \<rparr>)
        (setWatch k (w \<lparr> ow_timer := True \<rparr>) ?u)"
      unfolding onlyAt_def polling_on_def by (auto simp: w)
  qed simp
  ultimately have "onlyAt k (armPollLocked k d now s) ?u"
    by (simp add: armPollLocked_def Let_def split: option.split)
  then show ?thesis by (rule onlyAt_trans [OF onlyAt_stopTimer])
qed

lemma armPoll_polled:
  assumes "polling_on (armPollLocked k d now s)" and "watchOf (armPollLocked k d now s) k = Some w"
  shows "polled (armPollLocked k d now s) k w"
  using assms
  by (auto simp: armPollLocked_def Let_def polling_on_def polled_def timerOf_def rest_eqD [OF rest_setWatch]
      split: if_splits option.splits)

lemma armFirstPoll_eq:
  "watchOf s k = Some w \<Longrightarrow> \<exists>d. armFirstPollLocked k op now s = armPollLocked k d now s"
  by (auto simp: armFirstPollLocked_def)

lemma onlyAt_endWatch: "onlyAt k (endWatch e k w s) s"
  unfolding endWatch_def
  by (rule onlyAt_trans [OF onlyAt_trans [OF onlyAt_stopTimer onlyAt_wakeAll] onlyAt_deleteWatch])

lemma polled_endWatch: "inv_polled s \<Longrightarrow> inv_polled (endWatch e k w s)"
  by (rule polled_onlyAt [OF polled_exceptI onlyAt_endWatch]) (simp_all add: endWatch_def)

lemma polled_keep:
  assumes "inv_polled s" and "ss_watches t = ss_watches s" and "runs s \<subseteq> runs t" and "ss_nextWatch t = ss_nextWatch s"
    and "polling_on t \<Longrightarrow> polling_on s"
  shows "inv_polled t"
  using assms unfolding inv_polled_alt polled_def uids_ok_def by (auto simp: subset_iff) blast

lemma polled_fields [simp]: "inv_polled (touch s) = inv_polled s" "inv_polled (enterCheck s) = inv_polled s"
  by (simp_all add: inv_polled_def polled_def touch_def enterCheck_def)

lemma onlyAt_armFirstPoll: "onlyAt k (armFirstPollLocked k op now s) s"
  by (simp add: armFirstPollLocked_def onlyAt_armPoll split: option.split)

lemma armFirstPoll_polled:
  assumes "polling_on (armFirstPollLocked k op now s)" and "watchOf (armFirstPollLocked k op now s) k = Some w"
  shows "polled (armFirstPollLocked k op now s) k w"
proof (cases "watchOf s k")
  case None
  then show ?thesis using assms(2) by (simp add: armFirstPollLocked_def)
next
  case (Some v)
  then obtain d where "armFirstPollLocked k op now s = armPollLocked k d now s" using armFirstPoll_eq by blast
  then show ?thesis using armPoll_polled assms by simp
qed

lemma polled_matchRecord:
  assumes "inv_polled s"
  shows "inv_polled (matchRecord now op s)"
proof (cases "watchOf s (op_id op)")
  case (Some w)
  have "onlyAt (op_id op) (armFirstPollLocked (op_id op) (Some op) now
      (setWatch (op_id op) (w \<lparr> ow_status := op_status op \<rparr>) s)) s"
    by (rule onlyAt_trans [OF onlyAt_setWatch [OF Some] onlyAt_armFirstPoll]) simp
  then have "inv_polled (armFirstPollLocked (op_id op) (Some op) now
      (setWatch (op_id op) (w \<lparr> ow_status := op_status op \<rparr>) s))"
    by (rule polled_onlyAt [OF polled_exceptI [OF assms]]) (rule armFirstPoll_polled)
  then show ?thesis using assms by (simp add: matchRecord_def Some polled_endWatch)
qed (simp add: matchRecord_def assms)

lemma polled_fold: "(\<And>x s. inv_polled s \<Longrightarrow> inv_polled (f x s)) \<Longrightarrow> inv_polled s \<Longrightarrow> inv_polled (fold f xs s)"
  by (induction xs arbitrary: s) simp_all

lemma polled_wakeAbandoned1:
  assumes "inv_polled s"
  shows "inv_polled (wakeAbandoned1 k s)"
proof (cases "watchOf s k")
  case (Some w)
  let ?e = "Some (sentinelErr errSuspendExecution)"
  define gone where "gone = filter (\<lambda>i. abandoned s (pw_abandon (ss_waiters s ! i))) (ow_waiters w)"
  define kept where "kept = filter (\<lambda>i. \<not> abandoned s (pw_abandon (ss_waiters s ! i))) (ow_waiters w)"
  define t where "t = setWatch k (w \<lparr> ow_waiters := kept \<rparr>) (wakeAll ?e gone s)"
  have u: "wakeAbandoned1 k s = (if kept = [] then deleteWatch k (stopTimerLocked k t) else t)"
    by (simp only: wakeAbandoned1_def Some option.case Let_def t_def gone_def kept_def)
  have w: "watchOf (wakeAll ?e gone s) k = Some w" by (simp add: Some)
  have o: "onlyAt k t s"
    unfolding t_def by (rule onlyAt_trans [OF onlyAt_wakeAll onlyAt_setWatch [OF w]]) simp
  have "polled t k v" if p: "polling_on t" and v: "watchOf t k = Some v" for v
  proof -
    have "polling_on s" using o p unfolding onlyAt_def by blast
    then have "polled s k w" using assms Some by (simp add: inv_polled_alt)
    moreover have "v = w \<lparr> ow_waiters := kept \<rparr>" using v by (simp add: t_def Some)
    ultimately show ?thesis by (simp add: t_def polled_def timerOf_def rest_eqD [OF rest_setWatch] rest_eqD [OF rest_wakeAll])
  qed
  then have t: "inv_polled t" by (rule polled_onlyAt [OF polled_exceptI [OF assms] o])
  have "inv_polled (deleteWatch k (stopTimerLocked k t))"
    by (rule polled_onlyAt [OF polled_exceptI [OF t] onlyAt_trans [OF onlyAt_stopTimer onlyAt_deleteWatch]]) simp
  then show ?thesis using t by (simp add: u)
qed (simp add: wakeAbandoned1_def assms)

text \<open>Once polling is off, only the identities of the watches matter.\<close>

lemma polled_off:
  assumes "inv_polled s" and "\<not> polling_on s" and "onlyAt k t s"
  shows "inv_polled t \<and> \<not> polling_on t"
proof -
  have "\<not> polling_on t" using assms(2,3) unfolding onlyAt_def by blast
  then show ?thesis using polled_onlyAt [OF polled_exceptI [OF assms(1)] assms(3)] by blast
qed

lemma polled_off_fold:
  "(\<And>k s. onlyAt k (f k s) s) \<Longrightarrow> inv_polled s \<Longrightarrow> \<not> polling_on s \<Longrightarrow> inv_polled (fold f ks s)"
proof (induction ks arbitrary: s)
  case (Cons k ks)
  then show ?case using polled_off [OF Cons.prems(2,3) Cons.prems(1)] by simp
qed simp

lemma polled_park:
  assumes s: "inv_polled s" and t: "t = snd (parkOnOperation wid ab d gated ready endTime op now s)"
  shows "inv_polled t"
proof -
  define p where "p = parkedState wid ab (d \<or> gated \<noteq> None) gated s"
  have pr: "ss_started p = ss_started s" "ss_polling p = ss_polling s" "ss_pollsEnded p = ss_pollsEnded s"
    by (simp_all add: p_def parkedState_def addGateWaiter_def newWaiterLocked_def split: option.split)
  have p: "inv_polled p"
    by (rule polled_keep [OF s]) (auto simp: pr polling_on_def, simp_all add: p_def)
  define q where "q = watchedState wid ready endTime op now p"
  have q: "inv_polled q"
  proof (cases "watchOf p wid")
    case (Some w)
    then show ?thesis using p by (simp add: q_def watchedState_def)
  next
    case None
    let ?a = "addWatch wid ready endTime op p"
    have other: "watchOf ?a k = watchOf p k" if "k \<noteq> wid" for k using that by (simp split: option.split)
    have new: "ow_uid w = ss_nextWatch p" if "watchOf ?a wid = Some w" for w using that None by auto
    have runs: "runs ?a = runs p" "polling_on ?a = polling_on p" "ss_nextWatch ?a = Suc (ss_nextWatch p)"
      by (simp_all add: addWatch_def polling_on_def)
    have u: "uids_ok p" using p by (simp add: inv_polled_alt)
    have ua: "uids_ok ?a"
      unfolding uids_ok_def
    proof (intro conjI allI impI)
      fix k w assume "watchOf ?a k = Some w"
      then show "ow_uid w < ss_nextWatch ?a"
        using u other [of k] new [of w] by (cases "k = wid") (auto simp: runs uids_ok_def less_SucI)
    next
      fix k w k' w'
      assume "watchOf ?a k = Some w \<and> watchOf ?a k' = Some w' \<and> ow_uid w = ow_uid w'"
      then have w: "watchOf ?a k = Some w" "watchOf ?a k' = Some w'" "ow_uid w = ow_uid w'" by simp_all
      have lt: "ow_uid v < ss_nextWatch p" if "watchOf ?a j = Some v" "j \<noteq> wid" for j v
        using u that other [of j] by (simp add: uids_ok_def)
      show "k = k'"
      proof (cases "k = wid \<or> k' = wid")
        case True
        then show ?thesis using w new lt by (metis less_irrefl)
      next
        case False
        then show ?thesis using w u other [of k] other [of k'] unfolding uids_ok_def by metis
      qed
    qed
    have "polled ?a k w" if "polling_on ?a" "k \<noteq> wid" "watchOf ?a k = Some w" for k w
    proof -
      have "polled p k w" using p that other [of k] by (simp add: inv_polled_alt runs)
      then show ?thesis unfolding polled_def runs(1) .
    qed
    then have "polled_except wid ?a" using ua by (simp add: polled_except_def)
    then have "inv_polled (armFirstPollLocked wid op now ?a)"
      by (rule polled_onlyAt [OF _ onlyAt_armFirstPoll]) (rule armFirstPoll_polled)
    then show ?thesis by (simp add: q_def watchedState_def None)
  qed
  obtain v where v: "watchOf q wid = Some v"
    by (rule watchedState_watch [of wid ready endTime op now p]) (simp add: q_def)
  let ?w = "v \<lparr> ow_waiters := ow_waiters v @ [length (ss_waiters s)] \<rparr>"
  have w: "addWatchWaiter wid (length (ss_waiters s)) q = setWatch wid ?w q"
    by (simp add: addWatchWaiter_def v)
  have "inv_polled (setWatch wid ?w q)"
  proof (rule polled_onlyAt [OF polled_exceptI [OF q] onlyAt_setWatch [OF v]])
    fix u assume "polling_on (setWatch wid ?w q)" "watchOf (setWatch wid ?w q) wid = Some u"
    then have "u = ?w" "polling_on q" using v by (simp_all add: polling_on_def rest_eqD [OF rest_setWatch]) (simp add: setWatch_def)
    moreover have "polled q wid v" using q v calculation(2) by (simp add: inv_polled_alt)
    ultimately show "polled (setWatch wid ?w q) wid u"
      by (simp add: polled_def timerOf_def rest_eqD [OF rest_setWatch])
  qed simp
  then have "inv_polled (enterCheck (addWatchWaiter wid (length (ss_waiters s)) q))" by (simp only: w polled_fields)
  then show ?thesis by (simp only: t parkOnOperation_eq q_def p_def snd_conv)
qed

lemma current_watch: "watchOf s (pr_wire p) = Some w \<Longrightarrow> timerOf w p \<Longrightarrow> currentWatch s p = Some w"
  by (simp add: currentWatch_def timerOf_def)

lemma uids_cong: "ss_watches t = ss_watches s \<Longrightarrow> ss_nextWatch t = ss_nextWatch s \<Longrightarrow> uids_ok t = uids_ok s"
  by (simp add: uids_ok_def)

text \<open>A poll that is not current is no watch's only one.\<close>

lemma polled_drop_stale:
  assumes s: "inv_polled s" and c: "currentWatch s p = None" and r: "runs s \<subseteq> insert p (runs t)"
    and w: "ss_watches t = ss_watches s" and n: "ss_nextWatch t = ss_nextWatch s" and o: "polling_on t \<Longrightarrow> polling_on s"
  shows "inv_polled t"
proof -
  have "polled t k w" if "polling_on t" "watchOf t k = Some w" for k w
  proof -
    have k: "watchOf s k = Some w" using that(2) assms(4) by simp
    then have "polled s k w" using s o that(1) by (simp add: inv_polled_alt)
    then obtain r' where r': "r' \<in> runs s" "pr_wire r' = k" "timerOf w r'" by (auto simp: polled_def)
    then have "r' \<noteq> p" using c k current_watch by fastforce
    then have "r' \<in> runs t" using r r'(1) by blast
    then show ?thesis using r' by (auto simp: polled_def)
  qed
  then show ?thesis using s uids_cong [OF w n] by (simp add: inv_polled_alt)
qed

lemma uids_replace:
  assumes s: "uids_ok s" and w: "watchOf s k = Some w" and u: "ow_uid w' = ow_uid w"
    and t: "\<And>j. watchOf t j = (if j = k then Some w' else watchOf s j)" and n: "ss_nextWatch t = ss_nextWatch s"
  shows "uids_ok t"
proof -
  have uid: "\<exists>v'. watchOf s j = Some v' \<and> ow_uid v = ow_uid v'" if "watchOf t j = Some v" for j v
    using that w u by (auto simp: t split: if_splits)
  show ?thesis
    using s uid n unfolding uids_ok_def by metis
qed

lemma polled_pollBegin:
  assumes t: "pollWatch_begin now s = Some t" and s: "inv_polled s"
  shows "inv_polled t"
proof -
  obtain p ps where st: "ss_started s = p # ps"
    using t by (auto simp: pollWatch_begin_def split: list.splits)
  let ?s = "s \<lparr> ss_started := ps \<rparr>"
  show ?thesis
  proof (cases "ss_pollsStopped s \<or> currentWatch s p = None")
    case True
    then have "t = ?s" using t st by (auto simp: pollWatch_begin_def Let_def)
    moreover have "inv_polled ?s"
    proof (cases "currentWatch s p")
      case None
      then show ?thesis by (rule polled_drop_stale [OF s]) (auto simp: st polling_on_def)
    next
      case (Some w)
      then have "ss_pollsStopped s" using True by simp
      then show ?thesis using s uids_cong [of ?s s] by (simp add: inv_polled_alt polling_on_def)
    qed
    ultimately show ?thesis by simp
  next
    case False
    then obtain w where w: "currentWatch s p = Some w" by auto
    then have at: "watchOf s (pr_wire p) = Some w" and tm: "timerOf w p"
      by (auto simp: currentWatch_def timerOf_def split: option.splits if_splits)
    let ?u = "setWatch (pr_wire p) (w \<lparr> ow_timer := False \<rparr>) ?s"
    have u: "uids_ok ?u"
      by (rule uids_replace [of s "pr_wire p" w "w \<lparr> ow_timer := False \<rparr>"]) (use s at in \<open>simp_all add: inv_polled_alt rest_eqD [OF rest_setWatch]\<close>)
    consider "t = ?u \<lparr> ss_pollsEnded := True \<rparr>" | "t = ?u \<lparr> ss_polling := ss_polling s @ [p \<lparr> pr_at := now \<rparr>] \<rparr>"
      using t False st w by (auto simp: pollWatch_begin_def Let_def split: if_splits)
    then show ?thesis
    proof cases
      case 1
      then have "uids_ok t" "\<not> polling_on t" using u uids_cong [of t ?u] by (simp_all add: polling_on_def)
      then show ?thesis by (simp add: inv_polled_alt)
    next
      case 2
      have "polled t k v" if on: "polling_on t" and v: "watchOf t k = Some v" for k v
      proof -
        obtain v' where v': "watchOf s k = Some v'" "ow_uid v = ow_uid v'" "ow_epoch v = ow_epoch v'"
          using v at by (cases "k = pr_wire p") (auto simp: 2)
        have "polling_on s" using on by (simp add: 2 polling_on_def rest_eqD [OF rest_setWatch]) (simp add: setWatch_def)
        then obtain r where r: "r \<in> runs s" "pr_wire r = k" "timerOf v r"
          using s v' by (auto simp: inv_polled_alt polled_def timerOf_def)
        define r' where "r' = (if r = p then p \<lparr> pr_at := now \<rparr> else r)"
        have "r' \<in> runs t" "pr_wire r' = k" "timerOf v r'"
          using r by (auto simp: r'_def 2 st timerOf_def rest_eqD [OF rest_setWatch])
        then show ?thesis by (auto simp: polled_def)
      qed
      moreover have "uids_ok t" using u uids_cong [of t ?u] by (simp add: 2)
      ultimately show ?thesis by (simp add: inv_polled_alt)
    qed
  qed
qed

lemma polled_pollEnd:
  assumes t: "pollWatch_end err now s = Some t" and s: "inv_polled s"
  shows "inv_polled t"
  using t
proof (rule pollEnd_cases)
  fix p :: pollRun and ps b
  assume st: "ss_polling s = p # ps" and t': "t = enterCheck (s \<lparr> ss_polling := ps, ss_pollsEnded := b \<rparr>)"
    and b: "b \<or> (currentWatch s p = None \<and> b = ss_pollsEnded s)"
  show ?thesis
  proof (cases b)
    case True
    then have "\<not> polling_on t" "ss_watches t = ss_watches s" "ss_nextWatch t = ss_nextWatch s"
      by (simp_all add: t' polling_on_def enterCheck_def)
    then show ?thesis using s uids_cong [of t s] by (simp add: inv_polled_alt)
  next
    case False
    then show ?thesis using b unfolding t'
      by (simp, intro polled_drop_stale [OF s]) (auto simp: st polling_on_def)
  qed
next
  fix p :: pollRun and ps w
  let ?s = "s \<lparr> ss_polling := ps \<rparr>"
  let ?u = "setWatch (pr_wire p) (w \<lparr> ow_polls := ow_polls w + 1 \<rparr>) ?s"
  assume st: "ss_polling s = p # ps" and w: "watchOf s (pr_wire p) = Some w"
    and t': "t = enterCheck (armPollLocked (pr_wire p) (pollSchedule (ow_polls w + 1)) now ?u)"
  have "polled ?s k v" if "polling_on ?s" "k \<noteq> pr_wire p" "watchOf ?s k = Some v" for k v
  proof -
    have "polled s k v" using that s by (simp add: inv_polled_alt polling_on_def)
    then show ?thesis using that(2) by (auto simp: polled_def st)
  qed
  then have "polled_except (pr_wire p) ?s"
    using s by (auto simp: polled_except_def inv_polled_alt uids_ok_def)
  moreover have "onlyAt (pr_wire p) (armPollLocked (pr_wire p) (pollSchedule (ow_polls w + 1)) now ?u) ?s"
    by (rule onlyAt_trans [OF onlyAt_setWatch [of _ _ w] onlyAt_armPoll]) (simp_all add: w)
  ultimately have "inv_polled (armPollLocked (pr_wire p) (pollSchedule (ow_polls w + 1)) now ?u)"
    by (rule polled_onlyAt) (rule armPoll_polled)
  then show ?thesis by (simp add: t')
qed

lemma settle_runs:
  "ss_started (settleLocked e f s) = ss_started s" "ss_polling (settleLocked e f s) = ss_polling s"
  "ss_pollsEnded (settleLocked e f s) = ss_pollsEnded s"
  by (simp_all add: settleLocked_def Let_def rest_eqD [OF rest_wakeAll])

lemma polled_step:
  assumes "ss_step a s = Some s'" and s: "inv_polled s"
  shows "inv_polled s'"
proof (cases a)
  case (SAwait wid ab det gate ready endTime now)
  show ?thesis
    by (rule await_step_cases [OF assms(1) [unfolded SAwait]]) (use s polled_park in auto)
next
  case (SMatch now)
  have "inv_polled (s \<lparr> ss_unmatched := None \<rparr>)" by (rule polled_keep [OF s]) (auto simp: polling_on_def)
  then show ?thesis
    using assms(1) SMatch by (auto simp: ss_step_def onStateMerged_def polled_matchRecord intro!: polled_fold split: option.splits)
next
  case SWakeAbandoned
  then show ?thesis
    using assms by (auto simp: ss_step_def wakeAbandoned_def polled_wakeAbandoned1 intro!: polled_fold)
next
  case SFire
  have keep: "inv_polled (t \<lparr> ss_firing := True, ss_firedReason := x, ss_draining := y, ss_futures := [], ss_pollsStopped := True \<rparr>)"
    if "inv_polled t" for t x y
    by (rule polled_keep [OF that]) (auto simp: polling_on_def)
  have "inv_polled (fireWatch k t)" if "inv_polled t" for k t
    using that by (simp add: fireWatch_def polled_endWatch split: option.split)
  then have fb: "inv_polled (fire_begin t)" if "inv_polled t" for t
    using that keep by (simp add: fire_begin_def Let_def polled_fold)
  have "inv_polled (s \<lparr> ss_fires := ss_fires s - 1 \<rparr>)" by (rule polled_keep [OF s]) (auto simp: polling_on_def)
  then show ?thesis using assms(1) SFire fb by (auto simp: ss_step_def maybeSuspend_fire_def split: if_splits)
next
  case (SPollBegin now)
  then show ?thesis using assms polled_pollBegin by (simp add: ss_step_def)
next
  case (SPollEnd err now)
  then show ?thesis using assms polled_pollEnd by (simp add: ss_step_def)
next
  case SStopPolls
  have "inv_polled (s \<lparr> ss_pollsStopped := True \<rparr>)" by (rule polled_keep [OF s]) (auto simp: polling_on_def)
  then have "inv_polled (stopPolls s)"
    unfolding stopPolls_def by (rule polled_off_fold [OF onlyAt_stopTimer]) (simp add: polling_on_def)
  then show ?thesis using assms(1) SStopPolls by (simp add: ss_step_def)
next
  case (STimer i now)
  have "set (ss_timers s) = insert (ss_timers s ! i) (set (take i (ss_timers s) @ drop (Suc i) (ss_timers s)))"
    if "i < length (ss_timers s)"
    by (subst id_take_nth_drop [OF that]) auto
  then show ?thesis
    using assms(1) STimer by (auto simp: ss_step_def timerFires_def polling_on_def split: if_splits intro!: polled_keep [OF s])
next
  case (SSettle f err)
  then show ?thesis using assms(1)
    by (auto simp: ss_step_def settle_runs polling_on_def split: if_splits intro!: polled_keep [OF s])
next
  case (SRegisterFuture f)
  then show ?thesis using assms(1)
    by (auto simp: ss_step_def registerFuture_def Let_def settle_runs polling_on_def split: if_splits intro!: polled_keep [OF s])
next
  case SDrain
  then show ?thesis using assms(1)
    by (auto simp: ss_step_def fire_drain_def settle_runs polling_on_def split: list.splits if_splits intro!: polled_keep [OF s])
qed (use assms(1) in \<open>auto simp: ss_step_def registerBranch_def deregisterBranch_def enterExecuting_def exitExecuting_def
    Let_def abandon_def retireCommitments_def commitPending_def requestQueued_def requestSettled_def contextEnds_def
    maybeSuspend_check_def maybeSuspend_settled_def mergeResponse_def enterCheck_def touch_def newFuture_def
    markAwaited_def parker_park_def parker_signal_def parker_received_def parker_unpark_def awaitAnySettled_def
    newWaiterLocked_def addCellWaiters_frame leaveFutures_def polling_on_def
    split: if_splits option.splits list.splits intro!: polled_keep [OF s]\<close>)

section \<open>The invariant\<close>

lemma ss_inv_step: "ss_step a s = Some s' \<Longrightarrow> ss_inv s \<Longrightarrow> ss_inv s'"
  unfolding ss_inv_def
  using wait_step [of a s s'] cells_step [of a s s'] firing_step [of a s s'] settle_step [of a s s']
    missed_step [of a s s'] match_step [of a s s'] polled_step [of a s s']
  by (simp add: inv_wait_def)

interpretation sig: step_system ss_step ss_inv
  by unfold_locales (rule ss_inv_step)

end
