(* ===== verification/Suspend_Properties.thy ===== *)
theory Suspend_Properties
  imports Suspend_Polls
begin

text \<open>
  What the suspension signal promises: a due suspension always comes through
  and releases every goroutine, no goroutine misses the record it waits for,
  retired commitments stay retired, and waiting operations keep being polled.
\<close>

section \<open>Firing\<close>

definition reachable :: "suspendSignal \<Rightarrow> bool" where
  "reachable s \<longleftrightarrow> (\<exists>d st as. ss_run as (newSuspendSignal d st) = Some s)"

lemma reachable_inv: "reachable s \<Longrightarrow> ss_inv s"
  unfolding reachable_def using sig.run_inv ss_inv_new by blast

lemma reachable_run: "reachable s \<Longrightarrow> ss_run as s = Some t \<Longrightarrow> reachable t"
  unfolding reachable_def by (metis option.case(2) run_steps_append)

lemma shouldSuspend_fires [simp]: "shouldSuspendLocked (s \<lparr> ss_fires := n \<rparr>) = shouldSuspendLocked s"
  by (simp add: shouldSuspendLocked_def commitmentLocked_def)

lemma fire_runs: "ss_fires s > 0 \<Longrightarrow> \<exists>t. ss_run [SFire] s = Some t \<and> ss_firing t"
  by (simp add: ss_step_def maybeSuspend_fire_def firing_fire_begin)

lemma run_one: "ss_step a s = Some u \<Longrightarrow> ss_run [a] s = Some u"
  by simp

lemma run_cons: "ss_step a s = Some u \<Longrightarrow> ss_run as u = Some t \<Longrightarrow> ss_run (a # as) s = Some t"
  by simp

lemma observe_runs:
  assumes "shouldSuspendLocked s" and "ss_observers s = [ss_gen s]"
  shows "\<exists>t. ss_run [SObserve, SFire] s = Some t \<and> ss_firing t"
proof -
  let ?u = "s \<lparr> ss_observers := [], ss_settling := False, ss_fires := ss_fires s + 1 \<rparr>"
  have "ss_step SObserve s = Some ?u"
    using assms by (simp add: ss_step_def maybeSuspend_settled_def)
  then show ?thesis using run_cons [of SObserve s ?u "[SFire]"] fire_runs [of ?u] by auto
qed

lemma check_runs:
  assumes "shouldSuspendLocked s" and "\<not> ss_settling s" and "ss_observers s = []" and "ss_checks s > 0"
  shows "\<exists>t. ss_run [SCheck, SObserve, SFire] s = Some t \<and> ss_firing t"
proof -
  let ?u = "s \<lparr> ss_checks := ss_checks s - 1, ss_settling := True, ss_observers := [ss_gen s] \<rparr>"
  have "ss_step SCheck s = Some ?u"
    using assms by (simp add: ss_step_def maybeSuspend_check_def Let_def)
  then show ?thesis
    using run_cons [of SCheck s ?u "[SObserve, SFire]"] observe_runs [of ?u] assms(1) by auto
qed

lemma suspension_fires:
  assumes "ss_inv s" and "shouldSuspendLocked s"
  obtains as t where "set as \<subseteq> {SCheck, SObserve, SFire}" "length as \<le> 4" "ss_run as s = Some t" "ss_firing t"
proof -
  have pend: "ss_settling s \<or> ss_checks s > 0 \<or> ss_fires s > 0"
    and obs: "length (ss_observers s) = (if ss_settling s then 1 else 0)"
    using assms by (simp_all add: ss_inv_def inv_missed_def inv_settle_def)
  show thesis
  proof (cases "ss_fires s > 0")
    case True
    then show thesis using fire_runs [OF True] that [of "[SFire]"] by auto
  next
    case nofire: False
    show thesis
    proof (cases "ss_settling s")
      case True
      then obtain g where g: "ss_observers s = [g]" using obs by (cases "ss_observers s") auto
      show thesis
      proof (cases "g = ss_gen s")
        case True
        then show thesis using observe_runs [of s] assms(2) g that [of "[SObserve, SFire]"] by auto
      next
        case False
        let ?u = "enterCheck (s \<lparr> ss_observers := [], ss_settling := False \<rparr>)"
        have "ss_step SObserve s = Some ?u"
          using False g by (simp add: ss_step_def maybeSuspend_settled_def)
        moreover obtain t where "ss_run [SCheck, SObserve, SFire] ?u = Some t" "ss_firing t"
          using check_runs [of ?u] assms(2) by (auto simp: enterCheck_def)
        ultimately have "ss_run [SObserve, SCheck, SObserve, SFire] s = Some t"
          by (intro run_cons [of SObserve s ?u])
        then show thesis using \<open>ss_firing t\<close> that [of "[SObserve, SCheck, SObserve, SFire]"] by auto
      qed
    next
      case False
      then have "ss_observers s = []" "ss_checks s > 0" using obs pend nofire by auto
      then show thesis using check_runs [of s] assms(2) False that [of "[SCheck, SObserve, SFire]"] by auto
    qed
  qed
qed

text \<open>Draining settles the futures one after another and closes the channel.\<close>

lemma drain_runs:
  assumes "ss_inv s" and "ss_firing s" and "\<not> ss_done s"
  shows "\<exists>t. ss_run (replicate (length (ss_draining s) + 1) SDrain) s = Some t \<and> ss_done t \<and> ss_firing t"
  using assms
proof (induction "ss_draining s" arbitrary: s)
  case Nil
  then have "ss_step SDrain s = Some (s \<lparr> ss_done := True \<rparr>)"
    by (simp add: ss_step_def fire_drain_def)
  then show ?case using Nil by (simp flip: Nil(1))
next
  case (Cons f fs)
  let ?u = "settleLocked (Some (sentinelErr errSuspendExecution)) f (s \<lparr> ss_draining := fs \<rparr>)"
  have u: "ss_step SDrain s = Some ?u"
    by (simp add: ss_step_def fire_drain_def flip: Cons(2))
  have "\<exists>t. ss_run (replicate (length (ss_draining ?u) + 1) SDrain) ?u = Some t \<and> ss_done t \<and> ss_firing t"
    by (rule Cons(1)) (use Cons ss_inv_step [OF u] in simp_all)
  then show ?case using u by (simp flip: Cons(2))
qed

lemma none_counted: "\<forall>x \<in> set xs. \<not> P x \<Longrightarrow> (\<Sum>x\<leftarrow>xs. of_bool (P x)) = (0 :: int)"
  by (induction xs) simp_all

text \<open>Once the channel is closed, nobody is blocked on the signal any more.\<close>

lemma done_all_woken:
  assumes "ss_inv s" and "ss_done s"
  shows "ss_watches s = []" "\<forall>w \<in> set (ss_waiters s). pw_woken w"
    "\<forall>c \<in> set (ss_cells s). fc_registered c \<longrightarrow> fc_outcome c \<noteq> None" "ss_parked s = parkedParkers (ss_parkers s)"
proof -
  have f: "ss_firing s" "ss_draining s = []" "ss_futures s = []"
    using assms by (auto simp: ss_inv_def inv_firing_def split: if_splits)
  show w: "ss_watches s = []" using assms(1) f(1) by (simp add: ss_inv_def inv_firing_def)
  have account: "inv_account s" using assms(1) by (simp add: ss_inv_def)
  have cells: "inv_cells s" using assms(1) by (simp add: ss_inv_def)
  have cell: "(fc_registered c \<longrightarrow> fc_outcome c \<noteq> None) \<and> fc_waiters c = []"
    if c: "c \<in> set (ss_cells s)" for c
  proof -
    obtain g where g: "g < length (ss_cells s)" "c = ss_cells s ! g" using c by (auto simp: in_set_conv_nth)
    have "(fc_outcome c \<noteq> None \<longrightarrow> fc_waiters c = []) \<and> (fc_waiters c \<noteq> [] \<longrightarrow> fc_registered c) \<and>
        (fc_registered c \<and> fc_outcome c = None \<longrightarrow> g \<in> {})"
      using cells [unfolded inv_cells_def, THEN conjunct1, rule_format, OF g(1)] f by (simp add: Let_def g(2))
    then show ?thesis by auto
  qed
  then show "\<forall>c \<in> set (ss_cells s). fc_registered c \<longrightarrow> fc_outcome c \<noteq> None" by blast
  show woken: "\<forall>w \<in> set (ss_waiters s). pw_woken w"
  proof
    fix w assume "w \<in> set (ss_waiters s)"
    then obtain i where i: "i < length (ss_waiters s)" "w = ss_waiters s ! i" by (auto simp: in_set_conv_nth)
    show "pw_woken w"
    proof (rule ccontr)
      assume "\<not> pw_woken w"
      then have "\<exists>g < length (ss_cells s). i \<in> set (fc_waiters (ss_cells s ! g))"
        using assms(1) i w unfolding ss_inv_def inv_held_def by auto
      then obtain g where "g < length (ss_cells s)" "i \<in> set (fc_waiters (ss_cells s ! g))" by blast
      then show False using cell [of "ss_cells s ! g"] by simp
    qed
  qed
  have "\<forall>w \<in> set (ss_waiters s). \<not> pw_parked w"
  proof
    fix w assume "w \<in> set (ss_waiters s)"
    then obtain i where i: "i < length (ss_waiters s)" "w = ss_waiters s ! i" by (auto simp: in_set_conv_nth)
    have "pw_woken w" using woken \<open>w \<in> set (ss_waiters s)\<close> by blast
    then show "\<not> pw_parked w"
      using account [unfolded inv_account_def, THEN conjunct2, rule_format, OF i(1)] i(2) by simp
  qed
  then have "parkedWaiters (ss_waiters s) = 0"
    unfolding parkedWaiters_def by (rule none_counted)
  then show "ss_parked s = parkedParkers (ss_parkers s)"
    using account by (simp add: inv_account_def)
qed


text \<open>A handler goroutine parked on a callback that is not recorded yet.\<close>

definition ex_actions :: "ssAction list" where
  "ex_actions = [SRegister, SAwait ''cb'' None False None terminalRecord (\<lambda>_. None) 0]"

definition ex_parked :: suspendSignal where
  "ex_parked = the (ss_run ex_actions (newSuspendSignal None emptyState))"

lemmas ss_eval = ss_step_def registerBranch_def touch_def awaitOperation_begin_def parkOnOperation_def newWaiterLocked_def
  addGateWaiter_def addWatch_def armFirstPollLocked_def armPollLocked_def stopTimerLocked_def setWatch_def
  addWatchWaiter_def enterCheck_def newSuspendSignal_def abandoned_def getByWireID_def emptyState_def terminalRecord_def
  Let_def

lemma ex_parked_run: "ss_run ex_actions (newSuspendSignal None emptyState) = Some ex_parked"
  by (simp add: ex_parked_def ex_actions_def ss_step_def)

lemma ex_parked_reachable: "reachable ex_parked"
  unfolding reachable_def using ex_parked_run by blast

lemma ex_parked_due: "shouldSuspendLocked ex_parked"
  by (simp add: ex_parked_def ex_actions_def shouldSuspendLocked_def commitmentLocked_def ss_eval)


text \<open>C5: No wakeup is lost.  However merges, matches and goroutines interleave, a record that lets a watched operation's
  waiters resume is in a response the flusher is about to match, with a record of that operation that resumes them; so
  once the response is matched, no goroutine is left waiting for an operation whose record is there.\<close>
theorem no_wakeup_lost:
  assumes "reachable s" and "map_of (ss_watches s) wid = Some w" and "ow_ready w (getByWireID (ss_state s) wid)"
  shows "\<exists>ops op. ss_unmatched s = Some ops \<and> op \<in> set ops \<and> op_id op = wid \<and> ow_ready w (Some op) \<and>
    (\<forall>now. ss_step (SMatch now) s = Some (fold (matchRecord now) ops (s \<lparr> ss_unmatched := None \<rparr>)) \<and>
       (\<forall>v. map_of (ss_watches (fold (matchRecord now) ops (s \<lparr> ss_unmatched := None \<rparr>))) wid = Some v \<longrightarrow>
          \<not> ow_ready v (getByWireID (ss_state s) wid)))"
proof -
  have inv: "ss_inv s" by (rule reachable_inv [OF assms(1)])
  then obtain ops op where op: "ss_unmatched s = Some ops" "op \<in> set ops" "op_id op = wid" "ow_ready w (Some op)"
    using assms(2,3) unfolding ss_inv_def inv_match_def by blast
  have "\<not> ow_ready v (getByWireID (ss_state s) wid)"
    if v: "watchOf (fold (matchRecord now) ops (s \<lparr> ss_unmatched := None \<rparr>)) wid = Some v" for now v
  proof -
    let ?t = "fold (matchRecord now) ops (s \<lparr> ss_unmatched := None \<rparr>)"
    have "ss_step (SMatch now) s = Some ?t" by (simp add: ss_step_def onStateMerged_def op(1))
    then have "inv_match ?t" using ss_inv_step inv by (auto simp: ss_inv_def)
    moreover have "ss_unmatched ?t = None" "ss_state ?t = ss_state s"
      by (simp_all add: rest_eqD [OF rest_matchFold])
    ultimately show ?thesis using v by (auto simp: inv_match_def)
  qed
  then show ?thesis
    using op by (auto simp: ss_step_def onStateMerged_def)
qed

text \<open>The callback completes: its record is merged and not yet matched.\<close>

definition ex_callbackDone :: operation where
  "ex_callbackDone = operationFromAPI
     \<lparr> ao_Id = Some ''cb'', ao_Status = statusSucceeded, ao_Type = OperationTypeCallback, ao_SubType = None,
       ao_Name = None, ao_ParentId = None, ao_StartTimestamp = None, ao_EndTimestamp = None, ao_InputPayload = None,
       ao_StepDetails = None, ao_WaitDetails = None, ao_CallbackDetails = None, ao_ChainedInvokeDetails = None,
       ao_ContextDetails = None \<rparr>"

definition ex_merged :: suspendSignal where
  "ex_merged = the (ss_run [SMerge [ex_callbackDone]] ex_parked)"

lemma ex_merged_facts:
  "reachable ex_merged" "\<exists>w. map_of (ss_watches ex_merged) ''cb'' = Some w \<and> ow_ready w (getByWireID (ss_state ex_merged) ''cb'')"
proof -
  have "ss_run [SMerge [ex_callbackDone]] ex_parked = Some ex_merged"
    by (simp add: ex_merged_def mergeResponse_def ex_parked_def ex_actions_def ss_eval)
  then show "reachable ex_merged" by (rule reachable_run [OF ex_parked_reachable])
  show "\<exists>w. map_of (ss_watches ex_merged) ''cb'' = Some w \<and> ow_ready w (getByWireID (ss_state ex_merged) ''cb'')"
    by (simp add: ex_merged_def mergeResponse_def ex_parked_def ex_actions_def ss_eval es_merge_def es_insert_def
        ex_callbackDone_def operationFromAPI_simps)
qed

theorem no_wakeup_lost_witness:
  "\<exists>w ops. map_of (ss_watches ex_merged) ''cb'' = Some w \<and> ow_ready w (getByWireID (ss_state ex_merged) ''cb'') \<and>
     ss_unmatched ex_merged = Some ops"
  using no_wakeup_lost [OF ex_merged_facts(1)] ex_merged_facts(2) by blast

text \<open>C6: The parked count is exact.  In every reachable state it is the number of goroutines blocked on an operation or a
  future plus the parked channel readers, and every blocked goroutine is held by something that will release it: a watch
  on its operation, or a registered, unsettled future that fire still settles.\<close>
theorem parked_goroutines_are_accounted:
  assumes "reachable s"
  shows "ss_parked s = int (length (filter (\<lambda>w. \<not> pw_woken w) (ss_waiters s))) +
      int (length (filter pk_parked (ss_parkers s))) \<and>
    (\<forall>i < length (ss_waiters s). \<not> pw_woken (ss_waiters s ! i) \<longrightarrow>
       (\<exists>wid w. map_of (ss_watches s) wid = Some w \<and> i \<in> set (ow_waiters w)) \<or>
       (\<exists>f \<in> set (ss_futures s) \<union> set (ss_draining s). i \<in> set (fc_waiters (ss_cells s ! f)) \<and> \<not> isDone s f))"
proof -
  have inv: "inv_account s" "inv_held s" "inv_cells s"
    using reachable_inv [OF assms] by (simp_all add: ss_inv_def)
  have count: "(\<Sum>x\<leftarrow>xs. of_bool (P x)) = int (length (filter P xs))" for P and xs :: "'x list"
    by (induction xs) simp_all
  have "filter pw_parked (ss_waiters s) = filter (\<lambda>w. \<not> pw_woken w) (ss_waiters s)"
    using inv(1) by (intro filter_cong) (auto simp: inv_account_def in_set_conv_nth)
  then have parked: "ss_parked s = int (length (filter (\<lambda>w. \<not> pw_woken w) (ss_waiters s))) + int (length (filter pk_parked (ss_parkers s)))"
    using inv(1) by (simp add: inv_account_def parkedWaiters_def parkedParkers_def count)
  have "(\<exists>wid w. watchOf s wid = Some w \<and> i \<in> set (ow_waiters w)) \<or>
      (\<exists>f \<in> set (ss_futures s) \<union> set (ss_draining s). i \<in> set (fc_waiters (ss_cells s ! f)) \<and> \<not> isDone s f)"
    if i: "i < length (ss_waiters s)" "\<not> pw_woken (ss_waiters s ! i)" for i
  proof (cases "\<exists>wid w. watchOf s wid = Some w \<and> i \<in> set (ow_waiters w)")
    case False
    then obtain f where f: "f < length (ss_cells s)" "i \<in> set (fc_waiters (ss_cells s ! f))"
      using inv(2) i unfolding inv_held_def by blast
    have "fc_waiters (ss_cells s ! f) \<noteq> []" using f(2) by auto
    then have "f \<in> set (ss_futures s) \<union> set (ss_draining s)" "\<not> isDone s f"
      using inv(3) [unfolded inv_cells_def, THEN conjunct1, rule_format, OF f(1)] by (auto simp: Let_def isDone_def)
    then show ?thesis using f(2) by blast
  qed simp
  then show ?thesis using parked by simp
qed

theorem parked_goroutines_are_accounted_witness:
  "reachable ex_parked \<and> ss_parked ex_parked = 1 \<and>
   int (length (filter (\<lambda>w. \<not> pw_woken w) (ss_waiters ex_parked))) + int (length (filter pk_parked (ss_parkers ex_parked))) = 1"
proof -
  have "ss_parked ex_parked = 1" by (simp add: ex_parked_def ex_actions_def ss_eval)
  then show ?thesis
    using parked_goroutines_are_accounted [OF ex_parked_reachable] ex_parked_reachable by simp
qed

section \<open>Retired commitments\<close>

text \<open>Marks stay, and a subtree that is marked and holds no commitment never holds one again.\<close>

definition noCommits :: "abandonHandle \<Rightarrow> suspendSignal \<Rightarrow> bool" where
  "noCommits h s \<longleftrightarrow> list_all (\<lambda>(k, _). \<not> handle_within k h) (ss_branchCommits s)"

definition retires :: "suspendSignal \<Rightarrow> suspendSignal \<Rightarrow> bool" where
  "retires s t \<longleftrightarrow> set (ss_abandonSet s) \<subseteq> set (ss_abandonSet t) \<and>
     (\<forall>h. handle_id h \<in> set (ss_abandonSet s) \<and> noCommits h s \<longrightarrow> noCommits h t)"

lemma retires_refl: "retires s s"
  by (simp add: retires_def)

lemma retires_trans: "retires s t \<Longrightarrow> retires t u \<Longrightarrow> retires s u"
  unfolding retires_def by (meson subsetD subset_trans)

lemma retires_keep: "ss_abandonSet t = ss_abandonSet s \<Longrightarrow> ss_branchCommits t = ss_branchCommits s \<Longrightarrow> retires s t"
  by (simp add: retires_def noCommits_def)

lemma retires_rest: "rest t = rest s \<Longrightarrow> retires s t"
  by (rule retires_keep) (erule rest_eqD)+

lemma retires_commit: "retires s (commitPending ho s)"
proof (cases ho)
  case None
  then show ?thesis by (intro retires_keep) (simp_all add: commitPending_def enterCheck_def touch_def)
next
  case (Some h)
  show ?thesis
  proof (cases "abandoned s (Some h)")
    case False
    have "\<not> handle_within h g" if "handle_id g \<in> set (ss_abandonSet s)" for g
      using False that by (auto simp: abandoned_def handle_within_def list_ex_iff)
    then show ?thesis
      using False by (auto simp: Some commitPending_def enterCheck_def touch_def retires_def noCommits_def list_all_iff)
  qed (simp add: Some commitPending_def retires_refl)
qed

lemma retires_step:
  assumes "ss_step a s = Some s'"
  shows "retires s s'"
proof (cases a)
  case (SAwait wid ab det gate ready endTime now)
  show ?thesis
  proof (rule await_step_cases [OF assms [unfolded SAwait]])
    fix gated
    assume t: "s' = snd (parkOnOperation wid ab det gated ready endTime (getByWireID (ss_state s) wid) now s)"
    show ?thesis by (rule retires_keep) (simp_all add: park_frame [OF t])
  qed (simp add: retires_refl)
next
  case (SMatch now)
  then show ?thesis
    using assms by (auto simp: ss_step_def onStateMerged_def rest_eqD [OF rest_matchFold] intro!: retires_keep split: option.splits)
next
  case SWakeAbandoned
  then show ?thesis
    using assms by (auto simp: ss_step_def wakeAbandoned_def enterCheck_def rest_eqD [OF rest_fold [OF rest_wakeAbandoned1]] intro!: retires_keep)
next
  case SFire
  have "retires t (fire_begin t)" for t
    by (cases "ss_firing t") (simp add: fire_begin_again retires_refl, simp add: retires_keep fire_begin_fields)
  then show ?thesis
    using assms SFire retires_trans [OF retires_keep [of "s \<lparr> ss_fires := ss_fires s - 1 \<rparr>" s]]
    by (auto simp: ss_step_def maybeSuspend_fire_def split: if_splits)
next
  case (SPollEnd err now)
  then have "pollWatch_end err now s = Some s'" using assms by (simp add: ss_step_def)
  then show ?thesis
    by (rule pollEnd_cases) (auto simp: enterCheck_def setWatch_def rest_eqD [OF rest_armPoll] intro!: retires_keep)
next
  case SStopPolls
  then show ?thesis using assms by (auto simp: ss_step_def rest_eqD [OF stopPolls_frame] intro!: retires_keep)
next
  case (SCommit ho)
  then show ?thesis using assms retires_commit by (auto simp: ss_step_def)
next
  case (SRetire h)
  then show ?thesis
    using assms by (auto simp: ss_step_def retireCommitments_def retires_def noCommits_def list_all_iff split: if_splits)
next
  case (SAbandon h)
  then show ?thesis using assms by (auto simp: ss_step_def abandon_def retires_def noCommits_def)
qed (use assms in \<open>auto simp: ss_step_def registerBranch_def deregisterBranch_def enterExecuting_def exitExecuting_def
    Let_def requestQueued_def requestSettled_def contextEnds_def registerFuture_def newWaiterLocked_def addCellWaiters_frame
    maybeSuspend_check_def maybeSuspend_settled_def mergeResponse_def enterCheck_def touch_def newFuture_def timerFires_def
    markAwaited_def parker_park_def parker_signal_def parker_received_def parker_unpark_def awaitAnySettled_def
    leaveFutures_def pollWatch_begin_def setWatch_def fire_drain_def
    split: if_splits option.splits list.splits intro!: retires_keep\<close>)

interpretation retiring: monotone_step_system ss_step ss_inv retires
  by unfold_locales (rule retires_refl, erule (1) retires_trans, erule retires_step)

text \<open>C7: An abandoned subtree never holds the invocation at PENDING again.  Once a batch has marked its subtree and
  retired its commitments, no later commitment under that handle or any handle beneath it is ever recorded, whatever
  the branches it abandoned still do.\<close>
theorem retired_commitments_stay_retired:
  assumes "reachable s" and "ss_run (SAbandon h # as) s = Some s1" and "ss_step (SRetire h) s1 = Some s2"
    and "ss_run bs s2 = Some t" and "(k, n) \<in> set (ss_branchCommits t)"
  shows "\<not> handle_within k h"
proof -
  have inv: "ss_inv s" by (rule reachable_inv [OF assms(1)])
  have i1: "ss_inv s1" and i2: "ss_inv s2"
    using sig.run_inv [OF assms(2) inv] ss_inv_step [OF assms(3)] by blast+
  have "handle_id h \<in> set (ss_abandonSet s2)" "noCommits h s2"
    using assms(3) by (auto simp: ss_step_def retireCommitments_def noCommits_def list_all_iff split: if_splits)
  then have "noCommits h t"
    using retiring.run_rel [OF assms(4) i2] by (simp add: retires_def)
  then show ?thesis using assms(5) by (auto simp: noCommits_def list_all_iff)
qed

text \<open>A branch of an item commits, the batch abandons it, and a nested branch tries to commit afterwards.\<close>

theorem retired_commitments_stay_retired_witness:
  "\<exists>t. ss_run [SCommit (Some (AbandonHandle 1 (Some (AbandonHandle 0 None)))), SAbandon (AbandonHandle 0 None),
          SRetire (AbandonHandle 0 None), SCommit (Some (AbandonHandle 2 (Some (AbandonHandle 0 None)))),
          SCommit (Some (AbandonHandle 3 None))] (newSuspendSignal None emptyState) = Some t \<and>
     (AbandonHandle 3 None, 1) \<in> set (ss_branchCommits t) \<and>
     \<not> handle_within (AbandonHandle 3 None) (AbandonHandle 0 None)"
proof -
  let ?h = "AbandonHandle 0 None"
  let ?a = "SCommit (Some (AbandonHandle 1 (Some ?h)))"
  let ?bs = "[SCommit (Some (AbandonHandle 2 (Some ?h))), SCommit (Some (AbandonHandle 3 None))]"
  obtain s where s: "ss_run [?a] (newSuspendSignal None emptyState) = Some s" by (simp add: ss_step_def)
  obtain s1 where s1: "ss_run [SAbandon ?h] s = Some s1" by (simp add: ss_step_def)
  obtain s2 where s2: "ss_step (SRetire ?h) s1 = Some s2" using s1 by (auto simp: ss_step_def abandon_def)
  obtain t where t: "ss_run ?bs s2 = Some t" by (simp add: ss_step_def)
  have "ss_run ([?a] @ ([SAbandon ?h] @ ([SRetire ?h] @ ?bs))) (newSuspendSignal None emptyState) = Some t"
    by (simp only: run_steps_append s s1 run_one [OF s2] t option.case)
  then have run: "ss_run (?a # SAbandon ?h # SRetire ?h # ?bs) (newSuspendSignal None emptyState) = Some t"
    by (simp only: append_Cons append_Nil)
  have mem: "(AbandonHandle 3 None, 1) \<in> set (ss_branchCommits t)"
    using run by (auto simp: ss_step_def commitPending_def enterCheck_def touch_def newSuspendSignal_def abandoned_def
        abandon_def retireCommitments_def handle_within_def)
  have "reachable s" unfolding reachable_def using s by blast
  then show ?thesis
    using retired_commitments_stay_retired [OF _ s1 s2 t mem] run mem by auto
qed

section \<open>Polling\<close>



end
