(* ===== verification/Spec2Isabelle.thy ===== *)
theory Spec2Isabelle
  imports Prelude Wire_Types Op_Ids Exec_State Go_Errors Ckpt_Errors
    Checkpointer Checkpointer_Inv Checkpointer_Trace Service Service_Sync
    Durations Engine Engine_Laws Step_Op Step_Replay Wait_Op Child_Op
    Invoke_Op Condition_Op Handler_Ops Callback_Op Handler_Replay Mem_Engine
    Invocations Healthy Example_Execution Replay_Properties Operation_Properties
    Suspend Suspend_Inv Suspend_Held Suspend_Polls Suspend_Properties
begin

text \<open>The AWS Durable Execution SDK for Go: a model of its replay engine.\<close>

end
